(* ===== verification/Systems.thy ===== *)
theory Systems imports Main begin

text \<open>
  What the step relations of the development share: the states a run of steps reaches,
  conditions that steps keep, runs that must end, and the simulation of one step relation by
  another. Each is a locale, interpreted where the model's step relation is defined.
\<close>

inductive steps :: "('s \<Rightarrow> 's \<Rightarrow> bool) \<Rightarrow> 's \<Rightarrow> 's \<Rightarrow> bool" for step where
  steps_refl [intro, simp]: "steps step s s"
| steps_snoc: "steps step s t \<Longrightarrow> step t u \<Longrightarrow> steps step s u"

lemma steps_single: "step s t \<Longrightarrow> steps step s t"
  by (rule steps_snoc [OF steps_refl])

lemma steps_trans: "steps step s t \<Longrightarrow> steps step t u \<Longrightarrow> steps step s u"
  by (rotate_tac, induction rule: steps.induct) (auto intro: steps_snoc)

locale preserved =
  fixes step :: "'s \<Rightarrow> 's \<Rightarrow> bool" and inv :: "'s \<Rightarrow> bool"
  assumes keeps: "inv s \<Longrightarrow> step s t \<Longrightarrow> inv t"
begin

lemma steps_keep: "steps step s t \<Longrightarrow> inv s \<Longrightarrow> inv t"
  by (induction rule: steps.induct) (auto intro: keeps)

end

locale terminating = preserved step inv
  for step :: "'s \<Rightarrow> 's \<Rightarrow> bool" and inv :: "'s \<Rightarrow> bool" +
  fixes bound :: "'s \<Rightarrow> nat"
  assumes decreases: "inv s \<Longrightarrow> step s t \<Longrightarrow> bound t < bound s"
begin

lemma no_infinite_run: "inv (f 0) \<Longrightarrow> \<exists>n. \<not> step (f n) (f (Suc n))"
proof (rule ccontr)
  assume inv0: "inv (f 0)" and "\<nexists>n. \<not> step (f n) (f (Suc n))"
  then have run: "step (f n) (f (Suc n))" for n by blast
  have inv: "inv (f n)" for n by (induction n) (auto intro: inv0 keeps run)
  have "bound (f n) + n \<le> bound (f 0)" for n
  proof (induction n)
    case (Suc n)
    then show ?case using decreases [OF inv run, of n] by simp
  qed simp
  from this [of "Suc (bound (f 0))"] show False by simp
qed

lemma runs_to_end: "inv s \<Longrightarrow> \<exists>t. steps step s t \<and> (\<forall>u. \<not> step t u)"
proof (induction "bound s" arbitrary: s rule: less_induct)
  case less
  show ?case
  proof (cases "\<exists>t. step s t")
    case True
    then obtain t where t: "step s t" by blast
    from less.hyps [OF decreases [OF less.prems t] keeps [OF less.prems t]] obtain u
      where "steps step t u" "\<forall>v. \<not> step u v" by blast
    with steps_trans [OF steps_single [of step, OF t]] show ?thesis by blast
  qed auto
qed

end

locale simulation =
  fixes cstep :: "'c \<Rightarrow> 'c \<Rightarrow> bool" and astep :: "'a \<Rightarrow> 'a \<Rightarrow> bool" and R :: "'a \<Rightarrow> 'c \<Rightarrow> bool"
  assumes simulates: "R a s \<Longrightarrow> cstep s s' \<Longrightarrow> \<exists>a'. steps astep a a' \<and> R a' s'"
begin

lemma simulates_steps: "steps cstep s s' \<Longrightarrow> R a s \<Longrightarrow> \<exists>a'. steps astep a a' \<and> R a' s'"
proof (induction rule: steps.induct)
  case (steps_snoc s t u)
  then obtain b where b: "steps astep a b" "R b t" by blast
  from simulates [OF b(2) steps_snoc.hyps(2)] obtain c where "steps astep b c" "R c u" by blast
  with steps_trans [OF b(1)] show ?case by blast
qed auto

end

end
