(* ===== verification/Prelude.thy ===== *)
theory Prelude imports Main "HOL-Library.Word" begin

text \<open>
  Shared vocabulary of the development: machine integers, the exceptions the C++ code
  throws, the result type \<open>error + 'a\<close> with its sequencing operator, the loop
  \<open>rfold\<close> that stops at the first exception, and the generic list lemmas the component
  theories share.
\<close>

section \<open>Machine integers and byte strings\<close>

type_synonym u8 = "8 word"
type_synonym u16 = "16 word"
type_synonym u32 = "32 word"
type_synonym u64 = "64 word"
type_synonym bytes = "u8 list"

section \<open>Exceptions\<close>

text \<open>
  The exception classes the code throws or lets escape: \<open>helpers::SystemError\<close> with its
  errno, \<open>std::invalid_argument\<close>, \<open>std::out_of_range\<close> and \<open>std::runtime_error\<close>.
  \<open>Overread\<close> is not an exception: it marks a read past the end of a netlink attribute,
  which is undefined behaviour in C++ and must be visible in the model.
\<close>

datatype error =
    SystemError int string
  | InvalidArgument string
  | OutOfRange string
  | RuntimeError string
  | Overread

type_synonym 'a res = "error + 'a"

fun rbind :: "'a res \<Rightarrow> ('a \<Rightarrow> 'b res) \<Rightarrow> 'b res" where
  "rbind (Inl e) f = Inl e"
| "rbind (Inr x) f = f x"

text \<open>
  Collections: \<open>res_elims\<close> holds the characterisations of when a sequence of fallible
  steps succeeds or fails, \<open>exec_simps\<close> the definitions that evaluate closed terms.
\<close>

named_theorems res_elims
named_theorems exec_simps

lemma rbind_Inr_iff [res_elims]: "rbind m f = Inr y \<longleftrightarrow> (\<exists>x. m = Inr x \<and> f x = Inr y)"
  by (cases m) auto

lemma rbind_Inl_iff [res_elims]:
  "rbind m f = Inl e \<longleftrightarrow> m = Inl e \<or> (\<exists>x. m = Inr x \<and> f x = Inl e)"
  by (cases m) auto

lemma rbind_assoc: "rbind (rbind m f) g = rbind m (\<lambda>x. rbind (f x) g)"
  by (cases m) auto

lemma rbind_Inr_right [simp]: "rbind m Inr = m"
  by (cases m) auto

lemma rbind_cong [fundef_cong]:
  "m = n \<Longrightarrow> (\<And>x. n = Inr x \<Longrightarrow> f x = g x) \<Longrightarrow> rbind m f = rbind n g"
  by (cases n) auto

lemma isl_rbind: "isl (rbind m f) \<longleftrightarrow> isl m \<or> isl (f (projr m))"
  by (cases m) auto

section \<open>Loops that may throw\<close>

text \<open>A \<open>for\<close> loop over a sequence whose body may throw: the first exception leaves the loop.\<close>

fun rfold :: "('s \<Rightarrow> 'a \<Rightarrow> 's res) \<Rightarrow> 's \<Rightarrow> 'a list \<Rightarrow> 's res" where
  "rfold f s [] = Inr s"
| "rfold f s (x # xs) = rbind (f s x) (\<lambda>s'. rfold f s' xs)"

lemma rfold_append: "rfold f s (xs @ ys) = rbind (rfold f s xs) (\<lambda>s'. rfold f s' ys)"
  by (induction xs arbitrary: s) (auto simp: rbind_assoc)

lemma rfold_cong [fundef_cong]:
  "s = t \<Longrightarrow> xs = ys \<Longrightarrow> (\<And>u x. x \<in> set ys \<Longrightarrow> f u x = g u x) \<Longrightarrow> rfold f s xs = rfold g t ys"
proof (induction ys arbitrary: xs s t)
  case (Cons y ys)
  then show ?case by (auto intro: rbind_cong)
qed simp

text \<open>A loop invariant of the body is one of the loop.\<close>

lemma rfold_invariant:
  assumes "rfold f s xs = Inr t" and "I s"
    and step: "\<And>u x v. x \<in> set xs \<Longrightarrow> I u \<Longrightarrow> f u x = Inr v \<Longrightarrow> I v"
  shows "I t"
  using assms
proof (induction xs arbitrary: s)
  case (Cons x xs)
  from Cons.prems(1) obtain v where v: "f s x = Inr v" "rfold f v xs = Inr t"
    by (auto simp: rbind_Inr_iff)
  have "I v" by (rule Cons.prems(3) [OF _ Cons.prems(2) v(1)]) simp
  show ?case by (rule Cons.IH [OF v(2) \<open>I v\<close>]) (rule Cons.prems(3), auto)
qed simp

lemma rfold_total:
  assumes "I s" and "\<And>u x. x \<in> set xs \<Longrightarrow> I u \<Longrightarrow> \<exists>v. f u x = Inr v \<and> I v"
  shows "\<exists>t. rfold f s xs = Inr t \<and> I t"
  using assms
proof (induction xs arbitrary: s)
  case (Cons x xs)
  then obtain v where "f s x = Inr v" "I v" by force
  with Cons.IH [of v] Cons.prems show ?case by auto
qed simp

lemma rfold_each: "rfold f s xs = Inr t \<Longrightarrow> x \<in> set xs \<Longrightarrow> \<exists>u v. f u x = Inr v"
  by (induction xs arbitrary: s) (auto simp: rbind_Inr_iff)

lemma rfold_pure: "(\<And>u x. x \<in> set xs \<Longrightarrow> f u x = Inr (g u x)) \<Longrightarrow> rfold f s xs = Inr (foldl g s xs)"
  by (induction xs arbitrary: s) auto

text \<open>A map whose function may throw, as the loops that build a vector element by element.\<close>

fun rmap :: "('a \<Rightarrow> 'b res) \<Rightarrow> 'a list \<Rightarrow> 'b list res" where
  "rmap f [] = Inr []"
| "rmap f (x # xs) = rbind (f x) (\<lambda>y. rbind (rmap f xs) (\<lambda>ys. Inr (y # ys)))"

lemma rmap_pure: "(\<And>x. x \<in> set xs \<Longrightarrow> f x = Inr (g x)) \<Longrightarrow> rmap f xs = Inr (map g xs)"
  by (induction xs) auto

lemma rmap_cong [fundef_cong]:
  "xs = ys \<Longrightarrow> (\<And>x. x \<in> set ys \<Longrightarrow> f x = g x) \<Longrightarrow> rmap f xs = rmap g ys"
proof (induction ys arbitrary: xs)
  case (Cons y ys)
  then show ?case by (auto intro: rbind_cong)
qed simp

lemma rmap_Inr_iff: "rmap f xs = Inr ys \<longleftrightarrow> list_all2 (\<lambda>x y. f x = Inr y) xs ys"
proof (induction xs arbitrary: ys)
  case Nil
  show ?case by (cases ys) auto
next
  case (Cons x xs)
  then show ?case by (cases ys) (auto simp: rbind_Inr_iff)
qed

lemma rmap_append:
  "rmap f (xs @ ys) = rbind (rmap f xs) (\<lambda>us. rbind (rmap f ys) (\<lambda>vs. Inr (us @ vs)))"
  by (induction xs) (auto simp: rbind_assoc)

section \<open>Lists\<close>

lemma list_update_append_replicate:
  "length out = k \<Longrightarrow> 0 < n \<Longrightarrow>
   (out @ replicate n z)[k := b] = (out @ [b]) @ replicate (n - 1) z"
  by (cases n) (auto simp: list_update_append)

lemma takeWhile_append_stop: "(\<And>x. x \<in> set xs \<Longrightarrow> P x) \<Longrightarrow> \<not> P y \<Longrightarrow>
  takeWhile P (xs @ y # ys) = xs"
  by (simp add: takeWhile_append)

lemma list_all2_replicate_length: "list_all2 P xs ys \<Longrightarrow> length xs = length ys"
  by (rule list_all2_lengthD)

lemma concat_map_singleton [simp]: "concat (map (\<lambda>x. [f x]) xs) = map f xs"
  by (induction xs) auto

lemma length_ge_Suc: "Suc n \<le> length xs \<longleftrightarrow> (\<exists>y ys. xs = y # ys \<and> n \<le> length ys)"
  by (cases xs) auto

end
