(* ===== verification/Wire.thy ===== *)
theory Wire imports Prelude begin

unbundle bit_operations_syntax

text \<open>
  Integers in memory. The addon is built for x86-64 and arm64 Linux, where the host byte
  order is little endian; \<open>htons\<close> and \<open>ntohs\<close> give the big-endian port of a
  \<open>sockaddr\<close>. \<open>peek\<close> reads a fixed number of bytes at an offset and fails with
  \<open>Overread\<close> where the C++ would read past the end.
\<close>

definition le_bytes :: "nat \<Rightarrow> 'a::len word \<Rightarrow> bytes" where
  "le_bytes n w = map (\<lambda>i. ucast (drop_bit (8 * i) w)) [0..<n]"

fun le_word :: "bytes \<Rightarrow> 'a::len word" where
  "le_word [] = 0"
| "le_word (b # bs) = ucast b OR push_bit 8 (le_word bs)"

definition be_bytes :: "nat \<Rightarrow> 'a::len word \<Rightarrow> bytes" where
  "be_bytes n w = rev (le_bytes n w)"

definition be_word :: "bytes \<Rightarrow> 'a::len word" where
  "be_word bs = le_word (rev bs)"

definition peek :: "bytes \<Rightarrow> nat \<Rightarrow> nat \<Rightarrow> bytes res" where
  "peek bs off n = (if off + n \<le> length bs then Inr (take n (drop off bs)) else Inl Overread)"

lemma length_le_bytes [simp]: "length (le_bytes n w) = n"
  by (simp add: le_bytes_def)

lemma length_be_bytes [simp]: "length (be_bytes n w) = n"
  by (simp add: be_bytes_def)

lemma u8_bit_ge: "bit (b :: u8) i \<Longrightarrow> i < 8"
  by (auto dest: bit_imp_le_length)

lemma bit_le_word:
  "bit (le_word bs :: 'a::len word) i \<longleftrightarrow>
     i < LENGTH('a) \<and> i div 8 < length bs \<and> bit (bs ! (i div 8)) (i mod 8)"
proof (induction bs arbitrary: i)
  case (Cons b bs)
  show ?case
  proof (cases "i < 8")
    case True
    then show ?thesis by (auto simp: bit_simps)
  next
    case False
    then have i: "i div 8 = Suc ((i - 8) div 8)" "(i - 8) mod 8 = i mod 8"
      by (simp_all add: le_div_geq le_mod_geq)
    have "\<not> bit b i" using False by (auto dest: u8_bit_ge)
    then show ?thesis using False by (auto simp: bit_simps Cons.IH i)
  qed
qed simp

lemma le_word_le_bytes: "LENGTH('a) = 8 * n \<Longrightarrow> le_word (le_bytes n w) = (w :: 'a::len word)"
proof (rule bit_word_eqI)
  fix i assume "LENGTH('a) = 8 * n" "i < LENGTH('a)"
  then have "i div 8 < n" by simp
  moreover have "8 * (i div 8) + i mod 8 = i" by simp
  ultimately show "bit (le_word (le_bytes n w) :: 'a word) i = bit w i"
    using \<open>i < LENGTH('a)\<close> by (simp add: bit_le_word le_bytes_def bit_simps)
qed

lemma be_word_be_bytes: "LENGTH('a) = 8 * n \<Longrightarrow> be_word (be_bytes n w) = (w :: 'a::len word)"
  by (simp add: be_word_def be_bytes_def le_word_le_bytes)

lemma peek_append: "off = length xs \<Longrightarrow> n = length ys \<Longrightarrow> peek (xs @ ys @ zs) off n = Inr ys"
  by (simp add: peek_def)

lemma peek_Inr: "off + n \<le> length bs \<Longrightarrow> peek bs off n = Inr (take n (drop off bs))"
  by (simp add: peek_def)

lemma peek_length: "peek bs off n = Inr ys \<Longrightarrow> length ys = n"
  by (auto simp: peek_def split: if_splits)

end
