(* ===== verification/CxxString.thy ===== *)
theory CxxString imports Prelude begin

text \<open>
  The parts of the C++ standard library the code uses on \<open>std::string\<close>: searching and
  slicing, \<open>c_str()\<close>, \<open>std::getline\<close>, decimal printing, and the \<open>std::stoi\<close>
  family. A \<open>std::string\<close> is a byte string and HOL's \<open>char\<close> is a byte, so it is a HOL
  \<open>string\<close>; it may hold NUL bytes. The \<open>stoi\<close> family accepts leading white space and
  a sign and reports the number of characters it consumed; the callers rely on exactly that.
\<close>

section \<open>Characters\<close>

abbreviation (input) NUL :: char where "NUL \<equiv> CHR 0x00"
abbreviation (input) LF :: char where "LF \<equiv> CHR 0x0A"

definition code :: "char \<Rightarrow> nat" where
  "code c = of_char c"

lemma code_less [simp]: "code c < 256"
  by (simp add: code_def)

lemma code_Char_of [simp]: "n < 256 \<Longrightarrow> code (char_of n) = n"
  by (simp add: code_def)

lemma char_of_code [simp]: "char_of (code c) = c"
  by (simp add: code_def)

lemma code_inject [simp]: "code c = code d \<longleftrightarrow> c = d"
  by (metis char_of_code)

text \<open>\<open>isspace\<close> in the C locale, and decimal digits.\<close>

definition isspace :: "char \<Rightarrow> bool" where
  "isspace c \<longleftrightarrow> code c = 32 \<or> 9 \<le> code c \<and> code c \<le> 13"

definition isdigit :: "char \<Rightarrow> bool" where
  "isdigit c \<longleftrightarrow> 48 \<le> code c \<and> code c \<le> 57"

definition digit_char :: "nat \<Rightarrow> char" where
  "digit_char d = char_of (48 + d)"

lemma code_digit_char: "d < 10 \<Longrightarrow> code (digit_char d) = 48 + d"
  by (simp add: digit_char_def)

lemma isdigit_digit_char [simp]: "d < 10 \<Longrightarrow> isdigit (digit_char d)"
  by (simp add: isdigit_def code_digit_char)

section \<open>Searching and slicing\<close>

text \<open>\<open>find(c)\<close> and \<open>rfind(c)\<close>; \<open>None\<close> is \<open>npos\<close>.\<close>

fun find_char :: "char \<Rightarrow> string \<Rightarrow> nat option" where
  "find_char c [] = None"
| "find_char c (d # s) = (if d = c then Some 0 else map_option Suc (find_char c s))"

fun rfind_char :: "char \<Rightarrow> string \<Rightarrow> nat option" where
  "rfind_char c [] = None"
| "rfind_char c (d # s) =
     (case rfind_char c s of
        Some i \<Rightarrow> Some (Suc i)
      | None \<Rightarrow> if d = c then Some 0 else None)"

text \<open>\<open>substr(pos, n)\<close> and \<open>substr(pos)\<close>, at positions within the string.\<close>

definition substr :: "string \<Rightarrow> nat \<Rightarrow> nat \<Rightarrow> string" where
  "substr s pos n = take n (drop pos s)"

definition substr_from :: "string \<Rightarrow> nat \<Rightarrow> string" where
  "substr_from s pos = drop pos s"

text \<open>What a C function reads of a \<open>std::string\<close> through \<open>c_str()\<close>: up to the first NUL.\<close>

definition c_str :: "string \<Rightarrow> string" where
  "c_str s = takeWhile (\<lambda>c. c \<noteq> NUL) s"

lemma c_str_id: "NUL \<notin> set s \<Longrightarrow> c_str s = s"
  by (auto simp: c_str_def takeWhile_eq_all_conv)

lemma find_char_None_iff: "find_char c s = None \<longleftrightarrow> c \<notin> set s"
  by (induction s) auto

lemma find_char_Some:
  "find_char c s = Some i \<Longrightarrow> s = take i s @ c # drop (Suc i) s \<and> c \<notin> set (take i s) \<and> i < length s"
proof (induction s arbitrary: i)
  case (Cons d s)
  then show ?case by (auto split: if_splits)
qed simp

lemma find_char_append: "c \<notin> set xs \<Longrightarrow> find_char c (xs @ c # ys) = Some (length xs)"
  by (induction xs) auto

lemma rfind_char_None_iff: "rfind_char c s = None \<longleftrightarrow> c \<notin> set s"
  by (induction s) (auto split: option.splits)

lemma rfind_char_Some:
  "rfind_char c s = Some i \<Longrightarrow>
   s = take i s @ c # drop (Suc i) s \<and> c \<notin> set (drop (Suc i) s) \<and> i < length s"
proof (induction s arbitrary: i)
  case (Cons d s)
  show ?case
  proof (cases "rfind_char c s")
    case None
    with Cons.prems show ?thesis by (auto simp: rfind_char_None_iff split: if_splits)
  next
    case (Some j)
    with Cons show ?thesis by auto
  qed
qed simp

lemma rfind_char_append: "c \<notin> set ys \<Longrightarrow> rfind_char c (xs @ c # ys) = Some (length xs)"
proof (induction xs)
  case Nil
  then have "rfind_char c ys = None" by (simp add: rfind_char_None_iff)
  then show ?case by simp
qed simp

section \<open>std::getline\<close>

text \<open>
  The lines \<open>while (std::getline(iss, line))\<close> visits: split at each newline; a last line
  without a newline counts, an empty rest does not.
\<close>

fun getlines :: "string \<Rightarrow> string list" where
  "getlines [] = []"
| "getlines (c # s) =
     (if c = LF then [] # getlines s
      else (case getlines s of [] \<Rightarrow> [[c]] | l # ls \<Rightarrow> (c # l) # ls))"

lemma getlines_line: "LF \<notin> set l \<Longrightarrow> getlines (l @ LF # s) = l # getlines s"
  by (induction l) auto

lemma getlines_last: "LF \<notin> set l \<Longrightarrow> l \<noteq> [] \<Longrightarrow> getlines l = [l]"
proof (induction l)
  case (Cons c l)
  then show ?case by (cases "l = []") auto
qed simp

lemma getlines_concat:
  "(\<And>l. l \<in> set ls \<Longrightarrow> LF \<notin> set l) \<Longrightarrow>
   getlines (concat (map (\<lambda>l. l @ [LF]) ls) @ s) = ls @ getlines s"
  by (induction ls) (auto simp: getlines_line)

lemma getlines_no_LF: "l \<in> set (getlines s) \<Longrightarrow> LF \<notin> set l"
proof (induction s arbitrary: l)
  case (Cons c s)
  then show ?case by (cases "getlines s") (auto split: if_splits)
qed simp

lemma set_getlines: "l \<in> set (getlines s) \<Longrightarrow> set l \<subseteq> set s"
proof (induction s arbitrary: l)
  case (Cons c s)
  then show ?case by (cases "getlines s") (fastforce split: if_splits)+
qed simp

section \<open>Decimal numbers\<close>

text \<open>\<open>std::to_string\<close> of an unsigned value, and \<open>operator<<\<close> with default flags.\<close>

fun to_string :: "nat \<Rightarrow> string" where
  "to_string n = (if n < 10 then [] else to_string (n div 10)) @ [digit_char (n mod 10)]"

declare to_string.simps [simp del, exec_simps]

definition dec_value :: "string \<Rightarrow> nat" where
  "dec_value s = foldl (\<lambda>a c. 10 * a + (code c - 48)) 0 s"

lemma dec_value_snoc: "dec_value (s @ [c]) = 10 * dec_value s + (code c - 48)"
  by (simp add: dec_value_def)

lemma dec_value_to_string [simp]: "dec_value (to_string n) = n"
proof (induction n rule: to_string.induct)
  case (1 n)
  then show ?case
    by (subst to_string.simps) (auto simp: dec_value_snoc code_digit_char dec_value_def)
qed

lemma to_string_digits: "c \<in> set (to_string n) \<Longrightarrow> isdigit c"
proof (induction n rule: to_string.induct)
  case (1 n)
  then show ?case by (subst (asm) (2) to_string.simps) (auto split: if_splits)
qed

lemma to_string_nonempty [simp]: "to_string n \<noteq> []"
  by (subst to_string.simps) simp

lemma to_string_all_digits [simp]: "list_all isdigit (to_string n)"
  by (auto simp: list_all_iff to_string_digits)

lemma isdigit_not_special:
  "isdigit c \<Longrightarrow> \<not> isspace c" "isdigit c \<Longrightarrow> c \<noteq> LF" "isdigit c \<Longrightarrow> c \<noteq> NUL"
  "isdigit c \<Longrightarrow> c \<noteq> CHR ''-''" "isdigit c \<Longrightarrow> c \<noteq> CHR ''+''" "isdigit c \<Longrightarrow> c \<noteq> CHR '':''"
  "isdigit c \<Longrightarrow> c \<noteq> CHR ''=''" "isdigit c \<Longrightarrow> c \<noteq> CHR ''/''" "isdigit c \<Longrightarrow> c \<noteq> CHR '']''"
  by (auto simp: isdigit_def isspace_def code_def)

text \<open>
  The scan \<open>strtol\<close> and \<open>strtoul\<close> do in base 10: white space, an optional sign, the
  longest run of digits. \<open>None\<close> when there is no digit; otherwise the sign, the magnitude
  and the number of characters consumed.
\<close>

definition strto_sign :: "string \<Rightarrow> string" where
  "strto_sign s =
     (case s of c # _ \<Rightarrow> if c = CHR ''-'' \<or> c = CHR ''+'' then [c] else [] | [] \<Rightarrow> [])"

definition strto :: "string \<Rightarrow> (bool \<times> nat \<times> nat) option" where
  "strto s =
     (let ws = takeWhile isspace s;
          rest = dropWhile isspace s;
          sg = strto_sign rest;
          digits = takeWhile isdigit (drop (length sg) rest)
      in if digits = [] then None
         else Some (sg = ''-'', dec_value digits, length ws + length sg + length digits))"

text \<open>
  \<open>std::stoi\<close>, \<open>std::stoll\<close>, \<open>std::stoul\<close> and \<open>std::stoull\<close> with their
  \<open>idx\<close> result, on the platforms the addon builds for (64-bit \<open>long\<close>). The unsigned
  ones negate modulo \<open>2^64\<close> when the text has a minus sign.
\<close>

definition stoi :: "string \<Rightarrow> (int \<times> nat) res" where
  "stoi s =
     (case strto s of
        None \<Rightarrow> Inl (InvalidArgument ''stoi'')
      | Some (neg, m, k) \<Rightarrow>
          let v = (if neg then - int m else int m)
          in if - (2 ^ 31) \<le> v \<and> v < 2 ^ 31 then Inr (v, k) else Inl (OutOfRange ''stoi''))"

definition stoll :: "string \<Rightarrow> (int \<times> nat) res" where
  "stoll s =
     (case strto s of
        None \<Rightarrow> Inl (InvalidArgument ''stoll'')
      | Some (neg, m, k) \<Rightarrow>
          let v = (if neg then - int m else int m)
          in if - (2 ^ 63) \<le> v \<and> v < 2 ^ 63 then Inr (v, k) else Inl (OutOfRange ''stoll''))"

definition strtou64 :: "string \<Rightarrow> string \<Rightarrow> (u64 \<times> nat) res" where
  "strtou64 fname s =
     (case strto s of
        None \<Rightarrow> Inl (InvalidArgument fname)
      | Some (neg, m, k) \<Rightarrow>
          if m < 2 ^ 64 then Inr (if neg then - of_nat m else of_nat m, k)
          else Inl (OutOfRange fname))"

definition stoul :: "string \<Rightarrow> (u64 \<times> nat) res" where
  "stoul s = strtou64 ''stoul'' s"

definition stoull :: "string \<Rightarrow> (u64 \<times> nat) res" where
  "stoull s = strtou64 ''stoull'' s"

lemmas stox_defs = stoi_def stoll_def stoul_def stoull_def strtou64_def

lemma takeWhile_all_digits: "list_all P ds \<Longrightarrow> takeWhile P ds = ds"
  by (simp add: list_all_iff takeWhile_eq_all_conv)

lemma strto_digits:
  assumes "list_all isdigit ds" and "ds \<noteq> []"
  shows "strto ds = Some (False, dec_value ds, length ds)"
proof -
  obtain d r where ds: "ds = d # r" using assms(2) by (cases ds) auto
  with assms(1) have "isdigit d" by simp
  then have "\<not> isspace d" "d \<noteq> CHR ''-''" "d \<noteq> CHR ''+''" by (auto simp: isdigit_not_special)
  then have "takeWhile isspace ds = []" "dropWhile isspace ds = ds" "strto_sign ds = []"
    by (simp_all add: ds strto_sign_def)
  then show ?thesis using assms by (simp add: strto_def takeWhile_all_digits)
qed

lemma strto_to_string [simp]: "strto (to_string n) = Some (False, n, length (to_string n))"
  by (simp add: strto_digits)

lemma stoi_to_string: "n < 2 ^ 31 \<Longrightarrow> stoi (to_string n) = Inr (int n, length (to_string n))"
  by (simp add: stoi_def)

lemma stoll_to_string: "n < 2 ^ 63 \<Longrightarrow> stoll (to_string n) = Inr (int n, length (to_string n))"
  by (simp add: stoll_def)

lemma stoul_to_string: "n < 2 ^ 64 \<Longrightarrow> stoul (to_string n) = Inr (of_nat n, length (to_string n))"
  by (simp add: stoul_def strtou64_def)

lemma stoull_to_string: "n < 2 ^ 64 \<Longrightarrow> stoull (to_string n) = Inr (of_nat n, length (to_string n))"
  by (simp add: stoull_def strtou64_def)

lemma length_takeWhile_whole:
  "length (takeWhile P xs) = length xs \<Longrightarrow> takeWhile P xs = xs"
  by (metis append_eq_conv_conj length_takeWhile_le same_append_eq takeWhile_dropWhile_id take_all_iff append_Nil2)

text \<open>When the whole text is consumed it is white space, at most one sign, and digits.\<close>

lemma strto_sign_cases: "strto_sign s = [] \<or> strto_sign s = ''-'' \<or> strto_sign s = ''+''"
  by (auto simp: strto_sign_def split: list.splits)

lemma strto_sign_split: "s = strto_sign s @ drop (length (strto_sign s)) s"
  by (auto simp: strto_sign_def split: list.splits)

lemma strto_consumed_all:
  assumes "strto s = Some (neg, m, length s)"
  shows "\<exists>ws sg ds. s = ws @ sg @ ds \<and> list_all isspace ws \<and> (sg = [] \<or> sg = ''-'' \<or> sg = ''+'')
    \<and> list_all isdigit ds \<and> ds \<noteq> [] \<and> m = dec_value ds \<and> (neg \<longleftrightarrow> sg = ''-'')"
proof -
  define ws rest where "ws = takeWhile isspace s" and "rest = dropWhile isspace s"
  define sg where "sg = strto_sign rest"
  define body where "body = drop (length sg) rest"
  define ds where "ds = takeWhile isdigit body"
  have s: "s = ws @ sg @ body"
    using strto_sign_split [of rest] by (simp add: ws_def rest_def sg_def body_def)
  from assms have ne: "ds \<noteq> []" and m: "m = dec_value ds" and neg: "neg \<longleftrightarrow> sg = ''-''"
    and len: "length s = length ws + length sg + length ds"
    by (auto simp: strto_def Let_def ds_def body_def sg_def rest_def ws_def split: if_splits)
  from len s have "length ds = length body" by simp
  then have "ds = body" unfolding ds_def by (rule length_takeWhile_whole)
  moreover have "list_all isspace ws" "list_all isdigit ds"
    by (auto simp: list_all_iff ws_def ds_def dest: set_takeWhileD)
  moreover have "sg = [] \<or> sg = ''-'' \<or> sg = ''+''" unfolding sg_def by (rule strto_sign_cases)
  ultimately show ?thesis using s ne m neg by blast
qed

end
