(* ===== verification/Mnl.thy ===== *)
theory Mnl imports Wire CxxString begin

text \<open>
  The interface to libmnl, which is not part of the repository. A message under
  construction is the list of libmnl calls the code has made on it, in order, with their
  arguments; \<open>mnl_attr_nest_start\<close> returns a pointer into the message, here the index of
  its own call, which \<open>mnl_attr_nest_end\<close> takes back. What the calls do to the buffer is
  the parameter \<open>mnl_lib\<close>: by how many bytes each of them lengthens the message, the size
  \<open>MNL_SOCKET_BUFFER_SIZE\<close>, the attributes that \<open>mnl_attr_parse\<close> and
  \<open>mnl_attr_parse_nested\<close> hand to their callback for a given payload, and the messages that
  the loop over \<open>mnl_nlmsg_ok\<close> and \<open>mnl_nlmsg_next\<close> visits in a datagram. \<open>mnl_ok\<close> is
  libmnl's documented layout: 16-byte headers, 4-byte attribute headers, 4-byte alignment.
\<close>

datatype extra_hdr =
    Genl (genl_cmd: u8) (genl_version: u8)
  | IfInfo (ifi_family: u8) (ifi_index: u32) (ifi_flags: u32) (ifi_change: u32)
  | IfAddr (ifa_family: u8) (ifa_prefixlen: u8) (ifa_flags: u8) (ifa_scope: u8) (ifa_index: u32)

fun extra_size :: "extra_hdr \<Rightarrow> nat" where
  "extra_size (Genl _ _) = 4"
| "extra_size (IfInfo _ _ _ _) = 16"
| "extra_size (IfAddr _ _ _ _ _) = 8"

datatype mnl_call =
    AttrPut u16 bytes
  | AttrPutU8 u16 u8
  | AttrPutU16 u16 u16
  | AttrPutU32 u16 u32
  | AttrPutStrz u16 string
  | NestStart u16
  | NestEnd nat

type_synonym mnl_calls = "mnl_call list"

record nlmsg =
  nlmsg_type :: u16
  nlmsg_flags :: u16
  nlmsg_seq :: u32
  nlmsg_extra :: extra_hdr
  nlmsg_calls :: mnl_calls

record nlattr =
  nla_type :: u16
  nla_payload :: bytes

text \<open>A received message: the fields of its \<open>nlmsghdr\<close> and the bytes after it.\<close>

record nlreply =
  rp_type :: u16
  rp_flags :: u16
  rp_seq :: u32
  rp_pid :: u32
  rp_payload :: bytes

record mnl_lib =
  nlmsg_hdr_len :: nat
  extra_len :: "nat \<Rightarrow> nat"
  put_len :: "nat \<Rightarrow> nat"
  nest_len :: nat
  socket_buffer_size :: nat
  parse_attrs :: "bytes \<Rightarrow> nlattr list"
  next_msgs :: "bytes \<Rightarrow> nlreply list"

definition align4 :: "nat \<Rightarrow> nat" where
  "align4 n = (n + 3) div 4 * 4"

definition mnl_ok :: "mnl_lib \<Rightarrow> bool" where
  "mnl_ok M \<longleftrightarrow> nlmsg_hdr_len M = 16 \<and> extra_len M = align4 \<and> put_len M = (\<lambda>n. 4 + align4 n)
     \<and> nest_len M = 4 \<and> 4096 \<le> socket_buffer_size M"

text \<open>
  \<open>ref_mnl\<close> is a concrete instance: the netlink attribute and message formats, decoded.
\<close>

function ref_parse_attrs :: "bytes \<Rightarrow> nlattr list" where
  "ref_parse_attrs bs =
     (if length bs < 4 then []
      else let len = unat (le_word (take 2 bs) :: u16) in
        if len < 4 \<or> length bs < len then []
        else \<lparr>nla_type = le_word (take 2 (drop 2 bs)) AND 0x3FFF,
              nla_payload = take (len - 4) (drop 4 bs)\<rparr> # ref_parse_attrs (drop (align4 len) bs))"
  by auto

termination
  by (relation "measure length") (auto simp: align4_def)

function ref_next_msgs :: "bytes \<Rightarrow> nlreply list" where
  "ref_next_msgs bs =
     (if length bs < 16 then []
      else let len = unat (le_word (take 4 bs) :: u32) in
        if len < 16 \<or> length bs < len then []
        else \<lparr>rp_type = le_word (take 2 (drop 4 bs)), rp_flags = le_word (take 2 (drop 6 bs)),
              rp_seq = le_word (take 4 (drop 8 bs)), rp_pid = le_word (take 4 (drop 12 bs)),
              rp_payload = take (len - 16) (drop 16 bs)\<rparr> # ref_next_msgs (drop (align4 len) bs))"
  by auto

termination
  by (relation "measure length") (auto simp: align4_def)

declare ref_parse_attrs.simps [simp del] ref_next_msgs.simps [simp del]

definition ref_mnl :: mnl_lib where
  "ref_mnl = \<lparr>nlmsg_hdr_len = 16, extra_len = align4, put_len = (\<lambda>n. 4 + align4 n), nest_len = 4,
     socket_buffer_size = 8192, parse_attrs = ref_parse_attrs, next_msgs = ref_next_msgs\<rparr>"

lemma mnl_ok_ref: "mnl_ok ref_mnl"
  by (simp add: mnl_ok_def ref_mnl_def)

section \<open>Reading payloads\<close>

text \<open>
  \<open>mnl_attr_get_u8\<close> to \<open>mnl_attr_get_u64\<close> read a fixed number of bytes, \<open>mnl_attr_get_str\<close>
  up to the terminating NUL; none of them looks at the attribute's length.
\<close>

definition attr_uint :: "nat \<Rightarrow> nlattr \<Rightarrow> 'a::len word res" where
  "attr_uint n a = rbind (peek (nla_payload a) 0 n) (\<lambda>b. Inr (le_word b))"

definition attr_u8 :: "nlattr \<Rightarrow> u8 res" where "attr_u8 a = attr_uint 1 a"
definition attr_u16 :: "nlattr \<Rightarrow> u16 res" where "attr_u16 a = attr_uint 2 a"
definition attr_u32 :: "nlattr \<Rightarrow> u32 res" where "attr_u32 a = attr_uint 4 a"
definition attr_u64 :: "nlattr \<Rightarrow> u64 res" where "attr_u64 a = attr_uint 8 a"

definition attr_str :: "nlattr \<Rightarrow> string res" where
  "attr_str a = (if 0 \<in> set (nla_payload a)
                 then Inr (map (\<lambda>b. char_of (unat b)) (takeWhile (\<lambda>b. b \<noteq> 0) (nla_payload a)))
                 else Inl Overread)"

section \<open>Calls\<close>

definition nest_start :: "mnl_calls \<Rightarrow> u16 \<Rightarrow> mnl_calls \<times> nat" where
  "nest_start cs t = (cs @ [NestStart t], length cs)"

definition nest_end :: "mnl_calls \<Rightarrow> nat \<Rightarrow> mnl_calls" where
  "nest_end cs h = cs @ [NestEnd h]"

definition put :: "mnl_calls \<Rightarrow> mnl_call \<Rightarrow> mnl_calls" where
  "put cs c = cs @ [c]"

section \<open>The attributes a list of calls builds\<close>

datatype attr = Leaf u16 bytes | Nest u16 "attr list"

definition str_bytes :: "string \<Rightarrow> bytes" where
  "str_bytes s = map (\<lambda>c. of_nat (code c)) s"

lemma char_byte [simp]: "unat (of_nat (code c) :: u8) = code c"
  using code_less [of c] by (simp add: unat_of_nat take_bit_nat_eq_self)

lemma attr_str_bytes:
  assumes "NUL \<notin> set s"
  shows "attr_str \<lparr>nla_type = t, nla_payload = str_bytes s @ [0]\<rparr> = Inr s"
proof -
  have "(of_nat (code c) :: u8) \<noteq> 0" if "c \<in> set s" for c
  proof
    assume "(of_nat (code c) :: u8) = 0"
    then have "code c = code NUL" using char_byte [of c] by (simp add: code_def)
    then have "c = NUL" by (simp only: code_inject)
    with that assms show False by simp
  qed
  then have "takeWhile (\<lambda>b. b \<noteq> 0) (str_bytes s @ [0]) = str_bytes s"
    by (subst takeWhile_append2) (auto simp: str_bytes_def)
  then show ?thesis by (simp add: attr_str_def) (simp add: str_bytes_def comp_def)
qed

text \<open>
  \<open>run\<close> keeps the open nests on a stack, each with its handle; a \<open>NestEnd\<close> must close
  the innermost one. \<open>None\<close> means that the calls are not well bracketed.
\<close>

fun run :: "(u16 \<times> nat \<times> attr list) list \<Rightarrow> attr list \<Rightarrow> nat \<Rightarrow> mnl_calls \<Rightarrow> attr list option" where
  "run st acc pos [] = (if st = [] then Some acc else None)"
| "run st acc pos (AttrPut t b # cs) = run st (acc @ [Leaf t b]) (Suc pos) cs"
| "run st acc pos (AttrPutU8 t v # cs) = run st (acc @ [Leaf t [v]]) (Suc pos) cs"
| "run st acc pos (AttrPutU16 t v # cs) = run st (acc @ [Leaf t (le_bytes 2 v)]) (Suc pos) cs"
| "run st acc pos (AttrPutU32 t v # cs) = run st (acc @ [Leaf t (le_bytes 4 v)]) (Suc pos) cs"
| "run st acc pos (AttrPutStrz t s # cs) = run st (acc @ [Leaf t (str_bytes s @ [0])]) (Suc pos) cs"
| "run st acc pos (NestStart t # cs) = run ((t, pos, acc) # st) [] (Suc pos) cs"
| "run [] acc pos (NestEnd h # cs) = None"
| "run ((t, h', acc') # st) acc pos (NestEnd h # cs) =
     (if h = h' then run st (acc' @ [Nest t acc]) (Suc pos) cs else None)"

definition msg_attrs :: "mnl_calls \<Rightarrow> attr list option" where
  "msg_attrs cs = run [] [] 0 cs"

text \<open>A block of calls at position \<open>pos\<close> that appends the attributes \<open>ts\<close>.\<close>

definition denotes :: "nat \<Rightarrow> mnl_calls \<Rightarrow> attr list \<Rightarrow> bool" where
  "denotes pos cs ts \<longleftrightarrow>
     (\<forall>st acc rest. run st acc pos (cs @ rest) = run st (acc @ ts) (pos + length cs) rest)"

lemma denotes_Nil [intro, simp]: "denotes pos [] []"
  by (simp add: denotes_def)

lemma denotes_append:
  "denotes pos xs ts \<Longrightarrow> denotes (pos + length xs) ys us \<Longrightarrow> denotes pos (xs @ ys) (ts @ us)"
  by (simp add: denotes_def add.assoc)

lemma denotes_put [intro, simp]:
  "denotes pos [AttrPut t b] [Leaf t b]"
  "denotes pos [AttrPutU8 t v] [Leaf t [v]]"
  "denotes pos [AttrPutU16 t w] [Leaf t (le_bytes 2 w)]"
  "denotes pos [AttrPutU32 t x] [Leaf t (le_bytes 4 x)]"
  "denotes pos [AttrPutStrz t s] [Leaf t (str_bytes s @ [0])]"
  by (simp_all add: denotes_def)

lemma denotes_nest:
  "denotes (Suc pos) cs ts \<Longrightarrow> denotes pos (NestStart t # cs @ [NestEnd pos]) [Nest t ts]"
  by (simp add: denotes_def)

lemma msg_attrs_denotes: "denotes 0 cs ts \<Longrightarrow> msg_attrs cs = Some ts"
proof -
  assume "denotes 0 cs ts"
  then have "run [] [] 0 (cs @ []) = run [] ([] @ ts) (0 + length cs) []" unfolding denotes_def by blast
  then show ?thesis by (simp add: msg_attrs_def)
qed

section \<open>Message sizes\<close>

fun call_len :: "mnl_lib \<Rightarrow> mnl_call \<Rightarrow> nat" where
  "call_len M (AttrPut t b) = put_len M (length b)"
| "call_len M (AttrPutU8 t v) = put_len M 1"
| "call_len M (AttrPutU16 t v) = put_len M 2"
| "call_len M (AttrPutU32 t v) = put_len M 4"
| "call_len M (AttrPutStrz t s) = put_len M (length s + 1)"
| "call_len M (NestStart t) = nest_len M"
| "call_len M (NestEnd h) = 0"

definition calls_len :: "mnl_lib \<Rightarrow> mnl_calls \<Rightarrow> nat" where
  "calls_len M cs = sum_list (map (call_len M) cs)"

definition msg_len :: "mnl_lib \<Rightarrow> nlmsg \<Rightarrow> nat" where
  "msg_len M m = nlmsg_hdr_len M + extra_len M (extra_size (nlmsg_extra m)) + calls_len M (nlmsg_calls m)"

lemma calls_len_simps [simp]:
  "calls_len M [] = 0"
  "calls_len M (xs @ ys) = calls_len M xs + calls_len M ys"
  "calls_len M (c # cs) = call_len M c + calls_len M cs"
  by (simp_all add: calls_len_def)

text \<open>The length of an attribute; its \<open>nla_len\<close> field keeps 16 bits of it.\<close>

fun attr_len :: "mnl_lib \<Rightarrow> attr \<Rightarrow> nat" where
  "attr_len M (Leaf t b) = put_len M (length b)"
| "attr_len M (Nest t ts) = nest_len M + sum_list (map (attr_len M) ts)"

definition nla_len_field :: "mnl_lib \<Rightarrow> attr \<Rightarrow> u16" where
  "nla_len_field M a = of_nat (attr_len M a)"

lemma align4_bounds: "n \<le> align4 n" "align4 n \<le> n + 3"
  by (simp_all add: align4_def)

lemma align4_mono: "m \<le> n \<Longrightarrow> align4 m \<le> align4 n"
  by (simp add: align4_def div_le_mono)

lemma mnl_ok_simps:
  assumes "mnl_ok M"
  shows "nlmsg_hdr_len M = 16" "extra_len M n = align4 n" "put_len M n = 4 + align4 n" "nest_len M = 4"
    "4096 \<le> socket_buffer_size M"
  using assms by (simp_all add: mnl_ok_def)

lemma run_len:
  "run st acc pos cs = Some ts \<Longrightarrow>
   sum_list (map (attr_len M) ts) =
     sum_list (map (attr_len M) acc) + calls_len M cs +
     sum_list (map (\<lambda>(t, h, as). nest_len M + sum_list (map (attr_len M) as)) st)"
  by (induction st acc pos cs rule: run.induct) (auto simp: str_bytes_def split: if_splits)

lemma msg_attrs_len: "msg_attrs cs = Some ts \<Longrightarrow> calls_len M cs = sum_list (map (attr_len M) ts)"
  using run_len [of "[]" "[]" 0 cs ts M] by (simp add: msg_attrs_def)

section \<open>The bytes of attributes\<close>

text \<open>
  The wire format of an attribute tree; nested attributes carry the flag \<open>NLA_F_NESTED\<close>,
  which \<open>mnl_attr_get_type\<close> masks out. \<open>mnl_parse_ok\<close>: libmnl's attribute iterator decodes
  the format, for attributes whose length and type fit their fields.
\<close>

fun enc_attr :: "attr \<Rightarrow> bytes" where
  "enc_attr (Leaf t b) =
     le_bytes 2 (of_nat (4 + length b) :: u16) @ le_bytes 2 t @ b @ replicate (align4 (length b) - length b) 0"
| "enc_attr (Nest t ts) =
     (let body = concat (map enc_attr ts)
      in le_bytes 2 (of_nat (4 + length body) :: u16) @ le_bytes 2 (t OR 0x8000) @ body)"

definition enc_attrs :: "attr list \<Rightarrow> bytes" where
  "enc_attrs ts = concat (map enc_attr ts)"

fun attr_fits :: "attr \<Rightarrow> bool" where
  "attr_fits (Leaf t b) \<longleftrightarrow> t < 0x4000 \<and> 4 + length b < 65536"
| "attr_fits (Nest t ts) \<longleftrightarrow> t < 0x4000 \<and> 4 + length (enc_attrs ts) < 65536 \<and> list_all attr_fits ts"

fun nlattr_of :: "attr \<Rightarrow> nlattr" where
  "nlattr_of (Leaf t b) = \<lparr>nla_type = t, nla_payload = b\<rparr>"
| "nlattr_of (Nest t ts) = \<lparr>nla_type = t, nla_payload = enc_attrs ts\<rparr>"

definition mnl_parse_ok :: "mnl_lib \<Rightarrow> bool" where
  "mnl_parse_ok M \<longleftrightarrow> (\<forall>ts. list_all attr_fits ts \<longrightarrow> parse_attrs M (enc_attrs ts) = map nlattr_of ts)"

lemma enc_attrs_simps: "enc_attrs [] = []" "enc_attrs (a # ts) = enc_attr a @ enc_attrs ts"
  by (simp_all add: enc_attrs_def)

lemma align4_add4: "align4 (4 + n) = 4 + align4 n"
  unfolding align4_def by presburger

lemma align4_align4: "n mod 4 = 0 \<Longrightarrow> align4 n = n"
  by (auto simp: align4_def elim!: dvdE simp: mod_eq_0_iff_dvd)

lemma length_enc_attr_mod: "length (enc_attr a) mod 4 = 0"
proof (induction a)
  case (Leaf t b)
  have "length (enc_attr (Leaf t b)) = 4 + align4 (length b)" using align4_bounds [of "length b"] by simp
  then show ?case by (simp add: align4_def)
next
  case (Nest t ts)
  then have "length (concat (map enc_attr ts)) mod 4 = 0" by (induction ts) (auto simp: mod_eq_0_iff_dvd)
  then show ?case by (simp add: Let_def mod_eq_0_iff_dvd)
qed

lemma nested_type: "(t :: u16) < 0x4000 \<Longrightarrow> (t OR 0x8000) AND 0x3FFF = t" "t < 0x4000 \<Longrightarrow> t AND 0x3FFF = t"
proof -
  assume "t < 0x4000"
  then have "t AND mask 14 = t" by (intro less_mask_eq) simp
  then have *: "t AND 0x3FFF = t" by (simp add: mask_eq_exp_minus_1)
  then show "t AND 0x3FFF = t" .
  have "(0x8000 :: u16) AND 0x3FFF = 0" by simp
  then show "(t OR 0x8000) AND 0x3FFF = t" using * by (simp add: bit.conj_disj_distrib2)
qed

lemma ref_parse_attr:
  assumes "n < 65536" and "4 \<le> n" and "length body = align4 n - 4"
  shows "ref_parse_attrs (le_bytes 2 (of_nat n :: u16) @ le_bytes 2 t @ body @ rest) =
    \<lparr>nla_type = t AND 0x3FFF, nla_payload = take (n - 4) body\<rparr> # ref_parse_attrs rest"
proof -
  let ?bs = "le_bytes 2 (of_nat n :: u16) @ le_bytes 2 t @ body @ rest"
  have n: "unat (of_nat n :: u16) = n" using assms(1) by (simp add: unat_of_nat)
  have b: "n \<le> align4 n" by (rule align4_bounds)
  have len: "length ?bs = align4 n + length rest" using assms b by simp
  have "drop (align4 n) ?bs = rest" using assms b by simp
  moreover have "le_word (take 2 ?bs) = (of_nat n :: u16)" by (simp add: le_word_le_bytes)
  moreover have "le_word (take 2 (drop 2 ?bs)) = t" by (simp add: le_word_le_bytes)
  moreover have "take (n - 4) (drop 4 ?bs) = take (n - 4) body" using assms b by simp
  ultimately show ?thesis
    using assms b len n by (subst ref_parse_attrs.simps) (simp add: Let_def)
qed

lemma ref_parse_enc_attr:
  assumes "attr_fits a"
  shows "ref_parse_attrs (enc_attr a @ rest) = nlattr_of a # ref_parse_attrs rest"
proof (cases a)
  case (Leaf t b)
  with assms ref_parse_attr [of "4 + length b" "b @ replicate (align4 (length b) - length b) 0" t rest]
    align4_bounds [of "length b"] show ?thesis by (simp add: align4_add4 nested_type)
next
  case (Nest t ts)
  let ?body = "concat (map enc_attr ts)"
  have "length ?body mod 4 = 0"
    by (induction ts) (use length_enc_attr_mod in \<open>auto simp: mod_eq_0_iff_dvd\<close>)
  with Nest assms ref_parse_attr [of "4 + length ?body" ?body "t OR 0x8000" rest]
  show ?thesis by (simp add: align4_add4 align4_align4 nested_type Let_def enc_attrs_def)
qed

lemma mnl_parse_ok_ref: "mnl_parse_ok ref_mnl"
proof -
  have "list_all attr_fits ts \<Longrightarrow> ref_parse_attrs (enc_attrs ts) = map nlattr_of ts" for ts
    by (induction ts) (simp_all add: enc_attrs_simps ref_parse_enc_attr, simp add: ref_parse_attrs.simps)
  then show ?thesis by (simp add: mnl_parse_ok_def ref_mnl_def)
qed

end
