(* ===== verification/Os.thy ===== *)
theory Os imports Mnl begin

text \<open>
  The operating system the addon calls. \<open>world\<close> is what the calls change: the netlink
  sockets and file descriptors that are open, the netlink messages sent and the datagrams
  waiting on each socket, the bytes written to and read from each descriptor. \<open>os_env\<close> is
  how the system answers, as functions of the world so far: nothing about the answers is
  assumed unless a lemma says so. An \<open>int\<close> on the left of a sum, or in an option, is the
  errno of a failed call.
\<close>

text \<open>What \<open>mnl_socket_recvfrom\<close> returns: an error, zero, or a datagram.\<close>

datatype recv = RecvErr int | RecvZero | Datagram bytes

record world =
  open_socks :: "nat list"
  sent :: "(nat \<times> nlmsg) list"
  inbox :: "nat \<Rightarrow> recv list"
  open_fds :: "nat list"
  written :: "nat \<Rightarrow> string"
  got :: "nat \<Rightarrow> string"

record os_env =
  str_error :: "int \<Rightarrow> string"
  time_now :: "world \<Rightarrow> u32"
  name_to_index :: "world \<Rightarrow> string \<Rightarrow> u32"
  sock_open :: "world \<Rightarrow> int + nat"
  sock_bind :: "world \<Rightarrow> nat \<Rightarrow> int option"
  sock_portid :: "nat \<Rightarrow> u32"
  kernel :: "world \<Rightarrow> nat \<Rightarrow> nlmsg \<Rightarrow> int + recv list"
  open_dir :: "world \<Rightarrow> string \<Rightarrow> int + string list"
  stat_ok :: "world \<Rightarrow> string \<Rightarrow> bool"
  access_ok :: "world \<Rightarrow> string \<Rightarrow> bool"
  ux_socket :: "world \<Rightarrow> int + nat"
  ux_rcvtimeo :: "world \<Rightarrow> nat \<Rightarrow> int option"
  ux_sndtimeo :: "world \<Rightarrow> nat \<Rightarrow> int option"
  ux_connect :: "world \<Rightarrow> nat \<Rightarrow> string \<Rightarrow> int option"
  ux_write :: "world \<Rightarrow> nat \<Rightarrow> string \<Rightarrow> int + nat"
  ux_shutdown :: "world \<Rightarrow> nat \<Rightarrow> int option"
  ux_read :: "world \<Rightarrow> nat \<Rightarrow> int + string"

definition EPERM :: int where "EPERM = 1"
definition ENOENT :: int where "ENOENT = 2"
definition EIO :: int where "EIO = 5"
definition EACCES :: int where "EACCES = 13"
definition EBUSY :: int where "EBUSY = 16"
definition EEXIST :: int where "EEXIST = 17"
definition ENODEV :: int where "ENODEV = 19"
definition EINVAL :: int where "EINVAL = 22"

lemmas errno_defs = EPERM_def ENOENT_def EIO_def EACCES_def EBUSY_def EEXIST_def ENODEV_def EINVAL_def

text \<open>\<open>helpers::SystemError(err, std::string(what) + std::strerror(err))\<close>.\<close>

definition sys_error :: "os_env \<Rightarrow> string \<Rightarrow> int \<Rightarrow> error" where
  "sys_error E what err = SystemError err (what @ str_error E err)"

section \<open>Netlink sockets\<close>

definition sk_open :: "os_env \<Rightarrow> world \<Rightarrow> (int + nat) \<times> world" where
  "sk_open E w =
     (case sock_open E w of
        Inl e \<Rightarrow> (Inl e, w)
      | Inr h \<Rightarrow> (Inr h, w\<lparr>open_socks := h # open_socks w, inbox := (inbox w)(h := [])\<rparr>))"

definition sk_close :: "nat \<Rightarrow> world \<Rightarrow> world" where
  "sk_close h w = w\<lparr>open_socks := remove1 h (open_socks w)\<rparr>"

definition sk_send :: "os_env \<Rightarrow> nat \<Rightarrow> nlmsg \<Rightarrow> world \<Rightarrow> int option \<times> world" where
  "sk_send E h m w =
     (case kernel E w h m of
        Inl e \<Rightarrow> (Some e, w)
      | Inr evs \<Rightarrow> (None, w\<lparr>sent := sent w @ [(h, m)], inbox := (inbox w)(h := inbox w h @ evs)\<rparr>))"

text \<open>\<open>None\<close>: nothing is waiting and nothing will come, the call does not return.\<close>

definition sk_recv :: "nat \<Rightarrow> world \<Rightarrow> recv option \<times> world" where
  "sk_recv h w =
     (case inbox w h of
        [] \<Rightarrow> (None, w)
      | ev # q \<Rightarrow> (Some ev, w\<lparr>inbox := (inbox w)(h := q)\<rparr>))"

lemma sk_frame [simp]:
  "open_socks (sk_close h w) = remove1 h (open_socks w)"
  "sent (sk_close h w) = sent w"
  "open_socks (snd (sk_send E h m w)) = open_socks w"
  "open_socks (snd (sk_recv h w)) = open_socks w"
  "sent (snd (sk_recv h w)) = sent w"
  by (simp_all add: sk_close_def sk_send_def sk_recv_def split: sum.splits list.splits)

section \<open>Netlink message headers\<close>

definition NLMSG_ERROR :: u16 where "NLMSG_ERROR = 2"
definition NLMSG_DONE :: u16 where "NLMSG_DONE = 3"
definition NLM_F_MULTI :: u16 where "NLM_F_MULTI = 2"

text \<open>\<open>err->error\<close>, the leading 32-bit signed integer of an error message's payload.\<close>

definition nlmsgerr_code :: "bytes \<Rightarrow> int res" where
  "nlmsgerr_code payload = rbind (peek payload 0 4) (\<lambda>b. Inr (sint (le_word b :: 32 word)))"

text \<open>
  \<open>-err->error\<close>: the errno of an error message. (\<open>INT_MIN\<close>, whose negation overflows, is
  no errno and not treated specially here.)
\<close>

definition enc_reply :: "u16 \<Rightarrow> u16 \<Rightarrow> u32 \<Rightarrow> u32 \<Rightarrow> bytes \<Rightarrow> bytes" where
  "enc_reply t f sq pid payload =
     le_bytes 4 (of_nat (16 + length payload) :: u32) @ le_bytes 2 t @ le_bytes 2 f @
     le_bytes 4 sq @ le_bytes 4 pid @ payload @ replicate (align4 (length payload) - length payload) 0"

definition error_payload :: "int \<Rightarrow> bytes" where
  "error_payload e = le_bytes 4 (word_of_int e :: 32 word)"

text \<open>
  A quiet environment for examples: every call succeeds with handle or descriptor 3, the
  kernel acknowledges every message with a single zero error code.
\<close>

definition ack_env :: os_env where
  "ack_env = \<lparr>str_error = (\<lambda>_. ''error''), time_now = (\<lambda>_. 7), name_to_index = (\<lambda>_ _. 5),
     sock_open = (\<lambda>_. Inr 3), sock_bind = (\<lambda>_ _. None), sock_portid = (\<lambda>_. 42),
     kernel = (\<lambda>_ _ m. Inr [Datagram (enc_reply NLMSG_ERROR 0 (nlmsg_seq m) 42 (error_payload 0))]),
     open_dir = (\<lambda>_ _. Inr []), stat_ok = (\<lambda>_ _. False), access_ok = (\<lambda>_ _. False),
     ux_socket = (\<lambda>_. Inr 3), ux_rcvtimeo = (\<lambda>_ _. None), ux_sndtimeo = (\<lambda>_ _. None),
     ux_connect = (\<lambda>_ _ _. None), ux_write = (\<lambda>_ _ s. Inr (length s)), ux_shutdown = (\<lambda>_ _. None),
     ux_read = (\<lambda>w fd. if got w fd = [] then Inr (''errno=0'' @ [LF, LF]) else Inr [])\<rparr>"

definition idle_world :: world where
  "idle_world = \<lparr>open_socks = [], sent = [], inbox = (\<lambda>_. []), open_fds = [],
     written = (\<lambda>_. []), got = (\<lambda>_. [])\<rparr>"

end
