(* ===== verification/WgUapi.thy ===== *)
theory WgUapi imports Prelude begin

text \<open>
  The constants of \<open>src/src/netlink/wireguard_uapi.h\<close>: generic-netlink commands, flags
  and attribute numbers, as the 16-bit attribute types and 32-bit flag words they are used as.
\<close>

definition WG_GENL_VERSION :: u8 where "WG_GENL_VERSION = 1"
definition WG_GENL_NAME :: string where "WG_GENL_NAME = ''wireguard''"
definition WG_CMD_GET_DEVICE :: u8 where "WG_CMD_GET_DEVICE = 0"
definition WG_CMD_SET_DEVICE :: u8 where "WG_CMD_SET_DEVICE = 1"

definition WGDEVICE_F_REPLACE_PEERS :: u32 where "WGDEVICE_F_REPLACE_PEERS = 1"

definition WGDEVICE_A_IFINDEX :: u16 where "WGDEVICE_A_IFINDEX = 1"
definition WGDEVICE_A_IFNAME :: u16 where "WGDEVICE_A_IFNAME = 2"
definition WGDEVICE_A_PRIVATE_KEY :: u16 where "WGDEVICE_A_PRIVATE_KEY = 3"
definition WGDEVICE_A_PUBLIC_KEY :: u16 where "WGDEVICE_A_PUBLIC_KEY = 4"
definition WGDEVICE_A_FLAGS :: u16 where "WGDEVICE_A_FLAGS = 5"
definition WGDEVICE_A_LISTEN_PORT :: u16 where "WGDEVICE_A_LISTEN_PORT = 6"
definition WGDEVICE_A_FWMARK :: u16 where "WGDEVICE_A_FWMARK = 7"
definition WGDEVICE_A_PEERS :: u16 where "WGDEVICE_A_PEERS = 8"

definition WGPEER_F_REMOVE_ME :: u32 where "WGPEER_F_REMOVE_ME = 1"
definition WGPEER_F_REPLACE_ALLOWEDIPS :: u32 where "WGPEER_F_REPLACE_ALLOWEDIPS = 2"
definition WGPEER_F_UPDATE_ONLY :: u32 where "WGPEER_F_UPDATE_ONLY = 4"

definition WGPEER_A_PUBLIC_KEY :: u16 where "WGPEER_A_PUBLIC_KEY = 1"
definition WGPEER_A_PRESHARED_KEY :: u16 where "WGPEER_A_PRESHARED_KEY = 2"
definition WGPEER_A_FLAGS :: u16 where "WGPEER_A_FLAGS = 3"
definition WGPEER_A_ENDPOINT :: u16 where "WGPEER_A_ENDPOINT = 4"
definition WGPEER_A_PERSISTENT_KEEPALIVE_INTERVAL :: u16 where
  "WGPEER_A_PERSISTENT_KEEPALIVE_INTERVAL = 5"
definition WGPEER_A_LAST_HANDSHAKE_TIME :: u16 where "WGPEER_A_LAST_HANDSHAKE_TIME = 6"
definition WGPEER_A_RX_BYTES :: u16 where "WGPEER_A_RX_BYTES = 7"
definition WGPEER_A_TX_BYTES :: u16 where "WGPEER_A_TX_BYTES = 8"
definition WGPEER_A_ALLOWEDIPS :: u16 where "WGPEER_A_ALLOWEDIPS = 9"
definition WGPEER_A_PROTOCOL_VERSION :: u16 where "WGPEER_A_PROTOCOL_VERSION = 10"

definition WGALLOWEDIP_A_FAMILY :: u16 where "WGALLOWEDIP_A_FAMILY = 1"
definition WGALLOWEDIP_A_IPADDR :: u16 where "WGALLOWEDIP_A_IPADDR = 2"
definition WGALLOWEDIP_A_CIDR_MASK :: u16 where "WGALLOWEDIP_A_CIDR_MASK = 3"

lemmas wgdevice_attr_defs =
  WGDEVICE_A_IFINDEX_def WGDEVICE_A_IFNAME_def WGDEVICE_A_PRIVATE_KEY_def
  WGDEVICE_A_PUBLIC_KEY_def WGDEVICE_A_FLAGS_def WGDEVICE_A_LISTEN_PORT_def
  WGDEVICE_A_FWMARK_def WGDEVICE_A_PEERS_def

lemmas wgpeer_attr_defs =
  WGPEER_A_PUBLIC_KEY_def WGPEER_A_PRESHARED_KEY_def WGPEER_A_FLAGS_def WGPEER_A_ENDPOINT_def
  WGPEER_A_PERSISTENT_KEEPALIVE_INTERVAL_def WGPEER_A_LAST_HANDSHAKE_TIME_def
  WGPEER_A_RX_BYTES_def WGPEER_A_TX_BYTES_def WGPEER_A_ALLOWEDIPS_def
  WGPEER_A_PROTOCOL_VERSION_def

lemmas wgallowedip_attr_defs =
  WGALLOWEDIP_A_FAMILY_def WGALLOWEDIP_A_IPADDR_def WGALLOWEDIP_A_CIDR_MASK_def

lemmas wgpeer_flag_defs =
  WGPEER_F_REMOVE_ME_def WGPEER_F_REPLACE_ALLOWEDIPS_def WGPEER_F_UPDATE_ONLY_def

end
