(* ===== verification/WGTypes.thy ===== *)
theory WGTypes imports Prelude begin

text \<open>
  The data of \<open>src/src/WireGuardTypes.h\<close>, field by field. A \<open>wg::Key\<close> is a
  \<open>std::array\<close> of 32 bytes: here a byte list, and \<open>is_key\<close> says that it has 32 bytes.
  \<open>std::optional\<close> is \<open>option\<close>; default member initialisers are the \<open>default_\<close>
  constants. \<open>int64_t\<close> is a 64-bit word read with \<open>sint\<close>.
\<close>

definition kKeyLen :: nat where
  "kKeyLen = 32"

type_synonym key = bytes

definition is_key :: "key \<Rightarrow> bool" where
  "is_key k \<longleftrightarrow> length k = kKeyLen"

definition zero_key :: key where
  "zero_key = replicate kKeyLen 0"

text \<open>A C function filling \<open>key.data()\<close> overwrites the front of the 32-byte array.\<close>

definition key_write :: "key \<Rightarrow> bytes \<Rightarrow> key" where
  "key_write key bs = take kKeyLen (bs @ drop (length bs) key)"

lemma is_key_write [simp]: "is_key key \<Longrightarrow> is_key (key_write key bs)"
  by (simp add: is_key_def key_write_def)

lemma key_write_whole [simp]: "is_key bs \<Longrightarrow> key_write key bs = bs"
  by (simp add: is_key_def key_write_def)

lemma is_key_zero [simp]: "is_key zero_key"
  by (simp add: is_key_def zero_key_def)

definition AF_INET :: nat where "AF_INET = 2"
definition AF_INET6 :: nat where "AF_INET6 = 10"

record allowed_ip =
  ip :: string
  family :: u8
  cidr :: u8

record peer =
  publicKey :: key
  presharedKey :: "key option"
  endpoint :: "string option"
  persistentKeepaliveInterval :: u16
  lastHandshakeTimeSec :: u64
  receiveBytes :: u64
  transmitBytes :: u64
  allowedIPs :: "allowed_ip list"
  protocolVersion :: u32

definition default_peer :: peer where
  "default_peer =
     \<lparr>publicKey = zero_key, presharedKey = None, endpoint = None,
      persistentKeepaliveInterval = 0, lastHandshakeTimeSec = 0, receiveBytes = 0,
      transmitBytes = 0, allowedIPs = [], protocolVersion = 0\<rparr>"

record device =
  dev_name :: string
  userspace :: bool
  privateKey :: "key option"
  dev_publicKey :: "key option"
  listenPort :: u16
  firewallMark :: u32
  peers :: "peer list"

definition default_device :: device where
  "default_device =
     \<lparr>dev_name = [], userspace = False, privateKey = None, dev_publicKey = None,
      listenPort = 0, firewallMark = 0, peers = []\<rparr>"

record peer_config =
  pc_publicKey :: key
  pc_remove :: bool
  pc_updateOnly :: bool
  pc_presharedKey :: "key option"
  pc_endpoint :: "string option"
  pc_persistentKeepaliveInterval :: "u16 option"
  pc_replaceAllowedIPs :: bool
  pc_allowedIPs :: "allowed_ip list"

definition default_peer_config :: peer_config where
  "default_peer_config =
     \<lparr>pc_publicKey = zero_key, pc_remove = False, pc_updateOnly = False,
      pc_presharedKey = None, pc_endpoint = None, pc_persistentKeepaliveInterval = None,
      pc_replaceAllowedIPs = False, pc_allowedIPs = []\<rparr>"

record config =
  cfg_privateKey :: "key option"
  cfg_listenPort :: "u16 option"
  cfg_firewallMark :: "u32 option"
  cfg_replacePeers :: bool
  cfg_peers :: "peer_config list"

definition default_config :: config where
  "default_config =
     \<lparr>cfg_privateKey = None, cfg_listenPort = None, cfg_firewallMark = None,
      cfg_replacePeers = False, cfg_peers = []\<rparr>"

section \<open>Well-formedness: every key field holds 32 bytes\<close>

definition wf_peer :: "peer \<Rightarrow> bool" where
  "wf_peer p \<longleftrightarrow> is_key (publicKey p) \<and> pred_option is_key (presharedKey p)"

definition wf_device :: "device \<Rightarrow> bool" where
  "wf_device d \<longleftrightarrow> pred_option is_key (privateKey d) \<and> pred_option is_key (dev_publicKey d)
     \<and> list_all wf_peer (peers d)"

definition wf_peer_config :: "peer_config \<Rightarrow> bool" where
  "wf_peer_config p \<longleftrightarrow> is_key (pc_publicKey p) \<and> pred_option is_key (pc_presharedKey p)"

definition wf_config :: "config \<Rightarrow> bool" where
  "wf_config c \<longleftrightarrow> pred_option is_key (cfg_privateKey c) \<and> list_all wf_peer_config (cfg_peers c)"

lemma wf_default_peer [simp]: "wf_peer default_peer"
  by (simp add: wf_peer_def default_peer_def)

lemma wf_default_device [simp]: "wf_device default_device"
  by (simp add: wf_device_def default_device_def)

end
