(* ===== verification/Key.thy ===== *)
theory Key imports WGTypes CxxString begin

unbundle bit_operations_syntax

text \<open>
  \<open>src/src/crypto/Key.cpp\<close>: key generation and clamping, public keys, the hex encoding, and
  what an encoding of keys promises (base64 is in \<open>Base64\<close>). OpenSSL is a parameter: \<open>RAND_bytes\<close> is a function from the length
  to its return code and the bytes it wrote, and an X25519 key is what the two
  \<open>EVP_PKEY\<close> calls return.
\<close>

section \<open>Generating keys\<close>

definition ClampScalar :: "key \<Rightarrow> key" where
  "ClampScalar key =
     (let k0 = key[0 := (key ! 0) AND 248];
          k1 = k0[31 := (k0 ! 31) AND 127]
      in k1[31 := (k1 ! 31) OR 64])"

definition GeneratePrivateKey :: "(nat \<Rightarrow> int \<times> bytes) \<Rightarrow> key res" where
  "GeneratePrivateKey RAND_bytes =
     (case RAND_bytes kKeyLen of
        (rc, key) \<Rightarrow>
          if rc \<noteq> 1 then Inl (RuntimeError ''RAND_bytes failed'') else Inr (ClampScalar (key_write zero_key key)))"

definition GeneratePresharedKey :: "(nat \<Rightarrow> int \<times> bytes) \<Rightarrow> key res" where
  "GeneratePresharedKey RAND_bytes =
     (case RAND_bytes kKeyLen of
        (rc, key) \<Rightarrow>
          if rc \<noteq> 1 then Inl (RuntimeError ''RAND_bytes failed'')
          else Inr (key_write zero_key key))"

text \<open>
  \<open>EVP_PKEY_new_raw_private_key\<close> returns a key handle or null;
  \<open>EVP_PKEY_get_raw_public_key\<close> its return code, the bytes written and the length.
\<close>

record 'p openssl =
  new_raw_private_key :: "bytes \<Rightarrow> 'p option"
  get_raw_public_key :: "'p \<Rightarrow> int \<times> bytes \<times> nat"

definition PublicKeyFromPrivate :: "'p openssl \<Rightarrow> key \<Rightarrow> key res" where
  "PublicKeyFromPrivate ssl priv =
     (case new_raw_private_key ssl priv of
        None \<Rightarrow> Inl (RuntimeError ''EVP_PKEY_new_raw_private_key failed'')
      | Some pkey \<Rightarrow>
          (case get_raw_public_key ssl pkey of
             (ok, pub, pubLen) \<Rightarrow>
               if ok \<noteq> 1 \<or> pubLen \<noteq> kKeyLen
               then Inl (RuntimeError ''EVP_PKEY_get_raw_public_key failed'')
               else Inr (key_write zero_key pub)))"

definition IsZeroKey :: "key \<Rightarrow> bool" where
  "IsZeroKey key = list_all (\<lambda>b. b = 0) key"

section \<open>Hex\<close>

definition kHexChars :: string where
  "kHexChars = ''0123456789abcdef''"

definition HexDecodeChar :: "char \<Rightarrow> int" where
  "HexDecodeChar c =
     (if code CHR ''0'' \<le> code c \<and> code c \<le> code CHR ''9'' then int (code c) - int (code CHR ''0'')
      else if code CHR ''a'' \<le> code c \<and> code c \<le> code CHR ''f'' then int (code c) - int (code CHR ''a'') + 10
      else if code CHR ''A'' \<le> code c \<and> code c \<le> code CHR ''F'' then int (code c) - int (code CHR ''A'') + 10
      else -1)"

fun KeyToHex :: "bytes \<Rightarrow> string" where
  "KeyToHex [] = []"
| "KeyToHex (b # rest) =
     [kHexChars ! unat (drop_bit 4 b), kHexChars ! unat (b AND 0x0F)] @ KeyToHex rest"

definition hex_error :: "string \<Rightarrow> error" where
  "hex_error hex = InvalidArgument (''invalid hex-encoded WireGuard key: '' @ hex)"

definition hex_step :: "string \<Rightarrow> key \<Rightarrow> nat \<Rightarrow> key res" where
  "hex_step hex key i =
     (let hi = HexDecodeChar (hex ! (i * 2));
          lo = HexDecodeChar (hex ! (i * 2 + 1))
      in if hi < 0 \<or> lo < 0 then Inl (hex_error hex)
         else Inr (key[i := word_of_int (push_bit 4 hi OR lo)]))"

definition KeyFromHex :: "string \<Rightarrow> key res" where
  "KeyFromHex hex =
     (if length hex \<noteq> kKeyLen * 2 then Inl (hex_error hex)
      else rfold (hex_step hex) zero_key [0..<kKeyLen])"

section \<open>Hex: the decoder inverts the encoder\<close>

lemma nat_less_8: "(i::nat) < 8 \<Longrightarrow> i = 0 \<or> i = 1 \<or> i = 2 \<or> i = 3 \<or> i = 4 \<or> i = 5 \<or> i = 6 \<or> i = 7"
  by arith

lemma bit_u8_high: "8 \<le> i \<Longrightarrow> \<not> bit (w :: u8) i"
  by (auto dest: bit_imp_le_length)

lemma map_HexDecodeChar: "map HexDecodeChar kHexChars = [0..15]"
  by (simp add: kHexChars_def HexDecodeChar_def code_def upto.simps)

lemma HexDecodeChar_nth: "i < 16 \<Longrightarrow> HexDecodeChar (kHexChars ! i) = int i"
proof -
  have "length kHexChars = 16" by (simp add: kHexChars_def)
  moreover have "map HexDecodeChar kHexChars ! i = [0..15] ! i" by (simp only: map_HexDecodeChar)
  ultimately show "i < 16 \<Longrightarrow> ?thesis" by (simp add: nth_upto)
qed

lemma length_KeyToHex [simp]: "length (KeyToHex k) = 2 * length k"
  by (induction k) auto

lemma KeyToHex_nth:
  "i < length k \<Longrightarrow> KeyToHex k ! (i * 2) = kHexChars ! unat (drop_bit 4 (k ! i)) \<and>
     KeyToHex k ! (i * 2 + 1) = kHexChars ! unat ((k ! i) AND 0x0F)"
proof (induction k arbitrary: i)
  case (Cons b k)
  then show ?case by (cases i) auto
qed simp

lemma nibble_less: "unat (drop_bit 4 (b :: u8)) < 16" "unat (b AND 0x0F :: u8) < 16"
proof -
  have "unat b < 2 ^ LENGTH(8)" by (rule unsigned_less)
  then have "unat b < 256" by simp
  then show "unat (drop_bit 4 b) < 16" 
    by (simp only: unat_drop_bit_eq) (simp add: drop_bit_eq_div)
  have "unat (b AND 0x0F) \<le> unat (0x0F :: u8)"
    by (intro word_le_nat_alt [THEN iffD1] word_and_le1)
  then show "unat (b AND 0x0F) < 16" by simp
qed

lemma nibble_mask: "(0x0F :: u8) = mask 4"
  by (simp add: mask_eq_exp_minus_1)

lemma nibble_join: "word_of_int (push_bit 4 (uint (drop_bit 4 b)) OR uint (b AND 0x0F)) = (b :: u8)"
  by (rule bit_word_eqI, drule nat_less_8 [OF less_le_trans], simp, elim disjE;
     simp add: nibble_mask bit_simps)

definition hex_byte :: "string \<Rightarrow> nat \<Rightarrow> u8" where
  "hex_byte hex i = word_of_int (push_bit 4 (HexDecodeChar (hex ! (i * 2))) OR HexDecodeChar (hex ! (i * 2 + 1)))"

definition hex_valid_at :: "string \<Rightarrow> nat \<Rightarrow> bool" where
  "hex_valid_at hex i \<longleftrightarrow> 0 \<le> HexDecodeChar (hex ! (i * 2)) \<and> 0 \<le> HexDecodeChar (hex ! (i * 2 + 1))"

lemma hex_step_eq:
  "hex_step h key i = (if hex_valid_at h i then Inr (key[i := hex_byte h i]) else Inl (hex_error h))"
  by (auto simp: hex_step_def hex_valid_at_def hex_byte_def Let_def)

lemma hex_loop:
  "n \<le> length key \<Longrightarrow> (\<And>i. i < n \<Longrightarrow> hex_valid_at h i) \<Longrightarrow>
   rfold (hex_step h) key [0..<n] = Inr (map (hex_byte h) [0..<n] @ drop n key)"
proof (induction n)
  case (Suc n)
  have "(map (hex_byte h) [0..<n] @ drop n key)[n := hex_byte h n] =
      map (hex_byte h) [0..<Suc n] @ drop (Suc n) key"
    using Suc.prems(1) by (simp add: list_update_append flip: Cons_nth_drop_Suc)
  then show ?case using Suc by (simp add: rfold_append hex_step_eq)
qed simp

lemma hex_loop_valid: "rfold (hex_step h) key is = Inr t \<Longrightarrow> i \<in> set is \<Longrightarrow> hex_valid_at h i"
proof (induction "is" arbitrary: key)
  case (Cons j js)
  then show ?case by (auto simp: hex_step_eq split: if_splits)
qed simp

lemma KeyFromHex_iff:
  "KeyFromHex h = Inr k \<longleftrightarrow> length h = 64 \<and> (\<forall>i<32. hex_valid_at h i) \<and> k = map (hex_byte h) [0..<32]"
proof -
  have "rfold (hex_step h) zero_key [0..<32] = Inr k \<longleftrightarrow>
      (\<forall>i<32. hex_valid_at h i) \<and> k = map (hex_byte h) [0..<32]"
    using hex_loop [of 32 zero_key h] hex_loop_valid [of h zero_key "[0..<32]"]
    by (auto simp: zero_key_def kKeyLen_def)
  then show ?thesis by (auto simp: KeyFromHex_def kKeyLen_def)
qed

lemma KeyFromHex_is_key: "KeyFromHex h = Inr k \<Longrightarrow> is_key k"
  by (auto simp: KeyFromHex_iff is_key_def kKeyLen_def)

lemma hex_at_KeyToHex:
  assumes "i < length k"
  shows "hex_valid_at (KeyToHex k) i" "hex_byte (KeyToHex k) i = k ! i"
  using KeyToHex_nth [OF assms] nibble_join [of "k ! i"]
  by (simp_all add: hex_valid_at_def hex_byte_def HexDecodeChar_nth nibble_less)

lemma KeyFromHex_KeyToHex: "is_key k \<Longrightarrow> KeyFromHex (KeyToHex k) = Inr k"
proof -
  assume "is_key k"
  then have len: "length k = 32" by (simp add: is_key_def kKeyLen_def)
  have "map (hex_byte (KeyToHex k)) [0..<32] = k"
    by (rule nth_equalityI) (simp_all add: len hex_at_KeyToHex)
  then show ?thesis by (simp add: KeyFromHex_iff len hex_at_KeyToHex)
qed

text \<open>The decoder ignores case, and is otherwise exactly the inverse of the encoder.\<close>

definition tolower :: "char \<Rightarrow> char" where
  "tolower c = (if 65 \<le> code c \<and> code c \<le> 90 then char_of (code c + 32) else c)"

lemma kHexChars_digit: "i < 10 \<Longrightarrow> kHexChars ! i = char_of (48 + i)"
proof -
  assume "i < 10"
  then have "i = 0 \<or> i = 1 \<or> i = 2 \<or> i = 3 \<or> i = 4 \<or> i = 5 \<or> i = 6 \<or> i = 7 \<or> i = 8 \<or> i = 9"
    by arith
  then show ?thesis by (elim disjE) (simp_all add: kHexChars_def char_of_def bit_0)
qed

lemma kHexChars_letter: "i < 6 \<Longrightarrow> kHexChars ! (10 + i) = char_of (97 + i)"
proof -
  assume "i < 6"
  then have "i = 0 \<or> i = 1 \<or> i = 2 \<or> i = 3 \<or> i = 4 \<or> i = 5" by arith
  then show ?thesis by (elim disjE) (simp_all add: kHexChars_def char_of_def bit_0)
qed

lemma hex_digit_lower:
  assumes "0 \<le> HexDecodeChar c"
  shows "HexDecodeChar c < 16 \<and> kHexChars ! nat (HexDecodeChar c) = tolower c"
proof -
  have codes: "code (CHR ''0'') = 48" "code (CHR ''9'') = 57" "code (CHR ''a'') = 97"
    "code (CHR ''f'') = 102" "code (CHR ''A'') = 65" "code (CHR ''F'') = 70" by (simp_all add: code_def)
  consider (digit) "48 \<le> code c" "code c \<le> 57" | (lower) "97 \<le> code c" "code c \<le> 102"
    | (upper) "65 \<le> code c" "code c \<le> 70"
    using assms by (auto simp: HexDecodeChar_def codes split: if_splits)
  then show ?thesis
  proof cases
    case digit
    then have "nat (HexDecodeChar c) = code c - 48" by (simp add: HexDecodeChar_def codes)
    then show ?thesis using digit kHexChars_digit [of "code c - 48"]
      by (simp add: HexDecodeChar_def codes tolower_def)
  next
    case lower
    then have "nat (HexDecodeChar c) = 10 + (code c - 97)" by (simp add: HexDecodeChar_def codes)
    then show ?thesis using lower kHexChars_letter [of "code c - 97"]
      by (simp add: HexDecodeChar_def codes tolower_def)
  next
    case upper
    then have "nat (HexDecodeChar c) = 10 + (code c - 65)" by (simp add: HexDecodeChar_def codes)
    then show ?thesis using upper kHexChars_letter [of "code c - 65"]
      by (simp add: HexDecodeChar_def codes tolower_def)
  qed
qed

lemma nibble_split:
  assumes "0 \<le> hi" "hi < 16" "0 \<le> lo" "lo < 16"
  shows "unat (drop_bit 4 (word_of_int (push_bit 4 hi OR lo) :: u8)) = nat hi"
    and "unat (word_of_int (push_bit 4 hi OR lo) AND 0x0F :: u8) = nat lo"
proof -
  have hi: "hi = uint (word_of_int hi :: u8)" and lo: "lo = uint (word_of_int lo :: u8)"
    using assms by (simp_all add: uint_word_of_int)
  have bits: "\<not> bit hi i" "\<not> bit lo i" if "4 \<le> i" for i
  proof -
    have "(2::int) ^ 4 \<le> 2 ^ i" using that by (intro power_increasing) auto
    then have "hi < 2 ^ i" "lo < 2 ^ i" using assms by auto
    then show "\<not> bit hi i" "\<not> bit lo i" using assms by (auto simp: bit_iff_odd)
  qed
  have low: "bit hi i \<Longrightarrow> i < 4" "bit lo i \<Longrightarrow> i < 4" for i
    using bits [of i] by (auto simp flip: not_le)
  have "drop_bit 4 (word_of_int (push_bit 4 hi OR lo) :: u8) = word_of_int hi"
    by (rule bit_word_eqI) (auto simp: bit_simps bits dest: low)
  moreover have "word_of_int (push_bit 4 hi OR lo) AND 0x0F = (word_of_int lo :: u8)"
    by (rule bit_word_eqI) (auto simp: bit_simps bits nibble_mask dest: low)
  moreover have "unat (word_of_int hi :: u8) = nat hi" "unat (word_of_int lo :: u8) = nat lo"
    using hi lo by (metis nat_uint_eq)+
  ultimately show "unat (drop_bit 4 (word_of_int (push_bit 4 hi OR lo) :: u8)) = nat hi"
    and "unat (word_of_int (push_bit 4 hi OR lo) AND 0x0F :: u8) = nat lo" by simp_all
qed

lemma KeyToHex_KeyFromHex:
  assumes "KeyFromHex h = Inr k"
  shows "KeyToHex k = map tolower h"
proof (rule nth_equalityI)
  from assms have len: "length h = 64" and val: "\<And>i. i < 32 \<Longrightarrow> hex_valid_at h i"
    and k: "k = map (hex_byte h) [0..<32]" by (auto simp: KeyFromHex_iff)
  then show "length (KeyToHex k) = length (map tolower h)" by simp
  fix j assume "j < length (KeyToHex k)"
  then have j: "j < 64" by (simp add: k)
  define i where "i = j div 2"
  have i: "i < 32" using j by (simp add: i_def)
  have v: "0 \<le> HexDecodeChar (h ! (i * 2))" "0 \<le> HexDecodeChar (h ! (i * 2 + 1))"
    using val [OF i] by (simp_all add: hex_valid_at_def)
  note hi = hex_digit_lower [OF v(1)] and lo = hex_digit_lower [OF v(2)]
  have pair: "KeyToHex k ! (i * 2) = tolower (h ! (i * 2)) \<and> KeyToHex k ! (i * 2 + 1) = tolower (h ! (i * 2 + 1))"
    using KeyToHex_nth [of i k] i hi lo nibble_split [OF v(1) _ v(2)]
    by (simp add: k hex_byte_def)
  have "j = i * 2 \<or> j = i * 2 + 1" unfolding i_def by arith
  then show "KeyToHex k ! j = map tolower h ! j" using pair j len by auto
qed

lemma set_KeyToHex: "set (KeyToHex k) \<subseteq> set kHexChars"
proof (induction k)
  case (Cons b k)
  have "length kHexChars = 16" by (simp add: kHexChars_def)
  then show ?case using Cons nibble_less [of b] by (auto intro!: nth_mem)
qed simp

section \<open>A key codec\<close>

text \<open>
  What the rest of the program relies on of a textual key encoding: decoding undoes
  encoding, decoding only yields 32-byte keys, and an encoded key contains neither a line
  break nor a NUL. Both encodings of \<open>Key.cpp\<close> provide it.
\<close>

locale key_codec =
  fixes enc :: "key \<Rightarrow> string" and dec :: "string \<Rightarrow> key res"
  assumes dec_enc: "is_key k \<Longrightarrow> dec (enc k) = Inr k"
    and dec_is_key: "dec s = Inr k \<Longrightarrow> is_key k"
    and enc_line: "LF \<notin> set (enc k)"
    and enc_NUL: "NUL \<notin> set (enc k)"
begin

lemma enc_inject: "is_key k \<Longrightarrow> is_key l \<Longrightarrow> enc k = enc l \<longleftrightarrow> k = l"
  using dec_enc by (metis sum.inject(2))

lemma dec_normalises: "dec s = Inr k \<Longrightarrow> dec (enc k) = Inr k"
  by (rule dec_enc) (rule dec_is_key)

lemma enc_c_str: "c_str (enc k) = enc k"
  by (rule c_str_id) (rule enc_NUL)

end

lemma kHexChars_safe: "LF \<notin> set kHexChars" "NUL \<notin> set kHexChars" "CHR ''='' \<notin> set kHexChars"
  by (simp_all add: kHexChars_def)

interpretation hex: key_codec KeyToHex KeyFromHex
  using set_KeyToHex kHexChars_safe
  by unfold_locales (auto simp: KeyFromHex_KeyToHex dest: KeyFromHex_is_key)

section \<open>Clamping\<close>

lemma ClampScalar_nth:
  assumes "is_key k"
  shows "ClampScalar k ! 0 = k ! 0 AND 248" "ClampScalar k ! 31 = (k ! 31 AND 127) OR 64"
    "i \<noteq> 0 \<Longrightarrow> i \<noteq> 31 \<Longrightarrow> ClampScalar k ! i = k ! i"
  using assms by (simp_all add: ClampScalar_def is_key_def kKeyLen_def Let_def)

lemma is_key_ClampScalar [simp]: "is_key (ClampScalar k) \<longleftrightarrow> is_key k"
  by (simp add: ClampScalar_def is_key_def Let_def)

lemma IsZeroKey_iff: "is_key k \<Longrightarrow> IsZeroKey k \<longleftrightarrow> k = zero_key"
  by (auto simp: IsZeroKey_def is_key_def zero_key_def list_all_iff replicate_eqI)

lemma GeneratePrivateKey_Inr:
  "GeneratePrivateKey rng = Inr k \<longleftrightarrow>
     fst (rng kKeyLen) = 1 \<and> k = ClampScalar (key_write zero_key (snd (rng kKeyLen)))"
  by (auto simp: GeneratePrivateKey_def split: prod.splits if_splits)

lemma PublicKeyFromPrivate_is_key: "PublicKeyFromPrivate ssl priv = Inr pub \<Longrightarrow> is_key pub"
  by (auto simp: PublicKeyFromPrivate_def split: option.splits prod.splits if_splits)

section \<open>Properties\<close>

text \<open>
  C34: a key written in hex is read back as the same key; whatever text the hex decoder accepts
  is the encoding of the key it returns, up to the case of its letters.
\<close>

theorem hex_round_trip:
  "(is_key k \<longrightarrow> KeyFromHex (KeyToHex k) = Inr k) \<and>
   (KeyFromHex h = Inr k' \<longrightarrow> is_key k' \<and> KeyToHex k' = map tolower h)"
  using hex.dec_enc hex.dec_is_key KeyToHex_KeyFromHex by blast

theorem hex_round_trip_witness:
  "KeyFromHex (KeyToHex zero_key) = Inr zero_key \<and> KeyToHex zero_key = map tolower (KeyToHex zero_key)"
  using hex_round_trip [of zero_key "KeyToHex zero_key" zero_key] by simp

lemma GeneratePrivateKey_clamped:
  assumes "GeneratePrivateKey rng = Inr k"
  shows "is_key k \<and> (k ! 0) AND 7 = 0 \<and> \<not> bit (k ! 31) 7 \<and> bit (k ! 31) 6"
proof -
  let ?r = "key_write zero_key (snd (rng kKeyLen))"
  have k: "k = ClampScalar ?r" "is_key ?r" using assms by (simp_all add: GeneratePrivateKey_Inr)
  have "(?r ! 0 AND 248) AND 7 = ?r ! 0 AND (248 AND 7)" by (simp only: and.assoc)
  then have "(k ! 0) AND 7 = 0" using k by (simp add: ClampScalar_nth)
  moreover have "\<not> bit (k ! 31) 7 \<and> bit (k ! 31) 6"
    using k by (simp add: ClampScalar_nth bit_simps)
  ultimately show ?thesis using k by simp
qed

text \<open>
  A generated private key is a clamped Curve25519 scalar: 32 bytes, the three low bits of
  the first byte clear, the top bit of the last byte clear and the next one set. It fails only
  when the random generator reports failure.
\<close>

theorem generated_key_clamped:
  "case GeneratePrivateKey rng of
     Inr k \<Rightarrow> is_key k \<and> (k ! 0) AND 7 = 0 \<and> \<not> bit (k ! 31) 7 \<and> bit (k ! 31) 6
   | Inl e \<Rightarrow> fst (rng kKeyLen) \<noteq> 1 \<and> e = RuntimeError ''RAND_bytes failed''"
proof (cases "GeneratePrivateKey rng")
  case (Inr k)
  then show ?thesis using GeneratePrivateKey_clamped [OF Inr] by simp
qed (auto simp: GeneratePrivateKey_def split: prod.splits if_splits)

end
