(* ===== verification/Inet.thy ===== *)
theory Inet imports Key begin

text \<open>
  \<open>inet_pton\<close> and \<open>inet_ntop\<close> belong to the C library and are a parameter of the
  model: \<open>pton4\<close> and \<open>pton6\<close> give the address bytes when the call returns 1, \<open>None\<close>
  otherwise. \<open>inet_ok\<close> states the documented behaviour the code relies on: address
  sizes, the characters an accepted text can hold, and that a printed address is read back.
\<close>

record inet_lib =
  pton4 :: "string \<Rightarrow> bytes option"
  pton6 :: "string \<Rightarrow> bytes option"
  ntop4 :: "bytes \<Rightarrow> string"
  ntop6 :: "bytes \<Rightarrow> string"

definition addr_char :: "char \<Rightarrow> bool" where
  "addr_char c \<longleftrightarrow> isdigit c \<or> 97 \<le> code c \<and> code c \<le> 102 \<or> 65 \<le> code c \<and> code c \<le> 70
     \<or> c = CHR '':'' \<or> c = CHR ''.''"

definition inet_ok :: "inet_lib \<Rightarrow> bool" where
  "inet_ok L \<longleftrightarrow>
     (\<forall>s b. pton4 L s = Some b \<longrightarrow> length b = 4 \<and> list_all addr_char s \<and> CHR '':'' \<notin> set s) \<and>
     (\<forall>s b. pton6 L s = Some b \<longrightarrow> length b = 16 \<and> list_all addr_char s \<and> CHR '':'' \<in> set s) \<and>
     (\<forall>b. length b = 4 \<longrightarrow> pton4 L (ntop4 L b) = Some b) \<and>
     (\<forall>b. length b = 16 \<longrightarrow> pton6 L (ntop6 L b) = Some b)"

lemma addr_char_not:
  "\<not> addr_char LF" "\<not> addr_char NUL" "\<not> addr_char (CHR ''='')" "\<not> addr_char (CHR ''/'')"
  "\<not> addr_char (CHR ''['')" "\<not> addr_char (CHR '']'')" "\<not> addr_char (CHR '' '')"
  by (simp_all add: addr_char_def isdigit_def code_def)

lemma inet_ok_4:
  assumes "inet_ok L" and "pton4 L s = Some b"
  shows "length b = 4" "list_all addr_char s" "CHR '':'' \<notin> set s"
  using assms by (auto simp: inet_ok_def)

lemma inet_ok_6:
  assumes "inet_ok L" and "pton6 L s = Some b"
  shows "length b = 16" "list_all addr_char s" "CHR '':'' \<in> set s"
  using assms by (auto simp: inet_ok_def)

lemma inet_ok_ntop4: "inet_ok L \<Longrightarrow> length b = 4 \<Longrightarrow> pton4 L (ntop4 L b) = Some b"
  by (auto simp: inet_ok_def)

lemma inet_ok_ntop6: "inet_ok L \<Longrightarrow> length b = 16 \<Longrightarrow> pton6 L (ntop6 L b) = Some b"
  by (auto simp: inet_ok_def)

lemma addr_text_safe:
  assumes "list_all addr_char s"
  shows "LF \<notin> set s" "NUL \<notin> set s" "CHR ''='' \<notin> set s" "CHR ''/'' \<notin> set s" "CHR ''['' \<notin> set s" "CHR '']'' \<notin> set s"
  using assms addr_char_not by (auto simp: list_all_iff)

section \<open>An instance for witnesses\<close>

text \<open>
  A concrete library that satisfies \<open>inet_ok\<close>, to instantiate the parameter in
  witnesses: canonical dotted-quad IPv4, and IPv6 written as eight groups of four
  lower-case hex digits.
\<close>

fun split_on :: "char \<Rightarrow> string \<Rightarrow> string list" where
  "split_on c [] = [[]]"
| "split_on c (d # s) =
     (if d = c then [] # split_on c s
      else (case split_on c s of [] \<Rightarrow> [[d]] | p # ps \<Rightarrow> (d # p) # ps))"

definition ref_ntop4 :: "bytes \<Rightarrow> string" where
  "ref_ntop4 b = to_string (unat (b ! 0)) @ ''.'' @ to_string (unat (b ! 1)) @ ''.'' @
     to_string (unat (b ! 2)) @ ''.'' @ to_string (unat (b ! 3))"

definition ref_pton4 :: "string \<Rightarrow> bytes option" where
  "ref_pton4 s =
     (let b = map (\<lambda>p. of_nat (dec_value p)) (split_on (CHR ''.'') s)
      in if length b = 4 \<and> ref_ntop4 b = s then Some b else None)"

fun hex_groups :: "bytes \<Rightarrow> string" where
  "hex_groups (a # b # c # rest) = KeyToHex [a, b] @ '':'' @ hex_groups (c # rest)"
| "hex_groups bs = KeyToHex bs"

definition ref_pton6 :: "string \<Rightarrow> bytes option" where
  "ref_pton6 s =
     (let b = map (hex_byte (filter (\<lambda>c. c \<noteq> CHR '':'') s)) [0..<16]
      in if hex_groups b = s then Some b else None)"

definition ref_inet :: inet_lib where
  "ref_inet = \<lparr>pton4 = ref_pton4, pton6 = ref_pton6, ntop4 = ref_ntop4, ntop6 = hex_groups\<rparr>"

lemma split_on_append: "c \<notin> set xs \<Longrightarrow> split_on c (xs @ c # ys) = xs # split_on c ys"
  by (induction xs) auto

lemma split_on_last: "c \<notin> set xs \<Longrightarrow> split_on c xs = [xs]"
  by (induction xs) auto

lemma dot_not_digit: "CHR ''.'' \<notin> set (to_string n)" "CHR '':'' \<notin> set (to_string n)"
proof -
  have "\<not> isdigit (CHR ''.'')" "\<not> isdigit (CHR '':'')" by (simp_all add: isdigit_def code_def)
  then show "CHR ''.'' \<notin> set (to_string n)" "CHR '':'' \<notin> set (to_string n)"
    using to_string_digits [of _ n] by blast+
qed

lemma ref_pton4_ntop4: "length b = 4 \<Longrightarrow> ref_pton4 (ref_ntop4 b) = Some b"
proof -
  assume "length b = 4"
  then obtain x y z w where b: "b = [x, y, z, w]"
    by (auto simp: length_Suc_conv numeral_eq_Suc)
  have "split_on (CHR ''.'') (ref_ntop4 b) = map (\<lambda>v. to_string (unat v)) b"
    by (simp add: b ref_ntop4_def split_on_append split_on_last dot_not_digit)
  then show ?thesis by (simp add: ref_pton4_def b)
qed

lemma ref_ntop4_chars: "list_all addr_char (ref_ntop4 b) \<and> CHR '':'' \<notin> set (ref_ntop4 b)"
  using to_string_digits by (auto simp: ref_ntop4_def list_all_iff addr_char_def dot_not_digit)

lemma kHexChars_addr: "list_all addr_char kHexChars" "CHR '':'' \<notin> set kHexChars"
  by (simp_all add: kHexChars_def addr_char_def isdigit_def code_def)

lemma KeyToHex_addr: "c \<in> set (KeyToHex b) \<Longrightarrow> addr_char c \<and> c \<noteq> CHR '':''"
  using set_KeyToHex [of b] kHexChars_addr by (auto simp: list_all_iff)

lemma hex_groups_chars: "c \<in> set (hex_groups b) \<Longrightarrow> addr_char c"
proof (induction b rule: hex_groups.induct)
  case (1 a b c rest)
  then show ?case using KeyToHex_addr [of _ "[a, b]"] by (auto simp: addr_char_def simp del: KeyToHex.simps)
qed (auto dest: KeyToHex_addr simp del: KeyToHex.simps)

lemma KeyToHex_append: "KeyToHex (xs @ ys) = KeyToHex xs @ KeyToHex ys"
  by (induction xs) auto

lemma filter_KeyToHex: "filter (\<lambda>c. c \<noteq> CHR '':'') (KeyToHex b) = KeyToHex b"
  using KeyToHex_addr [of _ b] by (auto simp: filter_id_conv)

lemma filter_hex_groups: "filter (\<lambda>c. c \<noteq> CHR '':'') (hex_groups b) = KeyToHex b"
proof (induction b rule: hex_groups.induct)
  case (1 a b c rest)
  then show ?case using filter_KeyToHex [of "[a, b]"] KeyToHex_append [of "[a, b]" "c # rest"]
    by (simp del: KeyToHex.simps)
qed (simp_all add: filter_KeyToHex del: KeyToHex.simps)

lemma ref_pton6_ntop6: "length b = 16 \<Longrightarrow> ref_pton6 (hex_groups b) = Some b"
proof -
  assume len: "length b = 16"
  have "map (hex_byte (KeyToHex b)) [0..<16] = b"
    by (rule nth_equalityI) (simp_all add: len hex_at_KeyToHex)
  then show ?thesis by (simp add: ref_pton6_def filter_hex_groups)
qed

lemma ref_pton6_colon: "length b = 16 \<Longrightarrow> CHR '':'' \<in> set (hex_groups b)"
  by (cases b rule: hex_groups.cases) auto

lemma inet_ok_ref: "inet_ok ref_inet"
proof -
  have "length b = 4 \<and> list_all addr_char s \<and> CHR '':'' \<notin> set s" if "ref_pton4 s = Some b" for s b
  proof -
    from that have "length b = 4" "ref_ntop4 b = s"
      by (auto simp: ref_pton4_def Let_def split: if_splits) (metis length_map)
    then show ?thesis using ref_ntop4_chars [of b] by simp
  qed
  moreover have "length b = 16 \<and> list_all addr_char s \<and> CHR '':'' \<in> set s" if "ref_pton6 s = Some b" for s b
  proof -
    from that have "hex_groups b = s" and len: "length b = 16"
      by (auto simp: ref_pton6_def Let_def split: if_splits) (metis length_map length_upt minus_nat.diff_0)
    then show ?thesis using hex_groups_chars [of _ b] ref_pton6_colon [OF len] by (auto simp: list_all_iff)
  qed
  ultimately show ?thesis
    by (simp add: inet_ok_def ref_inet_def ref_pton4_ntop4 ref_pton6_ntop6)
qed

end
