(* ===== verification/Addr.thy ===== *)
theory Addr imports Inet Wire begin

text \<open>
  The textual address forms of \<open>src/src/netlink/NlAttr.cpp\<close>: ports, endpoints as
  \<open>sockaddr\<close> bytes, and CIDR ranges.
\<close>

section \<open>Ports\<close>

definition ParsePort :: "string \<Rightarrow> u16 res" where
  "ParsePort s =
     (if s = [] then Inl (InvalidArgument (''invalid port: '' @ s))
      else case stoi s of
        Inl _ \<Rightarrow> Inl (InvalidArgument (''invalid port: '' @ s))
      | Inr (value, consumed) \<Rightarrow>
          if consumed \<noteq> length s \<or> value < 0 \<or> value > 65535
          then Inl (InvalidArgument (''invalid port: '' @ s))
          else Inr (word_of_int value))"

section \<open>Endpoints\<close>

text \<open>
  \<open>sockaddr_in\<close> (16 bytes) and \<open>sockaddr_in6\<close> (28 bytes) as laid out in memory, with
  the fields the code leaves at zero, and the 128 bytes of \<open>sockaddr_storage\<close>.
\<close>

definition sockaddr_in :: "u16 \<Rightarrow> bytes \<Rightarrow> bytes" where
  "sockaddr_in port addr = le_bytes 2 (of_nat AF_INET :: u16) @ be_bytes 2 port @ addr @ replicate 8 0"

definition sockaddr_in6 :: "u16 \<Rightarrow> bytes \<Rightarrow> bytes" where
  "sockaddr_in6 port addr =
     le_bytes 2 (of_nat AF_INET6 :: u16) @ be_bytes 2 port @ replicate 4 0 @ addr @ replicate 4 0"

definition storage :: "bytes \<Rightarrow> bytes" where
  "storage sa = sa @ replicate (128 - length sa) 0"

definition ParseEndpoint :: "inet_lib \<Rightarrow> string \<Rightarrow> bytes res" where
  "ParseEndpoint L ep =
     (if ep \<noteq> [] \<and> hd ep = CHR ''['' then
        (case find_char (CHR '']'') ep of
           None \<Rightarrow> Inl (InvalidArgument (''invalid IPv6 endpoint: '' @ ep))
         | Some close \<Rightarrow>
             if close + 1 \<ge> length ep \<or> ep ! (close + 1) \<noteq> CHR '':'' then
               Inl (InvalidArgument (''invalid IPv6 endpoint: '' @ ep))
             else
               let host = substr ep 1 (close - 1) in
               rbind (ParsePort (substr_from ep (close + 2))) (\<lambda>port.
                 case pton6 L (c_str host) of
                   None \<Rightarrow> Inl (InvalidArgument (''invalid IPv6 address: '' @ host))
                 | Some addr \<Rightarrow> Inr (storage (sockaddr_in6 port addr))))
      else
        (case rfind_char (CHR '':'') ep of
           None \<Rightarrow> Inl (InvalidArgument (''invalid endpoint (expected host:port): '' @ ep))
         | Some portSep \<Rightarrow>
             let host = substr ep 0 portSep in
             rbind (ParsePort (substr_from ep (portSep + 1))) (\<lambda>port.
               case pton4 L (c_str host) of
                 None \<Rightarrow> Inl (InvalidArgument (''invalid IPv4 address: '' @ host))
               | Some addr \<Rightarrow> Inr (storage (sockaddr_in port addr)))))"

definition ValidateEndpoint :: "inet_lib \<Rightarrow> string \<Rightarrow> unit res" where
  "ValidateEndpoint L ep = rbind (ParseEndpoint L ep) (\<lambda>_. Inr ())"

definition FormatEndpoint :: "inet_lib \<Rightarrow> bytes \<Rightarrow> string res" where
  "FormatEndpoint L sa =
     rbind (peek sa 0 2) (\<lambda>fam.
       if (le_word fam :: u16) = of_nat AF_INET then
         rbind (peek sa 4 4) (\<lambda>addr. rbind (peek sa 2 2) (\<lambda>port.
           Inr (ntop4 L addr @ '':'' @ to_string (unat (be_word port :: u16)))))
       else
         rbind (peek sa 8 16) (\<lambda>addr. rbind (peek sa 2 2) (\<lambda>port.
           Inr (''['' @ ntop6 L addr @ '']:'' @ to_string (unat (be_word port :: u16))))))"

section \<open>CIDR ranges\<close>

definition ParseCIDR :: "inet_lib \<Rightarrow> string \<Rightarrow> allowed_ip res" where
  "ParseCIDR L s =
     (case find_char (CHR ''/'') s of
        None \<Rightarrow> Inl (InvalidArgument (''invalid CIDR (missing /mask): '' @ s))
      | Some slash \<Rightarrow>
          let ipStr = substr s 0 slash; maskStr = substr_from s (slash + 1) in
          (case stoi maskStr of
             Inl _ \<Rightarrow> Inl (InvalidArgument (''invalid CIDR mask: '' @ s))
           | Inr (msk, consumed) \<Rightarrow>
               if consumed \<noteq> length maskStr then Inl (InvalidArgument (''invalid CIDR mask: '' @ s))
               else case pton6 L (c_str ipStr) of
                 Some _ \<Rightarrow>
                   if msk < 0 \<or> msk > 128
                   then Inl (InvalidArgument (''invalid CIDR mask for IPv6 (must be 0-128): '' @ s))
                   else Inr \<lparr>ip = ipStr, family = of_nat AF_INET6, cidr = word_of_int msk\<rparr>
               | None \<Rightarrow>
                   if pton4 L (c_str ipStr) = None
                   then Inl (InvalidArgument (''invalid CIDR address: '' @ ipStr))
                   else if msk < 0 \<or> msk > 32
                   then Inl (InvalidArgument (''invalid CIDR mask for IPv4 (must be 0-32): '' @ s))
                   else Inr \<lparr>ip = ipStr, family = of_nat AF_INET, cidr = word_of_int msk\<rparr>))"

definition FormatCIDR :: "allowed_ip \<Rightarrow> string" where
  "FormatCIDR aip = ip aip @ ''/'' @ to_string (unat (cidr aip))"

section \<open>Ports: what is accepted\<close>

lemma ParsePort_Inr_iff:
  "ParsePort s = Inr p \<longleftrightarrow> s \<noteq> [] \<and>
     (\<exists>v. stoi s = Inr (v, length s) \<and> 0 \<le> v \<and> v \<le> 65535 \<and> p = word_of_int v)"
  by (auto simp: ParsePort_def split: sum.splits prod.splits if_splits)

lemma ParsePort_error: "ParsePort s = Inl e \<Longrightarrow> e = InvalidArgument (''invalid port: '' @ s)"
  by (auto simp: ParsePort_def split: sum.splits prod.splits if_splits)

lemma unat_u16_bound: "unat (w :: u16) < 65536"
proof -
  have "unat w < 2 ^ LENGTH(16)" by (rule unsigned_less)
  then show ?thesis by simp
qed

lemma unat_u8_bound: "unat (w :: u8) < 256"
proof -
  have "unat w < 2 ^ LENGTH(8)" by (rule unsigned_less)
  then show ?thesis by simp
qed

lemma numeral_less_uint: "numeral m < uint w \<longleftrightarrow> numeral m < unat w"
proof -
  have "numeral m < int (unat w) \<longleftrightarrow> int (numeral m) < int (unat w)" by simp
  also have "\<dots> \<longleftrightarrow> numeral m < unat w" by (rule of_nat_less_iff)
  finally show ?thesis by simp
qed

lemma uint_u16_bound: "uint (w :: u16) \<le> 65535"
  using unat_u16_bound [of w] by (simp add: not_less [symmetric] numeral_less_uint)

lemma ParsePort_to_string: "ParsePort (to_string (unat p)) = Inr p"
  using unat_u16_bound [of p] stoi_to_string [of "unat p"] uint_u16_bound [of p]
  by (auto simp: ParsePort_Inr_iff)

lemma stoi_whole:
  assumes "stoi s = Inr (v, length s)"
  shows "\<exists>ws sg ds. s = ws @ sg @ ds \<and> list_all isspace ws \<and> (sg = [] \<or> sg = ''-'' \<or> sg = ''+'')
    \<and> list_all isdigit ds \<and> ds \<noteq> [] \<and> v = (if sg = ''-'' then - int (dec_value ds) else int (dec_value ds))"
proof -
  from assms obtain neg m where s: "strto s = Some (neg, m, length s)" and v: "v = (if neg then - int m else int m)"
    by (auto simp: stoi_def Let_def split: option.splits prod.splits if_splits)
  from strto_consumed_all [OF s] obtain ws sg ds where "s = ws @ sg @ ds" "list_all isspace ws"
    "sg = [] \<or> sg = ''-'' \<or> sg = ''+''" "list_all isdigit ds" "ds \<noteq> []" "m = dec_value ds" "neg = (sg = ''-'')"
    by blast
  with v show ?thesis by (intro exI [of _ ws] exI [of _ sg] exI [of _ ds]) simp
qed

text \<open>The characters a wholly consumed number can hold: white space, signs and digits only.\<close>

definition num_char :: "char \<Rightarrow> bool" where
  "num_char c \<longleftrightarrow> isspace c \<or> isdigit c \<or> c = CHR ''-'' \<or> c = CHR ''+''"

lemma stoi_whole_chars: "stoi s = Inr (v, length s) \<Longrightarrow> list_all num_char s"
  by (drule stoi_whole) (auto simp: num_char_def list_all_iff)

lemma num_char_not:
  "\<not> num_char (CHR ''='')" "\<not> num_char NUL" "\<not> num_char (CHR '':'')" "\<not> num_char (CHR ''/'')"
  by (simp_all add: num_char_def isspace_def isdigit_def code_def)

lemma ParsePort_chars: "ParsePort s = Inr p \<Longrightarrow> list_all num_char s"
  by (auto simp: ParsePort_Inr_iff dest: stoi_whole_chars)

lemma ParsePort_sound:
  assumes "ParsePort s = Inr p"
  shows "\<exists>ws sg ds. s = ws @ sg @ ds \<and> list_all isspace ws \<and> sg \<in> {[], ''-'', ''+''}
    \<and> list_all isdigit ds \<and> ds \<noteq> [] \<and> unat p = dec_value ds \<and> dec_value ds \<le> 65535"
proof -
  from assms obtain v where v: "stoi s = Inr (v, length s)" "0 \<le> v" "v \<le> 65535" "p = word_of_int v"
    by (auto simp: ParsePort_Inr_iff)
  from stoi_whole [OF v(1)] obtain ws sg ds where s: "s = ws @ sg @ ds" "list_all isspace ws"
    "sg = [] \<or> sg = ''-'' \<or> sg = ''+''" "list_all isdigit ds" "ds \<noteq> []"
    "v = (if sg = ''-'' then - int (dec_value ds) else int (dec_value ds))" by blast
  then have "v = int (dec_value ds)" using v(2) by (auto split: if_splits)
  then have le: "dec_value ds \<le> 65535" and p: "p = of_nat (dec_value ds)" using v by simp_all
  then have "unat p = dec_value ds" by (simp add: unat_of_nat take_bit_nat_eq_self)
  then show ?thesis using s(1-5) le
    by (intro exI [of _ ws] exI [of _ sg] exI [of _ ds]) simp
qed

section \<open>Endpoints: shape of what is accepted\<close>

lemma ParseEndpoint_v6:
  assumes "CHR '']'' \<notin> set host" and "ParsePort portStr = Inr port" and "pton6 L (c_str host) = Some addr"
  shows "ParseEndpoint L (''['' @ host @ '']:'' @ portStr) = Inr (storage (sockaddr_in6 port addr))"
proof -
  have "find_char (CHR '']'') (''['' @ host @ '']:'' @ portStr) = Some (Suc (length host))"
    using find_char_append [OF assms(1), of "'':'' @ portStr"] by simp
  then show ?thesis using assms(2,3)
    by (simp add: ParseEndpoint_def substr_def substr_from_def nth_append)
qed

lemma ParseEndpoint_v4:
  assumes "CHR '':'' \<notin> set portStr" and "host = [] \<or> hd host \<noteq> CHR ''[''"
    and "ParsePort portStr = Inr port" and "pton4 L (c_str host) = Some addr"
  shows "ParseEndpoint L (host @ '':'' @ portStr) = Inr (storage (sockaddr_in port addr))"
proof -
  have "rfind_char (CHR '':'') (host @ '':'' @ portStr) = Some (length host)"
    using rfind_char_append [OF assms(1)] by simp
  moreover have "hd (host @ '':'' @ portStr) \<noteq> CHR ''[''" using assms(2) by (cases host) auto
  ultimately show ?thesis using assms(3,4)
    by (simp add: ParseEndpoint_def substr_def substr_from_def)
qed

lemma ParseEndpoint_cases [consumes 1, case_names v6 v4]:
  assumes "ParseEndpoint L e = Inr ss"
  obtains (v6) host portStr port addr where "e = ''['' @ host @ '']:'' @ portStr" "CHR '']'' \<notin> set host"
      "ParsePort portStr = Inr port" "pton6 L (c_str host) = Some addr"
      "ss = storage (sockaddr_in6 port addr)"
  | (v4) host portStr port addr where "e = host @ '':'' @ portStr" "CHR '':'' \<notin> set portStr"
      "host = [] \<or> hd host \<noteq> CHR ''[''" "ParsePort portStr = Inr port" "pton4 L (c_str host) = Some addr"
      "ss = storage (sockaddr_in port addr)"
proof (cases "e \<noteq> [] \<and> hd e = CHR ''[''")
  case True
  then obtain e' where e: "e = CHR ''['' # e'" by (cases e) auto
  from assms e obtain j port addr where j: "find_char (CHR '']'') e' = Some j" and "Suc j < length e'"
      and nth: "e' ! Suc j = CHR '':''" and r: "ParsePort (drop (Suc (Suc j)) e') = Inr port"
      "pton6 L (c_str (take j e')) = Some addr" "ss = storage (sockaddr_in6 port addr)"
    by (auto simp: ParseEndpoint_def substr_def substr_from_def Let_def rbind_Inr_iff
        split: option.splits if_splits)
  have "drop (Suc j) e' = CHR '':'' # drop (Suc (Suc j)) e'"
    using \<open>Suc j < length e'\<close> nth by (metis Cons_nth_drop_Suc)
  then have "e' = take j e' @ '']:'' @ drop (Suc (Suc j)) e'" "CHR '']'' \<notin> set (take j e')"
    using find_char_Some [OF j] by simp_all
  then show ?thesis using v6 [of "take j e'" "drop (Suc (Suc j)) e'"] e r by simp
next
  case False
  with assms obtain i port addr where i: "rfind_char (CHR '':'') e = Some i"
      and r: "ParsePort (drop (Suc i) e) = Inr port" "pton4 L (c_str (take i e)) = Some addr"
        "ss = storage (sockaddr_in port addr)"
    by (auto simp: ParseEndpoint_def substr_def substr_from_def Let_def rbind_Inr_iff
        split: option.splits if_splits)
  have "e = take i e @ '':'' @ drop (Suc i) e" "CHR '':'' \<notin> set (drop (Suc i) e)"
    using rfind_char_Some [OF i] by simp_all
  moreover have "take i e = [] \<or> hd (take i e) \<noteq> CHR ''[''" using False by (cases e; cases i) auto
  ultimately show ?thesis using v4 r by blast
qed

lemma c_str_hd: "NUL \<notin> set s \<Longrightarrow> P (c_str s) \<Longrightarrow> P s"
  by (simp add: c_str_id)

text \<open>
  A NUL-free endpoint that is accepted holds only address, number and bracket characters.
\<close>

lemma ParseEndpoint_chars:
  assumes ok: "inet_ok L" and "ParseEndpoint L e = Inr ss" and nul: "NUL \<notin> set e"
  shows "list_all (\<lambda>c. addr_char c \<or> num_char c \<or> c = CHR ''['' \<or> c = CHR '']'') e"
  using assms(2)
proof (cases rule: ParseEndpoint_cases)
  case (v6 host portStr port addr)
  then have "c_str host = host" using nul by (auto intro: c_str_id)
  then have "list_all addr_char host" using inet_ok_6(2) [OF ok v6(4)] by simp
  moreover have "list_all num_char portStr" using v6(3) by (rule ParsePort_chars)
  ultimately show ?thesis using v6(1) by (auto simp: list_all_iff addr_char_def)
next
  case (v4 host portStr port addr)
  then have "c_str host = host" using nul by (auto intro: c_str_id)
  then have "list_all addr_char host" using inet_ok_4(2) [OF ok v4(5)] by simp
  moreover have "list_all num_char portStr" using v4(4) by (rule ParsePort_chars)
  ultimately show ?thesis using v4(1) by (auto simp: list_all_iff addr_char_def)
qed

lemma ParseEndpoint_length:
  assumes "inet_ok L" and "ParseEndpoint L e = Inr ss"
  shows "length ss = 128"
  using assms(2)
proof (cases rule: ParseEndpoint_cases)
  case (v6 host portStr port addr)
  then show ?thesis using inet_ok_6(1) [OF assms(1) v6(4)] by (simp add: storage_def sockaddr_in6_def)
next
  case (v4 host portStr port addr)
  then show ?thesis using inet_ok_4(1) [OF assms(1) v4(5)] by (simp add: storage_def sockaddr_in_def)
qed

section \<open>Endpoints: printing and reading back\<close>

lemma port_not_colon: "CHR '':'' \<notin> set (to_string n)"
  by (rule dot_not_digit)

lemma ntop_host:
  assumes "inet_ok L"
  shows "length a = 4 \<Longrightarrow> c_str (ntop4 L a) = ntop4 L a"
    "length a = 4 \<Longrightarrow> ntop4 L a = [] \<or> hd (ntop4 L a) \<noteq> CHR ''[''"
    "length b = 16 \<Longrightarrow> c_str (ntop6 L b) = ntop6 L b"
    "length b = 16 \<Longrightarrow> CHR '']'' \<notin> set (ntop6 L b)"
proof -
  show "c_str (ntop4 L a) = ntop4 L a" if "length a = 4"
    using addr_text_safe [OF inet_ok_4(2) [OF assms inet_ok_ntop4 [OF assms that]]] by (auto intro: c_str_id)
  show "ntop4 L a = [] \<or> hd (ntop4 L a) \<noteq> CHR ''[''" if "length a = 4"
    using addr_text_safe [OF inet_ok_4(2) [OF assms inet_ok_ntop4 [OF assms that]]] hd_in_set by fastforce
  show "c_str (ntop6 L b) = ntop6 L b" "CHR '']'' \<notin> set (ntop6 L b)" if "length b = 16"
    using addr_text_safe [OF inet_ok_6(2) [OF assms inet_ok_ntop6 [OF assms that]]] by (auto intro: c_str_id)
qed

lemma peek_sockaddr_in:
  assumes "length addr = 4"
  shows "peek (sockaddr_in port addr) 0 2 = Inr (le_bytes 2 (of_nat AF_INET :: u16))"
    "peek (sockaddr_in port addr) 2 2 = Inr (be_bytes 2 port)"
    "peek (sockaddr_in port addr) 4 4 = Inr addr"
  using assms by (simp_all add: peek_def sockaddr_in_def)

lemma peek_sockaddr_in6:
  assumes "length addr = 16"
  shows "peek (sockaddr_in6 port addr) 0 2 = Inr (le_bytes 2 (of_nat AF_INET6 :: u16))"
    "peek (sockaddr_in6 port addr) 2 2 = Inr (be_bytes 2 port)"
    "peek (sockaddr_in6 port addr) 8 16 = Inr addr"
  using assms by (simp_all add: peek_def sockaddr_in6_def)

lemma FormatEndpoint_in:
  assumes "length addr = 4"
  shows "FormatEndpoint L (sockaddr_in port addr) = Inr (ntop4 L addr @ '':'' @ to_string (unat port))"
  using assms by (simp add: FormatEndpoint_def peek_sockaddr_in le_word_le_bytes be_word_be_bytes)

lemma FormatEndpoint_in6:
  assumes "length addr = 16"
  shows "FormatEndpoint L (sockaddr_in6 port addr) = Inr (''['' @ ntop6 L addr @ '']:'' @ to_string (unat port))"
  using assms by (simp add: FormatEndpoint_def peek_sockaddr_in6 le_word_le_bytes be_word_be_bytes
      AF_INET_def AF_INET6_def)

lemma ParseEndpoint_printed_in:
  assumes "inet_ok L" and "length addr = 4"
  shows "ParseEndpoint L (ntop4 L addr @ '':'' @ to_string (unat port)) = Inr (storage (sockaddr_in port addr))"
  using assms ntop_host [OF assms(1), of addr]
  by (intro ParseEndpoint_v4) (auto simp: port_not_colon ParsePort_to_string inet_ok_ntop4)

lemma ParseEndpoint_printed_in6:
  assumes "inet_ok L" and "length addr = 16"
  shows "ParseEndpoint L (''['' @ ntop6 L addr @ '']:'' @ to_string (unat port)) = Inr (storage (sockaddr_in6 port addr))"
  using assms ntop_host(3,4) [OF assms]
  by (intro ParseEndpoint_v6) (auto simp: ParsePort_to_string inet_ok_ntop6)

section \<open>CIDR: what is accepted, and the round trip\<close>

text \<open>
  \<open>cidr_ok\<close>: the family is the one the text parses as, and the mask fits it.
\<close>

definition cidr_ok :: "inet_lib \<Rightarrow> allowed_ip \<Rightarrow> bool" where
  "cidr_ok L a \<longleftrightarrow>
     (family a = of_nat AF_INET6 \<and> pton6 L (c_str (ip a)) \<noteq> None \<and> unat (cidr a) \<le> 128) \<or>
     (family a = of_nat AF_INET \<and> pton6 L (c_str (ip a)) = None \<and> pton4 L (c_str (ip a)) \<noteq> None
        \<and> unat (cidr a) \<le> 32)"

lemma unat_word_of_int_u8: "0 \<le> v \<Longrightarrow> v \<le> 128 \<Longrightarrow> unat (word_of_int v :: u8) = nat v"
  by (simp add: unat_eq_nat_uint uint_word_of_int)

lemma ParseCIDR_Inr:
  assumes "ParseCIDR L s = Inr a"
  shows "\<exists>maskStr v. s = ip a @ ''/'' @ maskStr \<and> CHR ''/'' \<notin> set (ip a) \<and> cidr_ok L a
    \<and> stoi maskStr = Inr (v, length maskStr) \<and> 0 \<le> v \<and> unat (cidr a) = nat v"
proof -
  from assms obtain i where i: "find_char (CHR ''/'') s = Some i"
    by (auto simp: ParseCIDR_def split: option.splits)
  from assms i obtain v where v: "stoi (drop (Suc i) s) = Inr (v, length (drop (Suc i) s))" "0 \<le> v" "v \<le> 128"
      and a: "ip a = take i s" "cidr a = word_of_int v"
        "(family a = of_nat AF_INET6 \<and> pton6 L (c_str (take i s)) \<noteq> None) \<or>
         (family a = of_nat AF_INET \<and> pton6 L (c_str (take i s)) = None
            \<and> pton4 L (c_str (take i s)) \<noteq> None \<and> v \<le> 32)"
    by (auto simp: ParseCIDR_def Let_def substr_def substr_from_def
        split: sum.splits prod.splits option.splits if_splits)
  then have "unat (cidr a) = nat v" by (simp add: unat_word_of_int_u8)
  moreover have "s = take i s @ ''/'' @ drop (Suc i) s" "CHR ''/'' \<notin> set (take i s)"
    using find_char_Some [OF i] by simp_all
  ultimately show ?thesis using v a by (auto simp: cidr_ok_def)
qed

lemma ParseCIDR_FormatCIDR:
  assumes "cidr_ok L a" and "CHR ''/'' \<notin> set (ip a)"
  shows "ParseCIDR L (FormatCIDR a) = Inr a"
proof -
  let ?m = "to_string (unat (cidr a))"
  have "find_char (CHR ''/'') (FormatCIDR a) = Some (length (ip a))"
    using find_char_append [OF assms(2)] by (simp add: FormatCIDR_def)
  moreover have "stoi ?m = Inr (int (unat (cidr a)), length ?m)"
    using unat_u8_bound [of "cidr a"] by (intro stoi_to_string) simp
  ultimately show ?thesis using assms(1)
    by (cases a) (auto simp: ParseCIDR_def FormatCIDR_def Let_def substr_def substr_from_def cidr_ok_def numeral_less_uint)
qed

lemma cidr_ok_chars:
  assumes "inet_ok L" and "cidr_ok L a" and "NUL \<notin> set (ip a)"
  shows "list_all addr_char (ip a)"
  using assms by (auto simp: cidr_ok_def c_str_id dest: inet_ok_4 inet_ok_6)

lemma FormatCIDR_safe:
  assumes "inet_ok L" and "cidr_ok L a" and "NUL \<notin> set (ip a)"
  shows "LF \<notin> set (FormatCIDR a)"
  using addr_text_safe [OF cidr_ok_chars [OF assms]] to_string_digits
  by (auto simp: FormatCIDR_def dest: isdigit_not_special(2))

lemma pton6_of_v4:
  assumes "inet_ok L" and "pton4 L h = Some b"
  shows "pton6 L h = None" and "c_str h = h" and "CHR ''/'' \<notin> set h"
proof -
  note chars = inet_ok_4(2,3) [OF assms]
  show "c_str h = h" "CHR ''/'' \<notin> set h" using addr_text_safe [OF chars(1)] by (auto intro: c_str_id)
  show "pton6 L h = None" using inet_ok_6(3) [OF assms(1), of h] chars(2) by (cases "pton6 L h") auto
qed

text \<open>The ranges of the examples.\<close>

lemma ref_v4_text:
  assumes "length b = 4"
  shows "pton4 ref_inet (ref_ntop4 b) = Some b" and "CHR ''/'' \<notin> set (ref_ntop4 b)"
proof -
  show four: "pton4 ref_inet (ref_ntop4 b) = Some b" using assms by (simp add: ref_inet_def ref_pton4_ntop4)
  show "CHR ''/'' \<notin> set (ref_ntop4 b)" by (rule pton6_of_v4(3) [OF inet_ok_ref four])
qed

lemma ref_range_ok:
  assumes "length b = 4" and "unat c \<le> 32"
  shows "cidr_ok ref_inet \<lparr>ip = ref_ntop4 b, family = 2, cidr = c\<rparr>"
  using assms ref_v4_text(1) pton6_of_v4 [OF inet_ok_ref ref_v4_text(1)] by (simp add: cidr_ok_def AF_INET_def)

section \<open>Properties\<close>

text \<open>
  C36: an accepted CIDR text gives an address of the family it parses as with a mask that fits
  the family, and printing the result and parsing it again gives the same range.
\<close>

theorem parse_cidr_sound:
  assumes "ParseCIDR L s = Inr a"
  shows "cidr_ok L a \<and> ParseCIDR L (FormatCIDR a) = Inr a"
proof -
  from ParseCIDR_Inr [OF assms] have "cidr_ok L a" "CHR ''/'' \<notin> set (ip a)" by blast+
  then show ?thesis using ParseCIDR_FormatCIDR by simp
qed

theorem parse_cidr_sound_witness:
  "cidr_ok ref_inet \<lparr>ip = ref_ntop4 [10, 0, 0, 1], family = 2, cidr = 24\<rparr>"
proof -
  let ?a = "\<lparr>ip = ref_ntop4 [10, 0, 0, 1], family = 2, cidr = 24\<rparr> :: allowed_ip"
  have "ParseCIDR ref_inet (FormatCIDR ?a) = Inr ?a"
    by (rule ParseCIDR_FormatCIDR) (simp_all add: ref_range_ok ref_v4_text)
  from parse_cidr_sound [OF this] show ?thesis by simp
qed

end
