(* ===== verification/IfName.thy ===== *)
theory IfName imports CxxString begin

text \<open>
  \<open>src/src/helpers/IfName.cpp\<close>: the check every native entry point applies to an
  interface name. \<open>valid_ifname\<close> is the specification; the locale \<open>guarded_op\<close> is the
  contract of an operation that validates its name before it does anything else.
\<close>

definition IFNAMSIZ :: nat where
  "IFNAMSIZ = 16"

definition ValidateIfName :: "string \<Rightarrow> unit res" where
  "ValidateIfName name =
     (if name = [] then Inl (InvalidArgument ''interface name must not be empty'')
      else if name = ''.'' \<or> name = ''..'' then
        Inl (InvalidArgument (''invalid interface name: '' @ name))
      else if length name > IFNAMSIZ - 1 then
        Inl (InvalidArgument (''interface name too long (max '' @ to_string (IFNAMSIZ - 1) @
               '' bytes): '' @ name))
      else
        rfold (\<lambda>_ c. if c = NUL \<or> c = CHR ''/'' \<or> code c \<le> 32
                     then Inl (InvalidArgument (''invalid character in interface name: '' @ name))
                     else Inr ()) () name)"

definition valid_ifname :: "string \<Rightarrow> bool" where
  "valid_ifname name \<longleftrightarrow> name \<noteq> [] \<and> name \<noteq> ''.'' \<and> name \<noteq> ''..'' \<and> length name \<le> 15
     \<and> list_all (\<lambda>c. 32 < code c \<and> c \<noteq> CHR ''/'') name"

lemma rfold_check:
  "rfold (\<lambda>_ c. if P c then Inl e else Inr ()) () xs =
   (if list_all (\<lambda>c. \<not> P c) xs then Inr () else Inl e)"
  by (induction xs) auto

lemma code_NUL: "code c \<le> 32 \<or> c = CHR ''/'' \<longleftrightarrow> c = NUL \<or> c = CHR ''/'' \<or> code c \<le> 32"
  by (auto simp: code_def)

lemma ValidateIfName_eq:
  "ValidateIfName name = Inr () \<or> (\<exists>msg. ValidateIfName name = Inl (InvalidArgument msg))"
  by (simp add: ValidateIfName_def rfold_check)

lemma ValidateIfName_iff: "ValidateIfName name = Inr () \<longleftrightarrow> valid_ifname name"
proof -
  have "(\<not> (c = NUL \<or> c = CHR ''/'' \<or> code c \<le> 32)) = (32 < code c \<and> c \<noteq> CHR ''/'')" for c
    using code_NUL [of c] by auto
  then show ?thesis
    by (simp add: ValidateIfName_def valid_ifname_def rfold_check IFNAMSIZ_def not_less)
qed

lemma ValidateIfName_cases:
  obtains "valid_ifname name" "ValidateIfName name = Inr ()"
  | msg where "\<not> valid_ifname name" "ValidateIfName name = Inl (InvalidArgument msg)"
  using ValidateIfName_eq [of name] ValidateIfName_iff [of name] by auto

lemma valid_ifname_chars:
  assumes "valid_ifname name" and "c \<in> set name"
  shows "c \<noteq> NUL" "c \<noteq> LF" "c \<noteq> CHR ''/''" "c \<noteq> CHR '' ''"
proof -
  have "32 < code c \<and> c \<noteq> CHR ''/''" using assms by (simp add: valid_ifname_def list_all_iff)
  then show "c \<noteq> NUL" "c \<noteq> LF" "c \<noteq> CHR ''/''" "c \<noteq> CHR '' ''"
    by (auto simp: code_def)
qed

lemma valid_ifname_c_str: "valid_ifname name \<Longrightarrow> c_str name = name"
  using valid_ifname_chars(1) by (auto intro: c_str_id)

text \<open>
  An operation on an interface name and a world, with a result type that has exceptions
  \<open>throw e\<close>: a name that fails validation makes it throw \<open>std::invalid_argument\<close> and
  leaves the world alone.
\<close>

locale guarded_op =
  fixes op :: "string \<Rightarrow> 'w \<Rightarrow> 'r \<times> 'w" and throw :: "error \<Rightarrow> 'r"
  assumes guard: "ValidateIfName name = Inl e \<Longrightarrow> op name w = (throw e, w)"
begin

lemma rejects_invalid:
  assumes "\<not> valid_ifname name"
  shows "\<exists>msg. op name w = (throw (InvalidArgument msg), w)"
  using assms by (cases name rule: ValidateIfName_cases) (auto dest: guard)

lemma effect_needs_valid: "snd (op name w) \<noteq> w \<Longrightarrow> valid_ifname name"
  using rejects_invalid [of name w] by (cases "valid_ifname name") auto

lemma success_needs_valid: "(\<And>e. fst (op name w) \<noteq> throw e) \<Longrightarrow> valid_ifname name"
  using rejects_invalid [of name w] by (cases "valid_ifname name") force+

end

section \<open>Properties\<close>

text \<open>
  C33: a name is accepted exactly when it is not empty, not \<open>.\<close> or \<open>..\<close>, at most 15 bytes long,
  and free of slashes and of bytes up to 32 (NUL, the control characters below the space, and the
  space); any other name is an invalid argument. DEL and the bytes from 0x80 on are accepted.
\<close>

theorem ifname_accepts_exactly:
  "case ValidateIfName name of
     Inr _ \<Rightarrow> name \<notin> {[], ''.'', ''..''} \<and> length name \<le> 15
       \<and> list_all (\<lambda>c. 32 < code c \<and> c \<noteq> CHR ''/'') name
   | Inl e \<Rightarrow> \<not> (name \<notin> {[], ''.'', ''..''} \<and> length name \<le> 15
       \<and> list_all (\<lambda>c. 32 < code c \<and> c \<noteq> CHR ''/'') name) \<and> (\<exists>msg. e = InvalidArgument msg)"
  by (cases name rule: ValidateIfName_cases) (auto simp: valid_ifname_def)

end
