(* ===== verification/NlBuild.thy ===== *)
theory NlBuild imports Mnl WgUapi Addr IfName begin

text \<open>
  The request builders of \<open>src/src/netlink/NlAttr.cpp\<close>: \<open>BuildGetDeviceMessage\<close>,
  \<open>BuildSetDeviceMessage\<close>, \<open>PutAllowedIPs\<close> and the buffer estimate
  \<open>EstimateSetDeviceMessageSize\<close>. The specification \<open>set_device_attrs\<close> is the attribute
  tree a configuration stands for; the builder's calls are shown to build it.
\<close>

definition NLM_F_REQUEST :: u16 where "NLM_F_REQUEST = 0x1"
definition NLM_F_ACK :: u16 where "NLM_F_ACK = 0x4"
definition NLM_F_DUMP :: u16 where "NLM_F_DUMP = 0x300"

section \<open>Builders\<close>

text \<open>
  The address bytes \<open>PutAllowedIPs\<close> sends: the buffer starts at zero and
  \<open>inet_pton\<close> fills it when it succeeds; its return code is not looked at.
\<close>

definition addr_bytes :: "inet_lib \<Rightarrow> allowed_ip \<Rightarrow> bytes" where
  "addr_bytes L aip =
     (if family aip = of_nat AF_INET
      then (case pton4 L (c_str (ip aip)) of Some b \<Rightarrow> b | None \<Rightarrow> replicate 4 0)
      else (case pton6 L (c_str (ip aip)) of Some b \<Rightarrow> b | None \<Rightarrow> replicate 16 0))"

definition put_allowed_ip :: "inet_lib \<Rightarrow> mnl_calls \<Rightarrow> nat \<times> allowed_ip \<Rightarrow> mnl_calls" where
  "put_allowed_ip L cs ia =
     (case ia of (i, aip) \<Rightarrow>
        (case nest_start cs (of_nat i) of (cs1, entry) \<Rightarrow>
           let cs2 = put cs1 (AttrPutU16 WGALLOWEDIP_A_FAMILY (ucast (family aip)));
               cs3 = put cs2 (AttrPut WGALLOWEDIP_A_IPADDR (addr_bytes L aip));
               cs4 = put cs3 (AttrPutU8 WGALLOWEDIP_A_CIDR_MASK (cidr aip))
           in nest_end cs4 entry))"

definition PutAllowedIPs :: "inet_lib \<Rightarrow> mnl_calls \<Rightarrow> u16 \<Rightarrow> allowed_ip list \<Rightarrow> mnl_calls" where
  "PutAllowedIPs L cs parentAttr ips =
     (case nest_start cs parentAttr of (cs1, ipsNest) \<Rightarrow>
        nest_end (foldl (put_allowed_ip L) cs1 (enumerate 0 ips)) ipsNest)"

definition BuildGetDeviceMessage :: "u16 \<Rightarrow> u32 \<Rightarrow> string \<Rightarrow> nlmsg res" where
  "BuildGetDeviceMessage familyId seq ifname =
     rbind (ValidateIfName ifname) (\<lambda>_.
       Inr \<lparr>nlmsg_type = familyId, nlmsg_flags = NLM_F_REQUEST OR NLM_F_ACK OR NLM_F_DUMP,
            nlmsg_seq = seq, nlmsg_extra = Genl WG_CMD_GET_DEVICE WG_GENL_VERSION,
            nlmsg_calls = put [] (AttrPutStrz WGDEVICE_A_IFNAME (c_str ifname))\<rparr>)"

definition peer_flags :: "peer_config \<Rightarrow> u32" where
  "peer_flags p =
     (let f0 = 0;
          f1 = (if pc_remove p then f0 OR WGPEER_F_REMOVE_ME else f0);
          f2 = (if pc_updateOnly p then f1 OR WGPEER_F_UPDATE_ONLY else f1)
      in if pc_replaceAllowedIPs p then f2 OR WGPEER_F_REPLACE_ALLOWEDIPS else f2)"

text \<open>The endpoint attribute carries the \<open>sockaddr\<close> of its family, not all of the storage.\<close>

definition endpoint_payload :: "bytes \<Rightarrow> bytes" where
  "endpoint_payload ss =
     (if take 2 ss = le_bytes 2 (of_nat AF_INET6 :: u16) then take 28 ss else take 16 ss)"

text \<open>\<open>if (x) put(x)\<close> on an optional field, and \<open>if (flags != 0) put(flags)\<close>.\<close>

definition put_opt :: "mnl_calls \<Rightarrow> 'a option \<Rightarrow> ('a \<Rightarrow> mnl_call) \<Rightarrow> mnl_calls" where
  "put_opt cs x mk = (case x of Some v \<Rightarrow> put cs (mk v) | None \<Rightarrow> cs)"

definition put_flags :: "mnl_calls \<Rightarrow> u16 \<Rightarrow> u32 \<Rightarrow> mnl_calls" where
  "put_flags cs t f = (if f \<noteq> 0 then put cs (AttrPutU32 t f) else cs)"

definition put_endpoint :: "inet_lib \<Rightarrow> mnl_calls \<Rightarrow> string option \<Rightarrow> mnl_calls res" where
  "put_endpoint L cs x =
     (case x of
        None \<Rightarrow> Inr cs
      | Some e \<Rightarrow> rbind (ParseEndpoint L e) (\<lambda>ss.
                    Inr (put cs (AttrPut WGPEER_A_ENDPOINT (endpoint_payload ss)))))"

definition put_allowed_ips :: "inet_lib \<Rightarrow> mnl_calls \<Rightarrow> allowed_ip list \<Rightarrow> mnl_calls" where
  "put_allowed_ips L cs ips =
     (if ips \<noteq> [] then PutAllowedIPs L cs WGPEER_A_ALLOWEDIPS ips else cs)"

definition put_peer :: "inet_lib \<Rightarrow> mnl_calls \<Rightarrow> nat \<times> peer_config \<Rightarrow> mnl_calls res" where
  "put_peer L cs ipeer =
     (case ipeer of (i, peer) \<Rightarrow>
        (case nest_start cs (of_nat i) of (cs1, entry) \<Rightarrow>
           let cs2 = put cs1 (AttrPut WGPEER_A_PUBLIC_KEY (pc_publicKey peer));
               cs3 = put_flags cs2 WGPEER_A_FLAGS (peer_flags peer);
               cs4 = put_opt cs3 (pc_presharedKey peer) (AttrPut WGPEER_A_PRESHARED_KEY)
           in rbind (put_endpoint L cs4 (pc_endpoint peer)) (\<lambda>cs5.
                let cs6 = put_opt cs5 (pc_persistentKeepaliveInterval peer)
                            (AttrPutU16 WGPEER_A_PERSISTENT_KEEPALIVE_INTERVAL);
                    cs7 = put_allowed_ips L cs6 (pc_allowedIPs peer)
                in Inr (nest_end cs7 entry))))"

definition put_peers :: "inet_lib \<Rightarrow> mnl_calls \<Rightarrow> peer_config list \<Rightarrow> mnl_calls res" where
  "put_peers L cs ps =
     (if ps \<noteq> [] then
        (case nest_start cs WGDEVICE_A_PEERS of (cs1, peersNest) \<Rightarrow>
           rbind (rfold (put_peer L) cs1 (enumerate 0 ps)) (\<lambda>cs2. Inr (nest_end cs2 peersNest)))
      else Inr cs)"

definition BuildSetDeviceMessage ::
  "inet_lib \<Rightarrow> u16 \<Rightarrow> u32 \<Rightarrow> string \<Rightarrow> config \<Rightarrow> nlmsg res" where
  "BuildSetDeviceMessage L familyId seq ifname cfg =
     rbind (ValidateIfName ifname) (\<lambda>_.
       let cs0 = put [] (AttrPutStrz WGDEVICE_A_IFNAME (c_str ifname));
           flags = (if cfg_replacePeers cfg then 0 OR WGDEVICE_F_REPLACE_PEERS else 0);
           cs1 = put_flags cs0 WGDEVICE_A_FLAGS flags;
           cs2 = put_opt cs1 (cfg_privateKey cfg) (AttrPut WGDEVICE_A_PRIVATE_KEY);
           cs3 = put_opt cs2 (cfg_listenPort cfg) (AttrPutU16 WGDEVICE_A_LISTEN_PORT);
           cs4 = put_opt cs3 (cfg_firewallMark cfg) (AttrPutU32 WGDEVICE_A_FWMARK)
       in rbind (put_peers L cs4 (cfg_peers cfg)) (\<lambda>cs5.
            Inr \<lparr>nlmsg_type = familyId, nlmsg_flags = NLM_F_REQUEST OR NLM_F_ACK, nlmsg_seq = seq,
                 nlmsg_extra = Genl WG_CMD_SET_DEVICE WG_GENL_VERSION, nlmsg_calls = cs5\<rparr>))"

definition EstimateSetDeviceMessageSize :: "config \<Rightarrow> nat" where
  "EstimateSetDeviceMessageSize cfg =
     foldl (\<lambda>total peer. total + 128 + length (pc_allowedIPs peer) * 64) 512 (cfg_peers cfg)"

section \<open>What a configuration stands for\<close>

definition opt_attr :: "'a option \<Rightarrow> ('a \<Rightarrow> attr) \<Rightarrow> attr list" where
  "opt_attr x f = (case x of None \<Rightarrow> [] | Some v \<Rightarrow> [f v])"

definition flag_attr :: "u16 \<Rightarrow> u32 \<Rightarrow> attr list" where
  "flag_attr t f = (if f = 0 then [] else [Leaf t (le_bytes 4 f)])"

definition allowed_ip_attrs :: "inet_lib \<Rightarrow> allowed_ip \<Rightarrow> attr list" where
  "allowed_ip_attrs L a =
     [Leaf WGALLOWEDIP_A_FAMILY (le_bytes 2 (ucast (family a) :: u16)),
      Leaf WGALLOWEDIP_A_IPADDR (addr_bytes L a),
      Leaf WGALLOWEDIP_A_CIDR_MASK [cidr a]]"

definition index_nests :: "('a \<Rightarrow> attr list) \<Rightarrow> 'a list \<Rightarrow> attr list" where
  "index_nests f xs = map (\<lambda>(i, x). Nest (of_nat i) (f x)) (enumerate 0 xs)"

definition list_attr :: "u16 \<Rightarrow> ('a \<Rightarrow> attr list) \<Rightarrow> 'a list \<Rightarrow> attr list" where
  "list_attr t f xs = (if xs = [] then [] else [Nest t (index_nests f xs)])"

text \<open>The flag word of a peer, by the bits of the kernel's interface.\<close>

definition flag_word :: "peer_config \<Rightarrow> u32" where
  "flag_word p = (if pc_remove p then 1 else 0) OR (if pc_replaceAllowedIPs p then 2 else 0)
     OR (if pc_updateOnly p then 4 else 0)"

lemma peer_flags_eq: "peer_flags p = flag_word p"
  by (simp add: peer_flags_def flag_word_def wgpeer_flag_defs Let_def)

definition peer_attrs :: "inet_lib \<Rightarrow> peer_config \<Rightarrow> attr list" where
  "peer_attrs L p =
     [Leaf WGPEER_A_PUBLIC_KEY (pc_publicKey p)] @
     flag_attr WGPEER_A_FLAGS (flag_word p) @
     opt_attr (pc_presharedKey p) (Leaf WGPEER_A_PRESHARED_KEY) @
     opt_attr (pc_endpoint p) (\<lambda>e. Leaf WGPEER_A_ENDPOINT (endpoint_payload (projr (ParseEndpoint L e)))) @
     opt_attr (pc_persistentKeepaliveInterval p)
       (\<lambda>v. Leaf WGPEER_A_PERSISTENT_KEEPALIVE_INTERVAL (le_bytes 2 v)) @
     list_attr WGPEER_A_ALLOWEDIPS (allowed_ip_attrs L) (pc_allowedIPs p)"

definition set_device_attrs :: "inet_lib \<Rightarrow> string \<Rightarrow> config \<Rightarrow> attr list" where
  "set_device_attrs L ifname cfg =
     [Leaf WGDEVICE_A_IFNAME (str_bytes ifname @ [0])] @
     flag_attr WGDEVICE_A_FLAGS (if cfg_replacePeers cfg then WGDEVICE_F_REPLACE_PEERS else 0) @
     opt_attr (cfg_privateKey cfg) (Leaf WGDEVICE_A_PRIVATE_KEY) @
     opt_attr (cfg_listenPort cfg) (\<lambda>v. Leaf WGDEVICE_A_LISTEN_PORT (le_bytes 2 v)) @
     opt_attr (cfg_firewallMark cfg) (\<lambda>v. Leaf WGDEVICE_A_FWMARK (le_bytes 4 v)) @
     list_attr WGDEVICE_A_PEERS (peer_attrs L) (cfg_peers cfg)"

definition endpoints_ok :: "inet_lib \<Rightarrow> config \<Rightarrow> bool" where
  "endpoints_ok L cfg \<longleftrightarrow>
     list_all (\<lambda>p. pred_option (\<lambda>e. \<not> isl (ParseEndpoint L e)) (pc_endpoint p)) (cfg_peers cfg)"

section \<open>The builders build it\<close>

text \<open>\<open>extends cs cs' ts\<close>: \<open>cs'\<close> is \<open>cs\<close> and then calls that add the attributes \<open>ts\<close>.\<close>

definition extends :: "mnl_calls \<Rightarrow> mnl_calls \<Rightarrow> attr list \<Rightarrow> bool" where
  "extends cs cs' ts \<longleftrightarrow> (\<exists>blk. cs' = cs @ blk \<and> denotes (length cs) blk ts)"

lemma extends_refl [intro, simp]: "extends cs cs []"
  by (auto simp: extends_def)

lemma extends_trans [trans]: "extends a b ts \<Longrightarrow> extends b c us \<Longrightarrow> extends a c (ts @ us)"
  by (auto simp: extends_def intro: denotes_append)

lemma extends_put [intro, simp]:
  "extends cs (put cs (AttrPut t b)) [Leaf t b]"
  "extends cs (put cs (AttrPutU8 t v)) [Leaf t [v]]"
  "extends cs (put cs (AttrPutU16 t w)) [Leaf t (le_bytes 2 w)]"
  "extends cs (put cs (AttrPutU32 t x)) [Leaf t (le_bytes 4 x)]"
  "extends cs (put cs (AttrPutStrz t s)) [Leaf t (str_bytes s @ [0])]"
  by (auto simp: extends_def put_def)

lemma extends_nest:
  assumes "nest_start cs t = (cs1, h)" and "extends cs1 cs2 ts"
  shows "extends cs (nest_end cs2 h) [Nest t ts]"
proof -
  from assms(1) have cs1: "cs1 = cs @ [NestStart t]" and h: "h = length cs" by (auto simp: nest_start_def)
  from assms(2) obtain blk where "cs2 = cs1 @ blk" "denotes (Suc (length cs)) blk ts"
    by (auto simp: extends_def cs1)
  then show ?thesis using denotes_nest [of "length cs" blk ts t]
    by (auto simp: extends_def nest_end_def cs1 h)
qed

lemma extends_opt:
  "(\<And>cs v. extends cs (put cs (mk v)) [g v]) \<Longrightarrow> extends cs (put_opt cs x mk) (opt_attr x g)"
  by (cases x) (auto simp: opt_attr_def put_opt_def)

lemma extends_flag: "extends cs (put_flags cs t f) (flag_attr t f)"
  by (auto simp: flag_attr_def put_flags_def)

lemma extends_endpoint:
  "put_endpoint L cs x = Inr cs' \<Longrightarrow>
   extends cs cs' (opt_attr x (\<lambda>e. Leaf WGPEER_A_ENDPOINT (endpoint_payload (projr (ParseEndpoint L e)))))"
  by (auto simp: put_endpoint_def opt_attr_def rbind_Inr_iff split: option.splits)

lemma extends_loop:
  assumes "\<And>cs ix. extends cs (f cs ix) [g ix]"
  shows "extends cs (foldl f cs xs) (map g xs)"
proof (induction xs arbitrary: cs)
  case (Cons x xs)
  show ?case using extends_trans [OF assms Cons.IH [of "f cs x"]] by simp
qed simp

lemma extends_rloop:
  assumes "\<And>cs cs' ix. ix \<in> set xs \<Longrightarrow> f cs ix = Inr cs' \<Longrightarrow> extends cs cs' [g ix]"
    and "rfold f cs xs = Inr cs'"
  shows "extends cs cs' (map g xs)"
  using assms
proof (induction xs arbitrary: cs)
  case (Cons x xs)
  from Cons.prems(2) obtain c where c: "f cs x = Inr c" "rfold f c xs = Inr cs'"
    by (auto simp: rbind_Inr_iff)
  have "extends cs c [g x]" using Cons.prems(1) c(1) by simp
  moreover have "extends c cs' (map g xs)" using Cons.prems(1) c(2) by (intro Cons.IH) auto
  ultimately show ?case using extends_trans by fastforce
qed simp

lemma extends_allowed_ip:
  "extends cs (put_allowed_ip L cs ia) [case ia of (i, a) \<Rightarrow> Nest (of_nat i) (allowed_ip_attrs L a)]"
proof -
  obtain i a where ia: "ia = (i, a)" by (cases ia)
  obtain cs1 h where ns: "nest_start cs (of_nat i) = (cs1, h)" by (cases "nest_start cs (of_nat i)")
  let ?cs2 = "put cs1 (AttrPutU16 WGALLOWEDIP_A_FAMILY (ucast (family a)))"
  let ?cs3 = "put ?cs2 (AttrPut WGALLOWEDIP_A_IPADDR (addr_bytes L a))"
  let ?cs4 = "put ?cs3 (AttrPutU8 WGALLOWEDIP_A_CIDR_MASK (cidr a))"
  have "extends cs1 ?cs4 (allowed_ip_attrs L a)"
    using extends_trans [OF extends_trans [OF extends_put(3) extends_put(1)] extends_put(2)]
    by (simp add: allowed_ip_attrs_def)
  then show ?thesis using extends_nest [OF ns] by (simp add: put_allowed_ip_def ia ns Let_def)
qed

lemma extends_PutAllowedIPs:
  "extends cs (PutAllowedIPs L cs t ips) [Nest t (index_nests (allowed_ip_attrs L) ips)]"
proof -
  obtain cs1 h where ns: "nest_start cs t = (cs1, h)" by (cases "nest_start cs t")
  show ?thesis
    using extends_nest [OF ns extends_loop [of "put_allowed_ip L", OF extends_allowed_ip, of cs1 "enumerate 0 ips"]]
    by (simp add: PutAllowedIPs_def ns index_nests_def)
qed

lemma extends_allowed_ips:
  "extends cs (put_allowed_ips L cs ips) (list_attr WGPEER_A_ALLOWEDIPS (allowed_ip_attrs L) ips)"
  by (simp add: list_attr_def put_allowed_ips_def extends_PutAllowedIPs)

lemma put_peer_extends:
  assumes "put_peer L cs ix = Inr cs'"
  shows "extends cs cs' [case ix of (i, p) \<Rightarrow> Nest (of_nat i) (peer_attrs L p)]"
proof -
  obtain i p where ix: "ix = (i, p)" by (cases ix)
  obtain cs1 h where ns: "nest_start cs (of_nat i) = (cs1, h)" by (cases "nest_start cs (of_nat i)")
  define cs2 where "cs2 = put cs1 (AttrPut WGPEER_A_PUBLIC_KEY (pc_publicKey p))"
  define cs3 where "cs3 = put_flags cs2 WGPEER_A_FLAGS (peer_flags p)"
  define cs4 where "cs4 = put_opt cs3 (pc_presharedKey p) (AttrPut WGPEER_A_PRESHARED_KEY)"
  from assms obtain cs5 where cs5: "put_endpoint L cs4 (pc_endpoint p) = Inr cs5"
    by (auto simp: put_peer_def ix ns Let_def rbind_Inr_iff cs2_def cs3_def cs4_def)
  define cs6 where "cs6 = put_opt cs5 (pc_persistentKeepaliveInterval p)
      (AttrPutU16 WGPEER_A_PERSISTENT_KEEPALIVE_INTERVAL)"
  define cs7 where "cs7 = put_allowed_ips L cs6 (pc_allowedIPs p)"
  have cs': "cs' = nest_end cs7 h"
    using assms cs5 by (simp add: put_peer_def ix ns Let_def flip: cs2_def cs3_def cs4_def cs6_def cs7_def)
  have "extends cs1 cs2 [Leaf WGPEER_A_PUBLIC_KEY (pc_publicKey p)]" by (simp add: cs2_def)
  also have "extends cs2 cs3 (flag_attr WGPEER_A_FLAGS (flag_word p))"
    unfolding cs3_def peer_flags_eq by (rule extends_flag)
  also have "extends cs3 cs4 (opt_attr (pc_presharedKey p) (Leaf WGPEER_A_PRESHARED_KEY))"
    unfolding cs4_def by (rule extends_opt) simp
  also note extends_endpoint [OF cs5]
  also have "extends cs5 cs6 (opt_attr (pc_persistentKeepaliveInterval p)
      (\<lambda>v. Leaf WGPEER_A_PERSISTENT_KEEPALIVE_INTERVAL (le_bytes 2 v)))"
    unfolding cs6_def by (rule extends_opt) simp
  also have "extends cs6 cs7 (list_attr WGPEER_A_ALLOWEDIPS (allowed_ip_attrs L) (pc_allowedIPs p))"
    unfolding cs7_def by (rule extends_allowed_ips)
  finally have "extends cs1 cs7 (peer_attrs L p)" by (simp add: peer_attrs_def)
  then show ?thesis using extends_nest [OF ns] by (simp add: cs' ix)
qed

lemma put_peers_extends:
  assumes "put_peers L cs ps = Inr cs'"
  shows "extends cs cs' (list_attr WGDEVICE_A_PEERS (peer_attrs L) ps)"
proof (cases "ps = []")
  case False
  obtain cs1 h where ns: "nest_start cs WGDEVICE_A_PEERS = (cs1, h)" by (cases "nest_start cs WGDEVICE_A_PEERS")
  from assms False obtain cs2 where "rfold (put_peer L) cs1 (enumerate 0 ps) = Inr cs2" "cs' = nest_end cs2 h"
    by (auto simp: put_peers_def ns rbind_Inr_iff)
  then show ?thesis
    using False extends_nest [OF ns extends_rloop [of "enumerate 0 ps" "put_peer L", OF put_peer_extends]]
    by (simp add: list_attr_def index_nests_def)
qed (use assms in \<open>simp add: put_peers_def list_attr_def\<close>)

lemma replace_flag:
  "(if c then 0 OR WGDEVICE_F_REPLACE_PEERS else 0) = (if c then WGDEVICE_F_REPLACE_PEERS else 0)"
  by (simp add: WGDEVICE_F_REPLACE_PEERS_def)

text \<open>The whole request: headers and attribute tree.\<close>

lemma BuildSetDeviceMessage_Inr:
  assumes "BuildSetDeviceMessage L fam sq ifname cfg = Inr m"
  shows "valid_ifname ifname" "msg_attrs (nlmsg_calls m) = Some (set_device_attrs L ifname cfg)"
    "nlmsg_type m = fam" "nlmsg_seq m = sq" "nlmsg_flags m = NLM_F_REQUEST OR NLM_F_ACK"
    "nlmsg_extra m = Genl WG_CMD_SET_DEVICE WG_GENL_VERSION"
proof -
  define flags where "flags = (if cfg_replacePeers cfg then WGDEVICE_F_REPLACE_PEERS else 0)"
  define cs0 where "cs0 = put [] (AttrPutStrz WGDEVICE_A_IFNAME (c_str ifname))"
  define cs1 where "cs1 = put_flags cs0 WGDEVICE_A_FLAGS flags"
  define cs2 where "cs2 = put_opt cs1 (cfg_privateKey cfg) (AttrPut WGDEVICE_A_PRIVATE_KEY)"
  define cs3 where "cs3 = put_opt cs2 (cfg_listenPort cfg) (AttrPutU16 WGDEVICE_A_LISTEN_PORT)"
  define cs4 where "cs4 = put_opt cs3 (cfg_firewallMark cfg) (AttrPutU32 WGDEVICE_A_FWMARK)"
  from assms obtain cs5 where v: "ValidateIfName ifname = Inr ()" and cs5: "put_peers L cs4 (cfg_peers cfg) = Inr cs5"
    and m: "m = \<lparr>nlmsg_type = fam, nlmsg_flags = NLM_F_REQUEST OR NLM_F_ACK, nlmsg_seq = sq,
                 nlmsg_extra = Genl WG_CMD_SET_DEVICE WG_GENL_VERSION, nlmsg_calls = cs5\<rparr>"
    by (auto simp: BuildSetDeviceMessage_def Let_def rbind_Inr_iff cs0_def cs1_def cs2_def cs3_def cs4_def
        flags_def replace_flag)
  show ifn: "valid_ifname ifname" using v by (simp add: ValidateIfName_iff)
  show "nlmsg_type m = fam" "nlmsg_seq m = sq" "nlmsg_flags m = NLM_F_REQUEST OR NLM_F_ACK"
    "nlmsg_extra m = Genl WG_CMD_SET_DEVICE WG_GENL_VERSION" by (simp_all add: m)
  have "extends [] cs0 [Leaf WGDEVICE_A_IFNAME (str_bytes ifname @ [0])]"
    unfolding cs0_def valid_ifname_c_str [OF ifn] by (rule extends_put)
  also have "extends cs0 cs1 (flag_attr WGDEVICE_A_FLAGS flags)" unfolding cs1_def by (rule extends_flag)
  also have "extends cs1 cs2 (opt_attr (cfg_privateKey cfg) (Leaf WGDEVICE_A_PRIVATE_KEY))"
    unfolding cs2_def by (rule extends_opt) simp
  also have "extends cs2 cs3 (opt_attr (cfg_listenPort cfg) (\<lambda>v. Leaf WGDEVICE_A_LISTEN_PORT (le_bytes 2 v)))"
    unfolding cs3_def by (rule extends_opt) simp
  also have "extends cs3 cs4 (opt_attr (cfg_firewallMark cfg) (\<lambda>v. Leaf WGDEVICE_A_FWMARK (le_bytes 4 v)))"
    unfolding cs4_def by (rule extends_opt) simp
  also note put_peers_extends [OF cs5]
  finally have "extends [] cs5 (set_device_attrs L ifname cfg)"
    by (simp add: set_device_attrs_def flags_def)
  then show "msg_attrs (nlmsg_calls m) = Some (set_device_attrs L ifname cfg)"
    by (simp add: m extends_def msg_attrs_denotes)
qed

section \<open>When building succeeds\<close>

lemma rfold_error_from:
  "rfold f s xs = Inl e \<Longrightarrow> \<exists>x \<in> set xs. \<exists>u. f u x = Inl e"
  by (induction xs arbitrary: s) (auto simp: rbind_Inl_iff)

lemma rfold_succeeds:
  "(\<And>s x. x \<in> set xs \<Longrightarrow> \<exists>t. f s x = Inr t) \<Longrightarrow> \<exists>t. rfold f s xs = Inr t"
  by (rule exE [OF rfold_total [of "\<lambda>_. True" s xs f]]) auto

lemma ParsePort_total: "(\<exists>p. ParsePort s = Inr p) \<or> ParsePort s = Inl (InvalidArgument (''invalid port: '' @ s))"
  using ParsePort_error by (cases "ParsePort s") auto

lemma ParseEndpoint_error: "ParseEndpoint L e = Inl x \<Longrightarrow> \<exists>msg. x = InvalidArgument msg"
  by (auto simp: ParseEndpoint_def Let_def rbind_Inl_iff dest: ParsePort_error
      split: option.splits if_splits)

lemma put_peer_total:
  assumes "pred_option (\<lambda>e. \<not> isl (ParseEndpoint L e)) (pc_endpoint p)"
  shows "\<exists>cs'. put_peer L cs (i, p) = Inr cs'"
proof -
  have "\<exists>cs2. put_endpoint L cs1 (pc_endpoint p) = Inr cs2" for cs1
    using assms by (cases "pc_endpoint p") (auto simp: put_endpoint_def isl_def rbind_Inr_iff intro: sum.exhaust_sel)
  then show ?thesis by (cases "nest_start cs (of_nat i)") (auto simp: put_peer_def Let_def rbind_Inr_iff)
qed

lemma put_peer_error:
  "put_peer L cs ix = Inl e \<Longrightarrow>
   \<exists>p. p = snd ix \<and> (\<exists>s. pc_endpoint p = Some s \<and> ParseEndpoint L s = Inl e)"
  by (cases "nest_start cs (of_nat (fst ix))")
    (auto simp: put_peer_def put_endpoint_def Let_def rbind_Inl_iff split: prod.splits option.splits)

lemma enumerate_snd: "x \<in> set (enumerate n xs) \<Longrightarrow> snd x \<in> set xs"
  using in_set_zip [of x "[n..<n + length xs]" xs] nth_mem by (force simp: enumerate_eq_zip)

lemma put_peers_total:
  assumes "\<And>p. p \<in> set ps \<Longrightarrow> pred_option (\<lambda>e. \<not> isl (ParseEndpoint L e)) (pc_endpoint p)"
  shows "\<exists>cs'. put_peers L cs ps = Inr cs'"
proof -
  obtain cs1 h where ns: "nest_start cs WGDEVICE_A_PEERS = (cs1, h)" by (cases "nest_start cs WGDEVICE_A_PEERS")
  have "\<exists>t. rfold (put_peer L) cs1 (enumerate 0 ps) = Inr t"
  proof (rule rfold_succeeds)
    fix s x assume "x \<in> set (enumerate 0 ps)"
    then show "\<exists>t. put_peer L s x = Inr t"
      using put_peer_total [OF assms [of "snd x"], of s "fst x"] enumerate_snd by fastforce
  qed
  then show ?thesis by (auto simp: put_peers_def ns)
qed

lemma BuildSetDeviceMessage_total:
  assumes "valid_ifname ifname" and "endpoints_ok L cfg"
  shows "\<exists>m. BuildSetDeviceMessage L fam sq ifname cfg = Inr m"
proof -
  have "ValidateIfName ifname = Inr ()" using assms(1) by (simp add: ValidateIfName_iff)
  moreover have "\<exists>cs'. put_peers L cs (cfg_peers cfg) = Inr cs'" for cs
    using assms(2) by (intro put_peers_total) (simp add: endpoints_ok_def list_all_iff)
  ultimately show ?thesis by (auto simp: BuildSetDeviceMessage_def Let_def rbind_Inr_iff)
qed

lemma BuildSetDeviceMessage_error:
  assumes "BuildSetDeviceMessage L fam sq ifname cfg = Inl e"
  shows "\<exists>msg. e = InvalidArgument msg"
proof -
  consider "ValidateIfName ifname = Inl e" | cs where "put_peers L cs (cfg_peers cfg) = Inl e"
    using assms by (auto simp: BuildSetDeviceMessage_def Let_def rbind_Inl_iff)
  then show ?thesis
  proof cases
    case 1
    then show ?thesis using ValidateIfName_eq [of ifname] by auto
  next
    case 2
    then obtain s x where "put_peer L s x = Inl e"
      by (auto simp: put_peers_def rbind_Inl_iff dest!: rfold_error_from split: prod.splits if_splits)
    then show ?thesis by (auto dest!: put_peer_error ParseEndpoint_error)
  qed
qed

section \<open>The estimate covers the message\<close>

definition alen :: "mnl_lib \<Rightarrow> attr list \<Rightarrow> nat" where
  "alen M ts = sum_list (map (attr_len M) ts)"

lemma alen_simps [simp]:
  "alen M [] = 0" "alen M (ts @ us) = alen M ts + alen M us"
  "alen M (t # ts) = attr_len M t + alen M ts"
  "attr_len M (Nest n ts) = nest_len M + alen M ts"
  by (simp_all add: alen_def)

declare attr_len.simps(2) [simp del]

lemma alen_opt: "(\<And>x. v = Some x \<Longrightarrow> attr_len M (f x) \<le> n) \<Longrightarrow> alen M (opt_attr v f) \<le> n"
  by (cases v) (auto simp: opt_attr_def)

lemma alen_flag: "mnl_ok M \<Longrightarrow> alen M (flag_attr t f) \<le> 8"
  by (simp add: flag_attr_def mnl_ok_simps align4_def)

lemma alen_index_nests: "alen M (index_nests f xs) = sum_list (map (\<lambda>x. nest_len M + alen M (f x)) xs)"
proof -
  have comp: "attr_len M \<circ> (\<lambda>(i, x). Nest (of_nat i) (f x)) = (\<lambda>x. nest_len M + alen M (f x)) \<circ> snd"
    by (auto simp: fun_eq_iff)
  have "map (attr_len M) (index_nests f xs) = map (\<lambda>x. nest_len M + alen M (f x)) (map snd (enumerate 0 xs))"
    by (simp only: index_nests_def map_map comp)
  then show ?thesis by (simp add: alen_def)
qed

lemma alen_list_attr:
  "mnl_ok M \<Longrightarrow> alen M (list_attr t f xs) \<le> 4 + sum_list (map (\<lambda>x. 4 + alen M (f x)) xs)"
  by (simp add: list_attr_def alen_index_nests mnl_ok_simps(4))

lemma length_addr_bytes:
  "inet_ok L \<Longrightarrow> length (addr_bytes L a) = (if family a = of_nat AF_INET then 4 else 16)"
  by (auto simp: addr_bytes_def split: option.splits dest: inet_ok_4(1) inet_ok_6(1))

lemma alen_allowed_ip:
  assumes "mnl_ok M" and "inet_ok L"
  shows "alen M (allowed_ip_attrs L a) = (if family a = of_nat AF_INET then 24 else 36)"
  using assms by (simp add: allowed_ip_attrs_def mnl_ok_simps align4_def length_addr_bytes)

lemma sum_list_bound: "(\<And>x. x \<in> set xs \<Longrightarrow> f x \<le> (n::nat)) \<Longrightarrow> sum_list (map f xs) \<le> length xs * n"
  by (induction xs) (auto intro: add_mono)

lemma alen_key: "mnl_ok M \<Longrightarrow> is_key k \<Longrightarrow> attr_len M (Leaf t k) = 36"
  by (simp add: mnl_ok_simps is_key_def kKeyLen_def align4_def)

lemma length_endpoint_payload: "length (endpoint_payload ss) \<le> 28"
  by (auto simp: endpoint_payload_def)

lemma alen_peer:
  assumes "mnl_ok M" and "inet_ok L" and "wf_peer_config p"
  shows "alen M (peer_attrs L p) \<le> 124 + length (pc_allowedIPs p) * 40"
proof -
  note [simp] = mnl_ok_simps [OF assms(1)]
  have key: "is_key (pc_publicKey p)" "\<And>k. pc_presharedKey p = Some k \<Longrightarrow> is_key k"
    using assms(3) by (auto simp: wf_peer_config_def)
  have ips: "alen M (list_attr WGPEER_A_ALLOWEDIPS (allowed_ip_attrs L) (pc_allowedIPs p)) \<le>
      4 + length (pc_allowedIPs p) * 40"
  proof -
    have "4 + alen M (allowed_ip_attrs L a) \<le> 40" for a by (simp add: alen_allowed_ip [OF assms(1,2)])
    then show ?thesis
      using alen_list_attr [OF assms(1), of WGPEER_A_ALLOWEDIPS "allowed_ip_attrs L" "pc_allowedIPs p"]
        sum_list_bound [of "pc_allowedIPs p" "\<lambda>a. 4 + alen M (allowed_ip_attrs L a)" 40]
      by (meson add_left_mono order_trans)
  qed
  have psk: "alen M (opt_attr (pc_presharedKey p) (Leaf WGPEER_A_PRESHARED_KEY)) \<le> 36"
    by (rule alen_opt) (use alen_key [OF assms(1)] key in auto)
  have ka: "alen M (opt_attr (pc_persistentKeepaliveInterval p)
      (\<lambda>v. Leaf WGPEER_A_PERSISTENT_KEEPALIVE_INTERVAL (le_bytes 2 v))) \<le> 8"
    by (rule alen_opt) (simp add: align4_def)
  have "align4 (length (endpoint_payload ss)) \<le> 28" for ss
    using align4_mono [OF length_endpoint_payload [of ss]] by (simp add: align4_def)
  then have ep: "alen M (opt_attr (pc_endpoint p)
      (\<lambda>e. Leaf WGPEER_A_ENDPOINT (endpoint_payload (projr (ParseEndpoint L e))))) \<le> 32"
    by (intro alen_opt) simp
  show ?thesis
    using ips psk ka ep alen_flag [OF assms(1), of WGPEER_A_FLAGS "flag_word p"]
      alen_key [OF assms(1) key(1), of WGPEER_A_PUBLIC_KEY]
    by (simp add: peer_attrs_def)
qed

lemma Estimate_eq:
  "EstimateSetDeviceMessageSize cfg = 512 + sum_list (map (\<lambda>p. 128 + length (pc_allowedIPs p) * 64) (cfg_peers cfg))"
proof -
  have "foldl (\<lambda>total peer. total + 128 + length (pc_allowedIPs peer) * 64) n ps =
      n + sum_list (map (\<lambda>p. 128 + length (pc_allowedIPs p) * 64) ps)" for n ps
    by (induction ps arbitrary: n) auto
  then show ?thesis by (simp add: EstimateSetDeviceMessageSize_def)
qed

lemma alen_set_device:
  assumes "mnl_ok M" and "inet_ok L" and "wf_config cfg" and "valid_ifname ifname"
  shows "alen M (set_device_attrs L ifname cfg) + 408 \<le> EstimateSetDeviceMessageSize cfg"
proof -
  note [simp] = mnl_ok_simps [OF assms(1)]
  have "length ifname \<le> 15" using assms(4) by (simp add: valid_ifname_def)
  then have name: "attr_len M (Leaf t (str_bytes ifname @ [0])) \<le> 20" for t
    using align4_mono [of "length ifname + 1" 16] by (simp add: str_bytes_def align4_def)
  have priv: "alen M (opt_attr (cfg_privateKey cfg) (Leaf WGDEVICE_A_PRIVATE_KEY)) \<le> 36"
    by (rule alen_opt) (use alen_key [OF assms(1)] assms(3) in \<open>auto simp: wf_config_def\<close>)
  have port: "alen M (opt_attr (cfg_listenPort cfg) (\<lambda>v. Leaf WGDEVICE_A_LISTEN_PORT (le_bytes 2 v))) \<le> 8"
    by (rule alen_opt) (simp add: align4_def)
  have fw: "alen M (opt_attr (cfg_firewallMark cfg) (\<lambda>v. Leaf WGDEVICE_A_FWMARK (le_bytes 4 v))) \<le> 8"
    by (rule alen_opt) (simp add: align4_def)
  have "sum_list (map (\<lambda>p. 4 + alen M (peer_attrs L p)) (cfg_peers cfg)) \<le>
      sum_list (map (\<lambda>p. 128 + length (pc_allowedIPs p) * 64) (cfg_peers cfg))"
  proof (rule sum_list_mono)
    fix p assume "p \<in> set (cfg_peers cfg)"
    then have "wf_peer_config p" using assms(3) by (simp add: wf_config_def list_all_iff)
    from alen_peer [OF assms(1,2) this] show "4 + alen M (peer_attrs L p) \<le> 128 + length (pc_allowedIPs p) * 64"
      by simp
  qed
  then show ?thesis
    using name [of WGDEVICE_A_IFNAME] priv port fw
      alen_flag [OF assms(1), of WGDEVICE_A_FLAGS "if cfg_replacePeers cfg then WGDEVICE_F_REPLACE_PEERS else 0"]
      alen_list_attr [OF assms(1), of WGDEVICE_A_PEERS "peer_attrs L" "cfg_peers cfg"]
    by (simp add: set_device_attrs_def Estimate_eq)
qed

lemma BuildSetDeviceMessage_len:
  assumes "BuildSetDeviceMessage L fam sq ifname cfg = Inr m"
    and "mnl_ok M" and "inet_ok L" and "wf_config cfg"
  shows "msg_len M m \<le> EstimateSetDeviceMessageSize cfg"
  using alen_set_device [OF assms(2-4) BuildSetDeviceMessage_Inr(1) [OF assms(1)]]
    msg_attrs_len [OF BuildSetDeviceMessage_Inr(2) [OF assms(1)], of M]
  by (simp add: msg_len_def BuildSetDeviceMessage_Inr(6) [OF assms(1)] mnl_ok_simps [OF assms(2)] alen_def align4_def)

section \<open>The 16-bit length field\<close>

text \<open>An attribute and everything nested in it.\<close>

fun subattrs :: "attr \<Rightarrow> attr list" where
  "subattrs (Leaf t b) = [Leaf t b]"
| "subattrs (Nest t ts) = Nest t ts # concat (map subattrs ts)"

lemma alen_member: "a \<in> set ts \<Longrightarrow> attr_len M a \<le> alen M ts"
  unfolding alen_def by (intro member_le_sum_list) auto

lemma subattrs_len: "b \<in> set (subattrs a) \<Longrightarrow> attr_len M b \<le> attr_len M a"
proof (induction a rule: subattrs.induct)
  case (2 t ts)
  show ?case
  proof (cases "b = Nest t ts")
    case False
    with 2(2) obtain c where c: "c \<in> set ts" "b \<in> set (subattrs c)" by auto
    from 2(1) [OF c] alen_member [OF c(1), of M] show ?thesis by (simp add: alen_simps(4))
  qed simp
qed simp

lemma index_nests_member: "x \<in> set xs \<Longrightarrow> \<exists>i. Nest i (f x) \<in> set (index_nests f xs)"
  unfolding index_nests_def by (fastforce simp: in_set_conv_nth enumerate_eq_zip set_zip)

lemma set_device_has_ranges:
  assumes "p \<in> set (cfg_peers cfg)" and "pc_allowedIPs p \<noteq> []"
  shows "Nest WGPEER_A_ALLOWEDIPS (index_nests (allowed_ip_attrs L) (pc_allowedIPs p)) \<in>
    set (concat (map subattrs (set_device_attrs L name cfg)))" (is "?a \<in> _")
proof -
  have "?a \<in> set (peer_attrs L p)" using assms(2) by (simp add: peer_attrs_def list_attr_def)
  then have "?a \<in> set (subattrs (Nest i (peer_attrs L p)))" for i by force
  moreover obtain i where "Nest i (peer_attrs L p) \<in> set (index_nests (peer_attrs L) (cfg_peers cfg))"
    using index_nests_member [OF assms(1)] by blast
  ultimately have "?a \<in> set (subattrs (Nest WGDEVICE_A_PEERS (index_nests (peer_attrs L) (cfg_peers cfg))))" by force
  moreover have "Nest WGDEVICE_A_PEERS (index_nests (peer_attrs L) (cfg_peers cfg)) \<in> set (set_device_attrs L name cfg)"
    using assms(1) by (auto simp: set_device_attrs_def list_attr_def)
  ultimately show ?thesis unfolding set_concat set_map by blast
qed

lemma unat_nla_len_field: "unat (nla_len_field M a) = attr_len M a mod 65536"
  by (simp add: nla_len_field_def unat_of_nat)

lemma nla_len_exact:
  assumes "alen M ts < 65536" and "a \<in> set ts" and "b \<in> set (subattrs a)"
  shows "unat (nla_len_field M b) = attr_len M b"
  using assms(1) alen_member [OF assms(2), of M] subattrs_len [OF assms(3), of M]
  by (simp add: unat_nla_len_field)

lemma attr_len_v4_list:
  assumes "mnl_ok M" and "inet_ok L" and "list_all (\<lambda>a. family a = of_nat AF_INET) ips"
  shows "attr_len M (Nest t (index_nests (allowed_ip_attrs L) ips)) = 4 + 28 * length ips"
proof -
  have "sum_list (map (\<lambda>a. nest_len M + alen M (allowed_ip_attrs L a)) ips) = 28 * length ips"
    using assms(3) by (induction ips) (simp_all add: mnl_ok_simps(4) [OF assms(1)] alen_allowed_ip [OF assms(1,2)])
  then show ?thesis by (simp add: alen_index_nests mnl_ok_simps(4) [OF assms(1)])
qed

section \<open>Properties\<close>

lemma BuildSetDeviceMessage_endpoints:
  assumes "BuildSetDeviceMessage L fam sq ifname cfg = Inr m"
  shows "endpoints_ok L cfg"
proof -
  obtain cs cs' where pp: "put_peers L cs (cfg_peers cfg) = Inr cs'"
    using assms unfolding BuildSetDeviceMessage_def Let_def rbind_Inr_iff by blast
  have "pred_option (\<lambda>e. \<not> isl (ParseEndpoint L e)) (pc_endpoint p)" if p: "p \<in> set (cfg_peers cfg)" for p
  proof -
    obtain cs1 h where ns: "nest_start cs WGDEVICE_A_PEERS = (cs1, h)" by (cases "nest_start cs WGDEVICE_A_PEERS")
    have "cfg_peers cfg \<noteq> []" using p by auto
    with pp ns obtain cs2 where fold: "rfold (put_peer L) cs1 (enumerate 0 (cfg_peers cfg)) = Inr cs2"
      by (auto simp: put_peers_def rbind_Inr_iff)
    have "p \<in> set (map snd (enumerate 0 (cfg_peers cfg)))" using p by (simp only: map_snd_enumerate)
    then obtain i where "(i, p) \<in> set (enumerate 0 (cfg_peers cfg))"
      by (auto simp only: set_map image_iff split_paired_all snd_conv)
    from rfold_each [OF fold this] obtain u v where "put_peer L u (i, p) = Inr v" by blast
    then show ?thesis
      by (cases "pc_endpoint p"; cases "nest_start u (of_nat i)")
        (auto simp: put_peer_def put_endpoint_def Let_def rbind_Inr_iff)
  qed
  then show ?thesis by (simp add: endpoints_ok_def list_all_iff)
qed

text \<open>
  C11: a SET message is built exactly when the interface name is valid and every endpoint
  parses; it then carries the attribute tree the configuration stands for, with nests
  correctly bracketed, under the caller's family id and sequence number, and it asks for an
  acknowledgement. Anything else is an invalid argument.
\<close>

theorem set_message_is_configuration:
  "case BuildSetDeviceMessage L fam sq ifname cfg of
     Inr m \<Rightarrow> valid_ifname ifname \<and> endpoints_ok L cfg
       \<and> msg_attrs (nlmsg_calls m) = Some (set_device_attrs L ifname cfg)
       \<and> nlmsg_type m = fam \<and> nlmsg_seq m = sq \<and> nlmsg_flags m = NLM_F_REQUEST OR NLM_F_ACK
       \<and> nlmsg_extra m = Genl WG_CMD_SET_DEVICE WG_GENL_VERSION
   | Inl e \<Rightarrow> \<not> (valid_ifname ifname \<and> endpoints_ok L cfg) \<and> (\<exists>msg. e = InvalidArgument msg)"
proof (cases "BuildSetDeviceMessage L fam sq ifname cfg")
  case (Inl e)
  then show ?thesis
    using BuildSetDeviceMessage_total [of ifname L cfg fam sq] BuildSetDeviceMessage_error [OF Inl] by auto
next
  case (Inr m)
  then show ?thesis using BuildSetDeviceMessage_Inr [OF Inr] BuildSetDeviceMessage_endpoints [OF Inr] by simp
qed

text \<open>
  C12: a SET message never overruns its scratch buffer: for a well-formed configuration its
  length is at most what \<open>EstimateSetDeviceMessageSize\<close> returns.
\<close>

theorem set_message_fits_estimate:
  assumes "mnl_ok M" and "inet_ok L" and "wf_config cfg"
    and "BuildSetDeviceMessage L fam sq ifname cfg = Inr m"
  shows "msg_len M m \<le> EstimateSetDeviceMessageSize cfg"
  using BuildSetDeviceMessage_len [OF assms(4,1,2,3)] .

theorem set_message_fits_estimate_witness:
  "\<exists>m. BuildSetDeviceMessage ref_inet 27 1 ''wg0'' (default_config\<lparr>cfg_peers := [default_peer_config]\<rparr>) = Inr m
    \<and> msg_len ref_mnl m \<le> EstimateSetDeviceMessageSize (default_config\<lparr>cfg_peers := [default_peer_config]\<rparr>)"
proof -
  let ?c = "default_config\<lparr>cfg_peers := [default_peer_config]\<rparr>"
  have wf: "wf_config ?c" by (simp add: wf_config_def default_config_def wf_peer_config_def default_peer_config_def)
  have "valid_ifname ''wg0''" by (simp add: valid_ifname_def code_def)
  moreover have "endpoints_ok ref_inet ?c" by (simp add: endpoints_ok_def default_peer_config_def)
  ultimately obtain m where "BuildSetDeviceMessage ref_inet 27 1 ''wg0'' ?c = Inr m"
    using BuildSetDeviceMessage_total by blast
  with set_message_fits_estimate [OF mnl_ok_ref inet_ok_ref wf this] show ?thesis by blast
qed

text \<open>
  C38: a configuration with more than 2340 IPv4 ranges in a peer is built with a wrong length:
  under a valid name and with endpoints that parse, \<open>BuildSetDeviceMessage\<close> accepts it and builds one
  message, whose attribute tree has all the ranges of the peer in one nest; with \<open>n\<close> ranges that nest
  is \<open>4 + 28 n\<close> bytes long, and its 16-bit length field says that number modulo 65536, which is
  less. With 2341 ranges the length is 65552 and the field says 16.
\<close>

theorem allowed_ips_length_wraps:
  assumes "mnl_ok M" and "inet_ok L" and "valid_ifname name" and "endpoints_ok L cfg"
    and "p \<in> set (cfg_peers cfg)" and "list_all (\<lambda>r. family r = of_nat AF_INET) (pc_allowedIPs p)"
    and "length (pc_allowedIPs p) = n" and "2340 < n"
  shows "\<exists>m ts a. BuildSetDeviceMessage L fam sq name cfg = Inr m \<and> msg_attrs (nlmsg_calls m) = Some ts
    \<and> a = Nest WGPEER_A_ALLOWEDIPS (index_nests (allowed_ip_attrs L) (pc_allowedIPs p))
    \<and> a \<in> set (concat (map subattrs ts))
    \<and> attr_len M a = 4 + 28 * n
    \<and> unat (nla_len_field M a) = (4 + 28 * n) mod 65536
    \<and> unat (nla_len_field M a) < attr_len M a"
proof -
  obtain m where m: "BuildSetDeviceMessage L fam sq name cfg = Inr m"
    using BuildSetDeviceMessage_total [OF assms(3,4)] by blast
  let ?a = "Nest WGPEER_A_ALLOWEDIPS (index_nests (allowed_ip_attrs L) (pc_allowedIPs p))"
  have len: "attr_len M ?a = 4 + 28 * n" using attr_len_v4_list [OF assms(1,2,6)] assms(7) by simp
  moreover have "(4 + 28 * n) mod 65536 < 4 + 28 * n"
  proof -
    have "(4 + 28 * n) mod 65536 < 65536" by simp
    then show ?thesis using assms(8) by linarith
  qed
  moreover have "pc_allowedIPs p \<noteq> []" using assms(7,8) by auto
  ultimately show ?thesis
    using m BuildSetDeviceMessage_Inr(2) [OF m] set_device_has_ranges [OF assms(5)]
    by (intro exI [of _ m] exI [of _ "set_device_attrs L name cfg"] exI [of _ ?a]) (simp add: unat_nla_len_field len)
qed

text \<open>A range the CIDR parser returns, and a configuration with 2341 of them.\<close>

definition wrapping_config :: config where
  "wrapping_config = default_config\<lparr>cfg_peers :=
     [default_peer_config\<lparr>pc_allowedIPs := replicate 2341 \<lparr>ip = ref_ntop4 [10, 0, 0, 2], family = 2, cidr = 32\<rparr>\<rparr>]\<rparr>"

theorem allowed_ips_length_wraps_witness:
  "ParseCIDR ref_inet (ref_ntop4 [10, 0, 0, 2] @ ''/'' @ to_string 32) = Inr \<lparr>ip = ref_ntop4 [10, 0, 0, 2], family = 2, cidr = 32\<rparr>
    \<and> (\<exists>m ts a. BuildSetDeviceMessage ref_inet 27 1 ''wg0'' wrapping_config = Inr m
      \<and> msg_attrs (nlmsg_calls m) = Some ts \<and> a \<in> set (concat (map subattrs ts))
      \<and> attr_len ref_mnl a = 65552 \<and> unat (nla_len_field ref_mnl a) = 16)"
proof
  have "ParseCIDR ref_inet (FormatCIDR \<lparr>ip = ref_ntop4 [10, 0, 0, 2], family = 2, cidr = 32\<rparr>) =
      Inr \<lparr>ip = ref_ntop4 [10, 0, 0, 2], family = 2, cidr = 32\<rparr>"
    by (rule ParseCIDR_FormatCIDR) (simp_all add: ref_range_ok ref_v4_text)
  then show "ParseCIDR ref_inet (ref_ntop4 [10, 0, 0, 2] @ ''/'' @ to_string 32) =
      Inr \<lparr>ip = ref_ntop4 [10, 0, 0, 2], family = 2, cidr = 32\<rparr>"
    by (simp add: FormatCIDR_def)
next
  let ?ips = "replicate 2341 \<lparr>ip = ref_ntop4 [10, 0, 0, 2], family = 2, cidr = 32\<rparr> :: allowed_ip list"
  let ?p = "default_peer_config\<lparr>pc_allowedIPs := ?ips\<rparr>"
  have v: "valid_ifname ''wg0''" by (simp add: valid_ifname_def code_def)
  have e: "endpoints_ok ref_inet wrapping_config"
    unfolding endpoints_ok_def wrapping_config_def by (simp add: default_peer_config_def)
  have p: "?p \<in> set (cfg_peers wrapping_config)" unfolding wrapping_config_def by (simp)
  have ips: "pc_allowedIPs ?p = ?ips" by (simp)
  have four: "list_all (\<lambda>r. family r = of_nat AF_INET) (pc_allowedIPs ?p)"
    unfolding ips list_all_iff set_replicate_conv_if by (simp add: AF_INET_def)
  have len: "length (pc_allowedIPs ?p) = 2341" unfolding ips by (rule length_replicate)
  from allowed_ips_length_wraps [OF mnl_ok_ref inet_ok_ref v e p four len, of 27 1]
  show "\<exists>m ts a. BuildSetDeviceMessage ref_inet 27 1 ''wg0'' wrapping_config = Inr m
      \<and> msg_attrs (nlmsg_calls m) = Some ts \<and> a \<in> set (concat (map subattrs ts))
      \<and> attr_len ref_mnl a = 65552 \<and> unat (nla_len_field ref_mnl a) = 16"
    by fastforce
qed

end
