(* ===== verification/NlSocket.thy ===== *)
theory NlSocket imports Os NlBuild begin

text \<open>
  \<open>src/src/netlink/NlSocket.cpp\<close>: the generic-netlink socket a client owns. An operation
  takes the socket object and the world and returns \<open>Some result\<close>, or \<open>None\<close> when
  \<open>mnl_socket_recvfrom\<close> never returns. Reply handlers are functions that may throw and say
  whether to continue.
\<close>

record nl_socket =
  sk_handle :: nat
  portid :: u32
  nl_seq :: u32
  wgFamilyId :: u16

definition GENL_ID_CTRL :: u16 where "GENL_ID_CTRL = 0x10"
definition CTRL_CMD_GETFAMILY :: u8 where "CTRL_CMD_GETFAMILY = 3"
definition CTRL_ATTR_FAMILY_ID :: u16 where "CTRL_ATTR_FAMILY_ID = 1"
definition CTRL_ATTR_FAMILY_NAME :: u16 where "CTRL_ATTR_FAMILY_NAME = 2"

section \<open>Opening and closing\<close>

definition NlSocket_new :: "os_env \<Rightarrow> world \<Rightarrow> nl_socket res \<times> world" where
  "NlSocket_new E w =
     (case sk_open E w of
        (Inl e, w1) \<Rightarrow> (Inl (sys_error E ''mnl_socket_open: '' e), w1)
      | (Inr h, w1) \<Rightarrow>
          (case sock_bind E w1 h of
             Some e \<Rightarrow> (Inl (sys_error E ''mnl_socket_bind: '' e), sk_close h w1)
           | None \<Rightarrow> (Inr \<lparr>sk_handle = h, portid = sock_portid E h, nl_seq = 0, wgFamilyId = 0\<rparr>, w1)))"

definition NlSocket_delete :: "nl_socket \<Rightarrow> world \<Rightarrow> world" where
  "NlSocket_delete s w = sk_close (sk_handle s) w"

definition NextSeq :: "nl_socket \<Rightarrow> u32 \<times> nl_socket" where
  "NextSeq s = (nl_seq s + 1, s\<lparr>nl_seq := nl_seq s + 1\<rparr>)"

section \<open>Sending a request and walking the replies\<close>

text \<open>
  The inner loop: the messages of one datagram. The flag says whether the exchange is done.
\<close>

fun walk_msgs ::
  "os_env \<Rightarrow> u32 \<Rightarrow> u32 \<Rightarrow> ('s \<Rightarrow> nlreply \<Rightarrow> (bool \<times> 's) res) \<Rightarrow> 's \<Rightarrow> nlreply list \<Rightarrow> (bool \<times> 's) res" where
  "walk_msgs E sq pid handler s [] = Inr (False, s)"
| "walk_msgs E sq pid handler s (cur # rest) =
     (if rp_seq cur \<noteq> sq \<or> rp_pid cur \<noteq> pid then walk_msgs E sq pid handler s rest
      else if rp_type cur = NLMSG_ERROR then
        rbind (nlmsgerr_code (rp_payload cur)) (\<lambda>err.
          if err \<noteq> 0 then Inl (sys_error E ''netlink error: '' (- err)) else Inr (True, s))
      else if rp_type cur = NLMSG_DONE then Inr (True, s)
      else rbind (handler s cur) (\<lambda>(continue, s').
        if \<not> continue then Inr (True, s')
        else if rp_flags cur AND NLM_F_MULTI = 0 then Inr (True, s')
        else walk_msgs E sq pid handler s' rest))"

text \<open>The outer loop over the datagrams the socket receives.\<close>

fun recv_loop ::
  "os_env \<Rightarrow> mnl_lib \<Rightarrow> u32 \<Rightarrow> u32 \<Rightarrow> ('s \<Rightarrow> nlreply \<Rightarrow> (bool \<times> 's) res) \<Rightarrow> 's \<Rightarrow> recv list \<Rightarrow>
   's res option \<times> recv list" where
  "recv_loop E M sq pid handler s [] = (None, [])"
| "recv_loop E M sq pid handler s (RecvErr e # q) =
     (Some (Inl (sys_error E ''mnl_socket_recvfrom: '' e)), q)"
| "recv_loop E M sq pid handler s (RecvZero # q) = (Some (Inr s), q)"
| "recv_loop E M sq pid handler s (Datagram b # q) =
     (case walk_msgs E sq pid handler s (next_msgs M b) of
        Inl e \<Rightarrow> (Some (Inl e), q)
      | Inr (True, s') \<Rightarrow> (Some (Inr s'), q)
      | Inr (False, s') \<Rightarrow> recv_loop E M sq pid handler s' q)"

definition SendAndReceive ::
  "os_env \<Rightarrow> mnl_lib \<Rightarrow> nl_socket \<Rightarrow> nlmsg \<Rightarrow> ('s \<Rightarrow> nlreply \<Rightarrow> (bool \<times> 's) res) \<Rightarrow> 's \<Rightarrow> world \<Rightarrow>
   's res option \<times> world" where
  "SendAndReceive E M sk nlh handler s w =
     (case sk_send E (sk_handle sk) nlh w of
        (Some e, w1) \<Rightarrow> (Some (Inl (sys_error E ''mnl_socket_sendto: '' e)), w1)
      | (None, w1) \<Rightarrow>
          (case recv_loop E M (nlmsg_seq nlh) (portid sk) handler s (inbox w1 (sk_handle sk)) of
             (r, q) \<Rightarrow> (r, w1\<lparr>inbox := (inbox w1)(sk_handle sk := q)\<rparr>)))"

section \<open>The family id\<close>

definition FamilyIdAttrCallback :: "u16 \<Rightarrow> nlattr \<Rightarrow> u16 res" where
  "FamilyIdAttrCallback out a =
     (if nla_type a = CTRL_ATTR_FAMILY_ID then attr_u16 a else Inr out)"

definition FamilyIdMsgCallback :: "mnl_lib \<Rightarrow> u16 \<Rightarrow> nlreply \<Rightarrow> u16 res" where
  "FamilyIdMsgCallback M out reply =
     rfold FamilyIdAttrCallback out (parse_attrs M (drop 4 (rp_payload reply)))"

definition family_request :: "u32 \<Rightarrow> nlmsg" where
  "family_request sq =
     \<lparr>nlmsg_type = GENL_ID_CTRL, nlmsg_flags = NLM_F_REQUEST OR NLM_F_ACK, nlmsg_seq = sq,
      nlmsg_extra = Genl CTRL_CMD_GETFAMILY 1,
      nlmsg_calls = put [] (AttrPutStrz CTRL_ATTR_FAMILY_NAME WG_GENL_NAME)\<rparr>"

definition family_handler :: "mnl_lib \<Rightarrow> u16 \<Rightarrow> nlreply \<Rightarrow> (bool \<times> u16) res" where
  "family_handler M familyId reply =
     rbind (FamilyIdMsgCallback M familyId reply) (\<lambda>familyId'. Inr (True, familyId'))"

definition WireGuardFamilyId ::
  "os_env \<Rightarrow> mnl_lib \<Rightarrow> nl_socket \<Rightarrow> world \<Rightarrow> u16 res option \<times> nl_socket \<times> world" where
  "WireGuardFamilyId E M s w =
     (if wgFamilyId s \<noteq> 0 then (Some (Inr (wgFamilyId s)), s, w)
      else (case NextSeq s of (sq, s1) \<Rightarrow>
        (case SendAndReceive E M s1 (family_request sq) (family_handler M) 0 w of
           (None, w1) \<Rightarrow> (None, s1, w1)
         | (Some (Inl e), w1) \<Rightarrow> (Some (Inl e), s1, w1)
         | (Some (Inr familyId), w1) \<Rightarrow>
             (if familyId = 0 then
                (Some (Inl (SystemError ENODEV
                   ''wireguard genetlink family not found (is the wireguard kernel module loaded?)'')), s1, w1)
              else (Some (Inr familyId), s1\<lparr>wgFamilyId := familyId\<rparr>, w1)))))"

section \<open>Properties of the walk\<close>

text \<open>The messages of an exchange: those with its sequence number and port.\<close>

definition ours :: "u32 \<Rightarrow> u32 \<Rightarrow> nlreply \<Rightarrow> bool" where
  "ours sq pid r \<longleftrightarrow> rp_seq r = sq \<and> rp_pid r = pid"

lemma walk_msgs_filter:
  "walk_msgs E sq pid h s rs = walk_msgs E sq pid h s (filter (ours sq pid) rs)"
  by (induction rs arbitrary: s) (auto simp: ours_def split: prod.splits intro!: rbind_cong)

lemma walk_msgs_append:
  "walk_msgs E sq pid h s (xs @ ys) =
   rbind (walk_msgs E sq pid h s xs) (\<lambda>(d, s'). if d then Inr (True, s') else walk_msgs E sq pid h s' ys)"
  by (induction xs arbitrary: s) (auto simp: rbind_assoc split: prod.splits intro!: rbind_cong)

text \<open>The received stream as a whole: all datagrams up to the first error or empty read.\<close>

fun stream_msgs :: "mnl_lib \<Rightarrow> recv list \<Rightarrow> nlreply list" where
  "stream_msgs M (Datagram b # q) = next_msgs M b @ stream_msgs M q"
| "stream_msgs M q = []"

lemma recv_loop_stream:
  "fst (recv_loop E M sq pid h s q) =
   (case walk_msgs E sq pid h s (stream_msgs M q) of
      Inl e \<Rightarrow> Some (Inl e)
    | Inr (True, s') \<Rightarrow> Some (Inr s')
    | Inr (False, s') \<Rightarrow>
        (case dropWhile (\<lambda>ev. \<exists>b. ev = Datagram b) q of
           RecvErr e # _ \<Rightarrow> Some (Inl (sys_error E ''mnl_socket_recvfrom: '' e))
         | RecvZero # _ \<Rightarrow> Some (Inr s')
         | _ \<Rightarrow> None))"
  by (induction E M sq pid h s q rule: recv_loop.induct)
    (auto simp: walk_msgs_append split: sum.splits bool.splits prod.splits)

text \<open>The reply stream of a dump: multi-part messages handled in order, then an end.\<close>

definition dump_part :: "nlreply \<Rightarrow> bool" where
  "dump_part r \<longleftrightarrow> rp_type r \<noteq> NLMSG_ERROR \<and> rp_type r \<noteq> NLMSG_DONE \<and> rp_flags r AND NLM_F_MULTI \<noteq> 0"

lemma walk_msgs_parts:
  assumes "\<forall>r \<in> set rs. ours sq pid r \<and> dump_part r"
  shows "walk_msgs E sq pid (\<lambda>s r. rbind (f s r) (\<lambda>s'. Inr (True, s'))) s rs =
    rbind (rfold f s rs) (\<lambda>s'. Inr (False, s'))"
  using assms
  by (induction rs arbitrary: s) (auto simp: ours_def dump_part_def rbind_assoc intro!: rbind_cong)

lemma walk_msgs_dump:
  assumes "\<forall>r \<in> set rs. ours sq pid r \<longrightarrow> dump_part r"
    and "ours sq pid fin" and "rp_type fin = NLMSG_DONE"
  shows "walk_msgs E sq pid (\<lambda>s r. rbind (f s r) (\<lambda>s'. Inr (True, s'))) s (rs @ fin # rest) =
    rbind (rfold f s (filter (ours sq pid) rs)) (\<lambda>s'. Inr (True, s'))"
proof -
  have "\<forall>r \<in> set (filter (ours sq pid) rs). ours sq pid r \<and> dump_part r" using assms(1) by auto
  note parts = walk_msgs_parts [OF this, of E f s]
  show ?thesis using assms(2,3) parts
    by (simp add: walk_msgs_append walk_msgs_filter [of _ _ _ _ _ rs] rbind_assoc)
       (auto simp: ours_def NLMSG_DONE_def NLMSG_ERROR_def intro!: rbind_cong)
qed

lemma walk_msgs_kernel_error:
  assumes "\<forall>r \<in> set rs. ours sq pid r \<longrightarrow> dump_part r"
    and "ours sq pid err" and "rp_type err = NLMSG_ERROR"
    and "nlmsgerr_code (rp_payload err) = Inr e" and "e \<noteq> 0"
    and "rfold f s (filter (ours sq pid) rs) = Inr s'"
  shows "walk_msgs E sq pid (\<lambda>s r. rbind (f s r) (\<lambda>s'. Inr (True, s'))) s (rs @ err # rest) =
    Inl (sys_error E ''netlink error: '' (- e))"
proof -
  have "\<forall>r \<in> set (filter (ours sq pid) rs). ours sq pid r \<and> dump_part r" using assms(1) by auto
  note parts = walk_msgs_parts [OF this, of E f s]
  show ?thesis using assms(2-6) parts
    by (simp add: walk_msgs_append walk_msgs_filter [of _ _ _ _ _ rs] rbind_assoc)
       (simp add: ours_def)
qed

section \<open>Frames\<close>

lemma SendAndReceive_open_socks: "open_socks (snd (SendAndReceive E M sk m h s w)) = open_socks w"
  by (auto simp: SendAndReceive_def sk_send_def split: prod.splits option.splits sum.splits)

lemma SendAndReceive_sent:
  "sent (snd (SendAndReceive E M sk m h s w)) =
   sent w @ (case kernel E w (sk_handle sk) m of Inl _ \<Rightarrow> [] | Inr _ \<Rightarrow> [(sk_handle sk, m)])"
  by (auto simp: SendAndReceive_def sk_send_def split: prod.splits option.splits sum.splits)

lemma WireGuardFamilyId_cached:
  "wgFamilyId s \<noteq> 0 \<Longrightarrow> WireGuardFamilyId E M s w = (Some (Inr (wgFamilyId s)), s, w)"
  by (simp add: WireGuardFamilyId_def)

lemma WireGuardFamilyId_Inr:
  "WireGuardFamilyId E M s w = (Some (Inr f), s', w') \<Longrightarrow>
   f \<noteq> 0 \<and> wgFamilyId s' = f \<and> sk_handle s' = sk_handle s \<and> portid s' = portid s"
  by (auto simp: WireGuardFamilyId_def NextSeq_def split: if_splits prod.splits option.splits sum.splits)

lemma WireGuardFamilyId_frame:
  "WireGuardFamilyId E M s w = (r, s', w') \<Longrightarrow>
   sk_handle s' = sk_handle s \<and> portid s' = portid s \<and> open_socks w' = open_socks w"
  using SendAndReceive_open_socks [of E M "s\<lparr>nl_seq := nl_seq s + 1\<rparr>" "family_request (nl_seq s + 1)" "family_handler M" 0 w]
  by (auto simp: WireGuardFamilyId_def NextSeq_def split: if_splits prod.splits option.splits sum.splits)

lemma NlSocket_new_open:
  "NlSocket_new E w = (r, w') \<Longrightarrow>
   (case r of Inl _ \<Rightarrow> open_socks w' = open_socks w
    | Inr s \<Rightarrow> open_socks w' = sk_handle s # open_socks w \<and> wgFamilyId s = 0)"
  by (auto simp: NlSocket_new_def sk_open_def split: sum.splits option.splits)

section \<open>Properties\<close>

text \<open>
  C23: the outcome of an exchange depends only on the messages that carry its sequence number
  and the socket's port: whatever else arrives, before or between them, such as the unread
  acknowledgement of an earlier request, is skipped.
\<close>

theorem foreign_messages_ignored:
  "fst (recv_loop E M sq pid handler s q) =
   (case walk_msgs E sq pid handler s (filter (ours sq pid) (stream_msgs M q)) of
      Inl e \<Rightarrow> Some (Inl e)
    | Inr (True, s') \<Rightarrow> Some (Inr s')
    | Inr (False, s') \<Rightarrow>
        (case dropWhile (\<lambda>ev. \<exists>b. ev = Datagram b) q of
           RecvErr e # _ \<Rightarrow> Some (Inl (sys_error E ''mnl_socket_recvfrom: '' e))
         | RecvZero # _ \<Rightarrow> Some (Inr s')
         | _ \<Rightarrow> None))"
  by (simp only: recv_loop_stream walk_msgs_filter [symmetric])

text \<open>
  C24: an error the kernel reports for the exchange ends it: after any number of well-formed
  parts of a dump, an error message with code \<open>e\<close> makes it throw a system error with errno
  \<open>-e\<close>, whatever follows. In particular a missing family is reported with the kernel's own
  errno, not as \<open>ENODEV\<close>.
\<close>

theorem kernel_error_is_thrown:
  assumes "stream_msgs M q = rs @ err # rest"
    and "\<forall>r \<in> set rs. ours sq pid r \<longrightarrow> dump_part r" and "ours sq pid err" and "rp_type err = NLMSG_ERROR"
    and "nlmsgerr_code (rp_payload err) = Inr e" and "e \<noteq> 0"
    and "rfold f s (filter (ours sq pid) rs) = Inr s'"
  shows "fst (recv_loop E M sq pid (\<lambda>s r. rbind (f s r) (\<lambda>s'. Inr (True, s'))) s q) =
    Some (Inl (SystemError (- e) (''netlink error: '' @ str_error E (- e))))"
  using walk_msgs_kernel_error [OF assms(2-7), of E rest]
  by (simp add: recv_loop_stream assms(1) sys_error_def)

text \<open>A stream whose only message reports \<open>-ENOENT\<close>.\<close>

definition enoent_reply :: nlreply where
  "enoent_reply = \<lparr>rp_type = NLMSG_ERROR, rp_flags = 0, rp_seq = 1, rp_pid = 42, rp_payload = [0xFE, 0xFF, 0xFF, 0xFF]\<rparr>"

theorem kernel_error_is_thrown_witness:
  "fst (recv_loop ack_env (ref_mnl\<lparr>next_msgs := \<lambda>_. [enoent_reply]\<rparr>) 1 42
      (\<lambda>s r. rbind (FamilyIdMsgCallback ref_mnl s r) (\<lambda>s'. Inr (True, s'))) 0 [Datagram []]) =
   Some (Inl (SystemError 2 ''netlink error: error''))"
proof -
  have le: "(le_word [0xFE, 0xFF, 0xFF, 0xFF] :: 32 word) = 0xFFFFFFFE" by simp
  have code: "nlmsgerr_code (rp_payload enoent_reply) = Inr (- 2)"
    unfolding nlmsgerr_code_def enoent_reply_def by (simp add: peek_def le del: le_word.simps)
  have str: "stream_msgs (ref_mnl\<lparr>next_msgs := \<lambda>_. [enoent_reply]\<rparr>) [Datagram []] = [] @ enoent_reply # []"
    by simp
  show ?thesis
    using kernel_error_is_thrown [OF str _ _ _ code, where f = "FamilyIdMsgCallback ref_mnl" and s = 0
        and sq = 1 and pid = 42 and E = ack_env]
    by (simp add: enoent_reply_def ours_def ack_env_def del: stream_msgs.simps)
qed

lemma family_id_cached:
  assumes "WireGuardFamilyId E M s w = (Some (Inr f), s', w')"
  shows "f \<noteq> 0 \<and> WireGuardFamilyId E M s' w'' = (Some (Inr f), s', w'')"
  using WireGuardFamilyId_Inr [OF assms] WireGuardFamilyId_cached by auto

end
