(* ===== verification/Exchange.thy ===== *)
theory Exchange imports NlSocket begin

text \<open>
  \<open>NlSocket::SendAndReceive\<close> one system call at a time. A worker inside it has yet to send,
  waits in \<open>mnl_socket_recvfrom\<close> with the handler's state so far, or has left with a result;
  workers on several threads of the pool share one socket. A worker that runs alone computes
  what the function \<open>SendAndReceive\<close> says; two workers that overlap do not.
\<close>

section \<open>The steps of one worker\<close>

datatype 's phase = ToSend | Waiting 's | Left "'s res"

record 's exchange =
  ex_msg :: nlmsg
  ex_handler :: "'s \<Rightarrow> nlreply \<Rightarrow> (bool \<times> 's) res"
  ex_init :: 's

text \<open>What the code does with one result of \<open>mnl_socket_recvfrom\<close>.\<close>

fun on_recv :: "os_env \<Rightarrow> mnl_lib \<Rightarrow> u32 \<Rightarrow> 's exchange \<Rightarrow> 's \<Rightarrow> recv \<Rightarrow> 's phase" where
  "on_recv E M pid x s (RecvErr e) = Left (Inl (sys_error E ''mnl_socket_recvfrom: '' e))"
| "on_recv E M pid x s RecvZero = Left (Inr s)"
| "on_recv E M pid x s (Datagram b) =
     (case walk_msgs E (nlmsg_seq (ex_msg x)) pid (ex_handler x) s (next_msgs M b) of
        Inl e \<Rightarrow> Left (Inl e)
      | Inr (done, s') \<Rightarrow> if done then Left (Inr s') else Waiting s')"

fun on_send :: "os_env \<Rightarrow> 's exchange \<Rightarrow> int option \<Rightarrow> 's phase" where
  "on_send E x (Some e) = Left (Inl (sys_error E ''mnl_socket_sendto: '' e))"
| "on_send E x None = Waiting (ex_init x)"

section \<open>Workers sharing a socket\<close>

text \<open>One worker of the list \<open>xs\<close> makes its next system call on the shared socket \<open>sk\<close>.\<close>

inductive ex_step ::
  "os_env \<Rightarrow> mnl_lib \<Rightarrow> nl_socket \<Rightarrow> 's exchange list \<Rightarrow> 's phase list \<times> world \<Rightarrow> 's phase list \<times> world \<Rightarrow> bool"
  for E M sk xs where
  step_send: "i < length ps \<Longrightarrow> ps ! i = ToSend \<Longrightarrow>
     sk_send E (sk_handle sk) (ex_msg (xs ! i)) w = (r, w') \<Longrightarrow>
     ex_step E M sk xs (ps, w) (ps[i := on_send E (xs ! i) r], w')"
| step_recv: "i < length ps \<Longrightarrow> ps ! i = Waiting s \<Longrightarrow>
     sk_recv (sk_handle sk) w = (Some ev, w') \<Longrightarrow>
     ex_step E M sk xs (ps, w) (ps[i := on_recv E M (portid sk) (xs ! i) s ev], w')"

inductive ex_run ::
  "os_env \<Rightarrow> mnl_lib \<Rightarrow> nl_socket \<Rightarrow> 's exchange list \<Rightarrow> 's phase list \<times> world \<Rightarrow> 's phase list \<times> world \<Rightarrow> bool"
  for E M sk xs where
  run_refl: "ex_run E M sk xs c c"
| run_step: "ex_step E M sk xs c c' \<Longrightarrow> ex_run E M sk xs c' c'' \<Longrightarrow> ex_run E M sk xs c c''"

inductive_cases ex_stepE: "ex_step E M sk xs c c'"
inductive_cases ex_runE: "ex_run E M sk xs c c'"

lemma ex_run_trans:
  "ex_run E M sk xs a b \<Longrightarrow> ex_run E M sk xs b c \<Longrightarrow> ex_run E M sk xs a c"
  by (induction rule: ex_run.induct) (auto intro: ex_run.intros)

text \<open>A worker that has left makes no further step, alone or not.\<close>

lemma ex_step_left:
  "ex_step E M sk xs (ps, w) (ps', w') \<Longrightarrow> i < length ps \<Longrightarrow> ps ! i = Left r \<Longrightarrow> ps' ! i = Left r"
  by (erule ex_stepE) (auto simp: nth_list_update)

lemma ex_step_length: "ex_step E M sk xs (ps, w) (ps', w') \<Longrightarrow> length ps' = length ps"
  by (erule ex_stepE) auto

text \<open>Receiving until the worker leaves, from any list of datagrams in front of the queue.\<close>

lemma recv_loop_run:
  assumes "recv_loop E M (nlmsg_seq (ex_msg (xs ! i))) (portid sk) (ex_handler (xs ! i)) s (inbox w (sk_handle sk)) = (Some r, q)"
    and "i < length ps" and "ps ! i = Waiting s"
  shows "ex_run E M sk xs (ps, w) (ps[i := Left r], w\<lparr>inbox := (inbox w)(sk_handle sk := q)\<rparr>)"
  using assms
proof (induction "inbox w (sk_handle sk)" arbitrary: s w ps)
  case Nil
  then show ?case by (simp flip: Nil.hyps)
next
  case (Cons ev evs)
  let ?w = "w\<lparr>inbox := (inbox w)(sk_handle sk := evs)\<rparr>"
  let ?p = "on_recv E M (portid sk) (xs ! i) s ev"
  have step: "ex_step E M sk xs (ps, w) (ps[i := ?p], ?w)"
    using Cons.prems(2,3) Cons.hyps(2) by (intro step_recv) (auto simp: sk_recv_def split: list.splits)
  have rl: "recv_loop E M (nlmsg_seq (ex_msg (xs ! i))) (portid sk) (ex_handler (xs ! i)) s (ev # evs) = (Some r, q)"
    using Cons.prems(1) Cons.hyps(2) by simp
  show ?case
  proof (cases ?p)
    case (Left r')
    then have "r' = r \<and> q = evs" using rl by (cases ev) (auto split: sum.splits bool.splits prod.splits if_splits)
    then show ?thesis using step Left by (auto intro: ex_run.intros)
  next
    case (Waiting s')
    then have "recv_loop E M (nlmsg_seq (ex_msg (xs ! i))) (portid sk) (ex_handler (xs ! i)) s' evs = (Some r, q)"
      using rl by (cases ev) (auto split: sum.splits bool.splits prod.splits if_splits)
    with Cons.hyps(1) [of ?w s' "ps[i := Waiting s']"] Cons.prems(2) Waiting
    have "ex_run E M sk xs (ps[i := ?p], ?w) (ps[i := Left r], w\<lparr>inbox := (inbox w)(sk_handle sk := q)\<rparr>)" by simp
    with step show ?thesis by (rule run_step)
  next
    case ToSend
    then show ?thesis by (cases ev) (auto split: sum.splits prod.splits if_splits)
  qed
qed

lemma SendAndReceive_run:
  assumes "SendAndReceive E M sk (ex_msg (xs ! i)) (ex_handler (xs ! i)) (ex_init (xs ! i)) w = (Some r, w')"
    and "i < length ps" and "ps ! i = ToSend"
  shows "ex_run E M sk xs (ps, w) (ps[i := Left r], w')"
proof -
  obtain e w1 where send: "sk_send E (sk_handle sk) (ex_msg (xs ! i)) w = (e, w1)" by force
  have step: "ex_step E M sk xs (ps, w) (ps[i := on_send E (xs ! i) e], w1)"
    using assms(2,3) send by (rule step_send)
  show ?thesis
  proof (cases e)
    case (Some err)
    then show ?thesis using step send assms(1) by (auto simp: SendAndReceive_def intro: ex_run.intros)
  next
    case None
    then obtain q where q: "recv_loop E M (nlmsg_seq (ex_msg (xs ! i))) (portid sk) (ex_handler (xs ! i))
        (ex_init (xs ! i)) (inbox w1 (sk_handle sk)) = (Some r, q)"
      and w': "w' = w1\<lparr>inbox := (inbox w1)(sk_handle sk := q)\<rparr>"
      using send assms(1) by (auto simp: SendAndReceive_def split: prod.splits)
    have "ex_run E M sk xs (ps[i := Waiting (ex_init (xs ! i))], w1)
        ((ps[i := Waiting (ex_init (xs ! i))])[i := Left r], w')"
      unfolding w' using q assms(2) by (intro recv_loop_run) auto
    with step None show ?thesis by (auto intro: run_step)
  qed
qed

section \<open>Alone, a worker computes the function\<close>

text \<open>What is left to compute in a phase; no step of a worker that runs alone changes it.\<close>

fun remaining :: "os_env \<Rightarrow> mnl_lib \<Rightarrow> nl_socket \<Rightarrow> 's exchange \<Rightarrow> 's phase \<Rightarrow> world \<Rightarrow> 's res option \<times> world" where
  "remaining E M sk x ToSend w = SendAndReceive E M sk (ex_msg x) (ex_handler x) (ex_init x) w"
| "remaining E M sk x (Waiting s) w =
     (case recv_loop E M (nlmsg_seq (ex_msg x)) (portid sk) (ex_handler x) s (inbox w (sk_handle sk)) of
        (r, q) \<Rightarrow> (r, w\<lparr>inbox := (inbox w)(sk_handle sk := q)\<rparr>))"
| "remaining E M sk x (Left r) w = (Some r, w)"

lemma remaining_send:
  "sk_send E (sk_handle sk) (ex_msg x) w = (r, w') \<Longrightarrow>
   remaining E M sk x (on_send E x r) w' = remaining E M sk x ToSend w"
  by (cases r) (auto simp: SendAndReceive_def)

lemma remaining_recv:
  assumes "sk_recv (sk_handle sk) w = (Some ev, w')"
  shows "remaining E M sk x (on_recv E M (portid sk) x s ev) w' = remaining E M sk x (Waiting s) w"
proof -
  obtain q where q: "inbox w (sk_handle sk) = ev # q" "w' = w\<lparr>inbox := (inbox w)(sk_handle sk := q)\<rparr>"
    using assms by (auto simp: sk_recv_def split: list.splits)
  show ?thesis by (cases ev) (auto simp: q split: sum.splits prod.splits if_splits bool.splits)
qed

lemma ex_step_alone:
  "ex_step E M sk [x] ([p], w) c \<Longrightarrow> \<exists>p' w'. c = ([p'], w') \<and> remaining E M sk x p' w' = remaining E M sk x p w"
  by (erule ex_stepE) (auto simp: remaining_send remaining_recv simp del: remaining.simps)

lemma ex_run_alone:
  "ex_run E M sk [x] c c' \<Longrightarrow> c = ([p], w) \<Longrightarrow>
   \<exists>p' w'. c' = ([p'], w') \<and> remaining E M sk x p' w' = remaining E M sk x p w"
proof (induction arbitrary: p w rule: ex_run.induct)
  case (run_step c c' c'')
  from ex_step_alone [of E M sk x p w c'] run_step.hyps(1) run_step.prems obtain p' w' where
    "c' = ([p'], w')" "remaining E M sk x p' w' = remaining E M sk x p w" by auto
  with run_step.IH [of p' w'] show ?case by auto
qed simp

section \<open>Overlapping workers lose replies\<close>

lemma walk_msgs_foreign:
  "\<forall>r \<in> set rs. \<not> ours sq pid r \<Longrightarrow> walk_msgs E sq pid h s rs = Inr (False, s)"
  by (induction rs) (auto simp: ours_def)

lemma recv_loop_foreign:
  assumes "\<forall>b \<in> set bs. \<forall>r \<in> set (next_msgs M b). \<not> ours sq pid r"
  shows "recv_loop E M sq pid h s (map Datagram bs @ q) = recv_loop E M sq pid h s q"
  using assms by (induction bs) (auto simp: walk_msgs_foreign)

lemma stuck_waiting:
  "ps = [Waiting s, Left r] \<Longrightarrow> inbox w (sk_handle sk) = [] \<Longrightarrow> \<not> ex_step E M sk xs (ps, w) c"
  by (auto elim!: ex_stepE simp: sk_recv_def less_Suc_eq)

section \<open>Properties\<close>

text \<open>
  Run alone on the socket, one system call at a time, a worker's exchange ends exactly as
  the function \<open>SendAndReceive\<close> says: with the same result or exception, in the same state of
  the system; and the function returns nothing exactly when no run of the worker ends.
\<close>

theorem exchange_alone:
  "ex_run E M sk [x] ([ToSend], w) ([Left r], w') \<longleftrightarrow>
   SendAndReceive E M sk (ex_msg x) (ex_handler x) (ex_init x) w = (Some r, w')"
  using SendAndReceive_run [of E M sk "[x]" 0 w r w' "[ToSend]"] ex_run_alone [of E M sk x _ _ ToSend w]
  by fastforce

text \<open>
  C17: two exchanges that overlap on one socket lose a reply. When both workers have sent their
  requests and the second is first to receive, it takes the first one's reply for a foreign
  message and drops it; it completes, and the first waits for ever: nothing is left to
  receive and no step is possible. This is why calls on one client must be serialised.
\<close>

theorem overlap_loses_reply:
  assumes "inbox w (sk_handle sk) = []"
    and "kernel E w (sk_handle sk) (ex_msg a) = Inr (map Datagram bs)"
    and "sk_send E (sk_handle sk) (ex_msg a) w = (None, w1)"
    and "kernel E w1 (sk_handle sk) (ex_msg b) = Inr evs"
    and "\<forall>d \<in> set bs. \<forall>m \<in> set (next_msgs M d). rp_seq m \<noteq> nlmsg_seq (ex_msg b)"
    and "recv_loop E M (nlmsg_seq (ex_msg b)) (portid sk) (ex_handler b) (ex_init b) evs = (Some r, [])"
  shows "\<exists>w'. ex_run E M sk [a, b] ([ToSend, ToSend], w) ([Waiting (ex_init a), Left r], w')
    \<and> (\<forall>c. \<not> ex_step E M sk [a, b] ([Waiting (ex_init a), Left r], w') c)"
proof -
  have "ex_step E M sk [a, b] ([ToSend, ToSend], w) ([ToSend, ToSend][0 := on_send E ([a, b] ! 0) None], w1)"
    by (rule step_send) (use assms(3) in simp_all)
  then have 1: "ex_step E M sk [a, b] ([ToSend, ToSend], w) ([Waiting (ex_init a), ToSend], w1)" by simp
  have w1: "inbox w1 (sk_handle sk) = map Datagram bs" using assms(1-3) by (auto simp: sk_send_def)
  let ?b = "[a, b] ! 1"
  have "recv_loop E M (nlmsg_seq (ex_msg b)) (portid sk) (ex_handler b) (ex_init b) (map Datagram bs @ evs) = (Some r, [])"
    by (subst recv_loop_foreign) (use assms(5,6) in \<open>auto simp: ours_def\<close>)
  then have "\<exists>w'. SendAndReceive E M sk (ex_msg ?b) (ex_handler ?b) (ex_init ?b) w1 = (Some r, w') \<and> inbox w' (sk_handle sk) = []"
    using assms(4) w1 by (auto simp: SendAndReceive_def sk_send_def)
  then obtain w' where w': "SendAndReceive E M sk (ex_msg ?b) (ex_handler ?b) (ex_init ?b) w1 = (Some r, w')"
    "inbox w' (sk_handle sk) = []" by blast
  have "ex_run E M sk [a, b] ([Waiting (ex_init a), ToSend], w1) ([Waiting (ex_init a), Left r], w')"
    using SendAndReceive_run [OF w'(1), of "[Waiting (ex_init a), ToSend]"] by simp
  with 1 have "ex_run E M sk [a, b] ([ToSend, ToSend], w) ([Waiting (ex_init a), Left r], w')" by (rule run_step)
  then show ?thesis by (intro exI [of _ w'] conjI allI stuck_waiting [OF refl w'(2)])
qed

text \<open>Two requests, sequence numbers 1 and 2, each acknowledged by one datagram.\<close>

definition example_exchange :: "u32 \<Rightarrow> nat exchange" where
  "example_exchange sq = \<lparr>ex_msg = family_request sq, ex_handler = (\<lambda>n _. Inr (True, Suc n)), ex_init = 0\<rparr>"

definition example_sk :: nl_socket where
  "example_sk = \<lparr>sk_handle = 3, portid = 42, nl_seq = 2, wgFamilyId = 0\<rparr>"

text \<open>A datagram of the example's kernel stands for one acknowledgement and holds its sequence number.\<close>

definition ack_mnl :: mnl_lib where
  "ack_mnl = ref_mnl\<lparr>next_msgs := \<lambda>b. [\<lparr>rp_type = NLMSG_ERROR, rp_flags = 0, rp_seq = le_word b, rp_pid = 42,
     rp_payload = [0, 0, 0, 0]\<rparr>]\<rparr>"

definition seq_env :: os_env where
  "seq_env = ack_env\<lparr>kernel := \<lambda>_ _ m. Inr [Datagram (le_bytes 4 (nlmsg_seq m))]\<rparr>"

lemma example_recv:
  "recv_loop seq_env ack_mnl 1 42 (ex_handler (example_exchange 1)) 0 [Datagram (le_bytes 4 (1 :: u32))] = (Some (Inr 0), [])"
  "recv_loop seq_env ack_mnl 2 42 (ex_handler (example_exchange 2)) 0 [Datagram (le_bytes 4 (2 :: u32))] = (Some (Inr 0), [])"
  by (simp_all add: ack_mnl_def nlmsgerr_code_def peek_def NLMSG_ERROR_def le_word_le_bytes)

theorem exchange_alone_witness:
  "\<exists>w'. ex_run seq_env ack_mnl example_sk [example_exchange 1] ([ToSend], idle_world) ([Left (Inr 0)], w')"
proof -
  have "\<exists>w'. SendAndReceive seq_env ack_mnl example_sk (ex_msg (example_exchange 1)) (ex_handler (example_exchange 1))
      (ex_init (example_exchange 1)) idle_world = (Some (Inr 0), w')"
    using example_recv(1) by (simp add: SendAndReceive_def sk_send_def seq_env_def example_exchange_def example_sk_def
        family_request_def idle_world_def)
  then show ?thesis by (simp add: exchange_alone)
qed

theorem overlap_loses_reply_witness:
  "(\<exists>w'. SendAndReceive seq_env ack_mnl example_sk (family_request 1) (ex_handler (example_exchange 1)) 0 idle_world =
      (Some (Inr 0), w')) \<and>
   (\<exists>w'. ex_run seq_env ack_mnl example_sk [example_exchange 1, example_exchange 2] ([ToSend, ToSend], idle_world)
           ([Waiting 0, Left (Inr 0)], w')
      \<and> (\<forall>c. \<not> ex_step seq_env ack_mnl example_sk [example_exchange 1, example_exchange 2] ([Waiting 0, Left (Inr 0)], w') c))"
proof
  show "\<exists>w'. SendAndReceive seq_env ack_mnl example_sk (family_request 1) (ex_handler (example_exchange 1)) 0 idle_world =
      (Some (Inr 0), w')"
    using example_recv(1) by (simp add: SendAndReceive_def sk_send_def seq_env_def example_exchange_def example_sk_def
        family_request_def idle_world_def)
  have x: "ex_init (example_exchange n) = 0" "nlmsg_seq (ex_msg (example_exchange n)) = n" "portid example_sk = 42"
    "sk_handle example_sk = 3" for n by (simp_all add: example_exchange_def example_sk_def family_request_def)
  obtain w1 where w1: "sk_send seq_env 3 (ex_msg (example_exchange 1)) idle_world = (None, w1)"
    by (simp add: sk_send_def seq_env_def)
  have k: "kernel seq_env w 3 (ex_msg (example_exchange n)) = Inr [Datagram (le_bytes 4 n)]" for w n
    using x(2) [of n] by (simp add: seq_env_def)
  show "\<exists>w'. ex_run seq_env ack_mnl example_sk [example_exchange 1, example_exchange 2] ([ToSend, ToSend], idle_world)
           ([Waiting 0, Left (Inr 0)], w')
      \<and> (\<forall>c. \<not> ex_step seq_env ack_mnl example_sk [example_exchange 1, example_exchange 2] ([Waiting 0, Left (Inr 0)], w') c)"
    using overlap_loses_reply [of idle_world example_sk seq_env "example_exchange 1" "[le_bytes 4 (1 :: u32)]" w1 "example_exchange 2"
        "[Datagram (le_bytes 4 (2 :: u32))]" ack_mnl "Inr 0"] w1 k [of _ 1] k [of _ 2] example_recv(2)
    by (simp add: x idle_world_def ack_mnl_def le_word_le_bytes)
qed

end
