(* ===== verification/NlParse.thy ===== *)
theory NlParse imports Mnl WgUapi Addr begin

text \<open>
  The reply parsers of \<open>src/src/netlink/NlAttr.cpp\<close>: the callbacks that
  \<open>mnl_attr_parse\<close> and \<open>mnl_attr_parse_nested\<close> run on each attribute, and
  \<open>ParseDeviceMessage\<close>. libmnl's enumeration of the attributes in a payload is the
  parameter \<open>parse_attrs\<close>. A read past the end of a payload is \<open>Overread\<close>: the code
  checks no attribute length.
\<close>

section \<open>Reading payloads\<close>

definition attr_key :: "nlattr \<Rightarrow> key res" where
  "attr_key a = peek (nla_payload a) 0 kKeyLen"

section \<open>The callbacks\<close>

definition ParseAllowedIPAttr :: "inet_lib \<Rightarrow> allowed_ip \<Rightarrow> nlattr \<Rightarrow> allowed_ip res" where
  "ParseAllowedIPAttr L out a =
     (if nla_type a = WGALLOWEDIP_A_FAMILY then
        rbind (attr_u16 a) (\<lambda>v. Inr (out\<lparr>family := ucast v\<rparr>))
      else if nla_type a = WGALLOWEDIP_A_IPADDR then
        (if family out = of_nat AF_INET6
         then rbind (peek (nla_payload a) 0 16) (\<lambda>raw. Inr (out\<lparr>ip := ntop6 L raw\<rparr>))
         else rbind (peek (nla_payload a) 0 4) (\<lambda>raw. Inr (out\<lparr>ip := ntop4 L raw\<rparr>)))
      else if nla_type a = WGALLOWEDIP_A_CIDR_MASK then
        rbind (attr_u8 a) (\<lambda>v. Inr (out\<lparr>cidr := v\<rparr>))
      else Inr out)"

text \<open>
  \<open>wg::AllowedIP aip;\<close> leaves \<open>family\<close> and \<open>cidr\<close> uninitialised: their first values
  are whatever the stack held there, a function \<open>junk\<close> of the entries parsed before.
\<close>

definition fresh_allowed_ip :: "u8 \<times> u8 \<Rightarrow> allowed_ip" where
  "fresh_allowed_ip junk = \<lparr>ip = [], family = fst junk, cidr = snd junk\<rparr>"

definition ParseAllowedIPEntry ::
  "inet_lib \<Rightarrow> mnl_lib \<Rightarrow> (allowed_ip list \<Rightarrow> u8 \<times> u8) \<Rightarrow> allowed_ip list \<Rightarrow> nlattr \<Rightarrow> allowed_ip list res" where
  "ParseAllowedIPEntry L M junk list a =
     rbind (rfold (ParseAllowedIPAttr L) (fresh_allowed_ip (junk list)) (parse_attrs M (nla_payload a)))
       (\<lambda>aip. Inr (list @ [aip]))"

definition ParsePeerAttr ::
  "inet_lib \<Rightarrow> mnl_lib \<Rightarrow> (allowed_ip list \<Rightarrow> u8 \<times> u8) \<Rightarrow> peer \<Rightarrow> nlattr \<Rightarrow> peer res" where
  "ParsePeerAttr L M junk p a =
     (if nla_type a = WGPEER_A_PUBLIC_KEY then
        rbind (attr_key a) (\<lambda>k. Inr (p\<lparr>publicKey := k\<rparr>))
      else if nla_type a = WGPEER_A_PRESHARED_KEY then
        rbind (attr_key a) (\<lambda>k. Inr (p\<lparr>presharedKey := Some k\<rparr>))
      else if nla_type a = WGPEER_A_ENDPOINT then
        rbind (FormatEndpoint L (nla_payload a)) (\<lambda>e. Inr (p\<lparr>endpoint := Some e\<rparr>))
      else if nla_type a = WGPEER_A_PERSISTENT_KEEPALIVE_INTERVAL then
        rbind (attr_u16 a) (\<lambda>v. Inr (p\<lparr>persistentKeepaliveInterval := v\<rparr>))
      else if nla_type a = WGPEER_A_LAST_HANDSHAKE_TIME then
        rbind (attr_u64 a) (\<lambda>v. Inr (p\<lparr>lastHandshakeTimeSec := v\<rparr>))
      else if nla_type a = WGPEER_A_RX_BYTES then
        rbind (attr_u64 a) (\<lambda>v. Inr (p\<lparr>receiveBytes := v\<rparr>))
      else if nla_type a = WGPEER_A_TX_BYTES then
        rbind (attr_u64 a) (\<lambda>v. Inr (p\<lparr>transmitBytes := v\<rparr>))
      else if nla_type a = WGPEER_A_ALLOWEDIPS then
        rbind (rfold (ParseAllowedIPEntry L M junk) (allowedIPs p) (parse_attrs M (nla_payload a)))
          (\<lambda>ips. Inr (p\<lparr>allowedIPs := ips\<rparr>))
      else if nla_type a = WGPEER_A_PROTOCOL_VERSION then
        rbind (attr_u32 a) (\<lambda>v. Inr (p\<lparr>protocolVersion := v\<rparr>))
      else Inr p)"

definition parse_peer :: "inet_lib \<Rightarrow> mnl_lib \<Rightarrow> (allowed_ip list \<Rightarrow> u8 \<times> u8) \<Rightarrow> nlattr \<Rightarrow> peer res" where
  "parse_peer L M junk a = rfold (ParsePeerAttr L M junk) default_peer (parse_attrs M (nla_payload a))"

text \<open>A continuation entry repeats the last peer's key: its ranges go to that peer.\<close>

definition merge_peer :: "peer list \<Rightarrow> peer \<Rightarrow> peer list" where
  "merge_peer ps p =
     (if ps \<noteq> [] \<and> publicKey (last ps) = publicKey p
      then butlast ps @ [(last ps)\<lparr>allowedIPs := allowedIPs (last ps) @ allowedIPs p\<rparr>]
      else ps @ [p])"

definition ParsePeerEntry ::
  "inet_lib \<Rightarrow> mnl_lib \<Rightarrow> (allowed_ip list \<Rightarrow> u8 \<times> u8) \<Rightarrow> peer list \<Rightarrow> nlattr \<Rightarrow> peer list res" where
  "ParsePeerEntry L M junk ps a =
     rbind (parse_peer L M junk a) (\<lambda>p. Inr (merge_peer ps p))"

definition ParseDeviceAttr ::
  "inet_lib \<Rightarrow> mnl_lib \<Rightarrow> (allowed_ip list \<Rightarrow> u8 \<times> u8) \<Rightarrow> device \<Rightarrow> nlattr \<Rightarrow> device res" where
  "ParseDeviceAttr L M junk d a =
     (if nla_type a = WGDEVICE_A_IFNAME then
        rbind (attr_str a) (\<lambda>s. Inr (d\<lparr>dev_name := s\<rparr>))
      else if nla_type a = WGDEVICE_A_PRIVATE_KEY then
        rbind (attr_key a) (\<lambda>k. Inr (d\<lparr>privateKey := Some k\<rparr>))
      else if nla_type a = WGDEVICE_A_PUBLIC_KEY then
        rbind (attr_key a) (\<lambda>k. Inr (d\<lparr>dev_publicKey := Some k\<rparr>))
      else if nla_type a = WGDEVICE_A_LISTEN_PORT then
        rbind (attr_u16 a) (\<lambda>v. Inr (d\<lparr>listenPort := v\<rparr>))
      else if nla_type a = WGDEVICE_A_FWMARK then
        rbind (attr_u32 a) (\<lambda>v. Inr (d\<lparr>firewallMark := v\<rparr>))
      else if nla_type a = WGDEVICE_A_PEERS then
        rbind (rfold (ParsePeerEntry L M junk) (peers d) (parse_attrs M (nla_payload a)))
          (\<lambda>ps. Inr (d\<lparr>peers := ps\<rparr>))
      else Inr d)"

text \<open>
  \<open>mnl_attr_parse(nlh, sizeof(struct genlmsghdr), ...)\<close>: the attributes after the 4-byte
  generic-netlink header of the message payload.
\<close>

definition ParseDeviceMessage ::
  "inet_lib \<Rightarrow> mnl_lib \<Rightarrow> (allowed_ip list \<Rightarrow> u8 \<times> u8) \<Rightarrow> bytes \<Rightarrow> device \<Rightarrow> device res" where
  "ParseDeviceMessage L M junk payload outDevice =
     rfold (ParseDeviceAttr L M junk) outDevice (parse_attrs M (drop 4 payload))"

section \<open>A dump split over entries and messages\<close>

lemma ParsePeerEntry_rfold:
  "rfold (ParsePeerEntry L M junk) ps as =
   rbind (rmap (parse_peer L M junk) as) (\<lambda>qs. Inr (foldl merge_peer ps qs))"
  by (induction as arbitrary: ps) (auto simp: ParsePeerEntry_def rbind_assoc intro: rbind_cong)

lemma ParseDeviceMessage_rfold:
  "rfold (\<lambda>d m. ParseDeviceMessage L M junk m d) d ms =
   rfold (ParseDeviceAttr L M junk) d (concat (map (\<lambda>m. parse_attrs M (drop 4 m)) ms))"
  by (induction ms arbitrary: d) (simp_all add: ParseDeviceMessage_def rfold_append)

text \<open>The peer entries of a list of device attributes, in order.\<close>

definition peer_entries :: "mnl_lib \<Rightarrow> nlattr list \<Rightarrow> nlattr list" where
  "peer_entries M as =
     concat (map (\<lambda>a. parse_attrs M (nla_payload a)) (filter (\<lambda>a. nla_type a = WGDEVICE_A_PEERS) as))"

lemma peer_entries_simps:
  "peer_entries M [] = []"
  "peer_entries M (a # as) =
     (if nla_type a = WGDEVICE_A_PEERS then parse_attrs M (nla_payload a) else []) @ peer_entries M as"
  by (simp_all add: peer_entries_def)

lemma ParseDeviceAttr_peers:
  "ParseDeviceAttr L M junk d a = Inr d' \<Longrightarrow>
   (if nla_type a = WGDEVICE_A_PEERS
    then rfold (ParsePeerEntry L M junk) (peers d) (parse_attrs M (nla_payload a)) = Inr (peers d')
    else peers d' = peers d)"
  by (auto simp: ParseDeviceAttr_def rbind_Inr_iff wgdevice_attr_defs split: if_splits)

lemma rfold_device_peers:
  "rfold (ParseDeviceAttr L M junk) d as = Inr d' \<Longrightarrow>
   rfold (ParsePeerEntry L M junk) (peers d) (peer_entries M as) = Inr (peers d')"
proof (induction as arbitrary: d)
  case (Cons a as)
  then obtain u where u: "ParseDeviceAttr L M junk d a = Inr u"
    "rfold (ParseDeviceAttr L M junk) u as = Inr d'" by (auto simp: rbind_Inr_iff)
  from ParseDeviceAttr_peers [OF u(1)] Cons.IH [OF u(2)] show ?case
    by (auto simp: peer_entries_simps rfold_append split: if_splits)
qed (simp add: peer_entries_simps)

text \<open>
  \<open>carries p es\<close>: the entries \<open>es\<close> are how the kernel sends the peer \<open>p\<close>: a first entry with
  all its fields and the first part of its ranges, then continuation entries that repeat
  its key with further ranges.
\<close>

definition carries :: "peer \<Rightarrow> peer list \<Rightarrow> bool" where
  "carries p es \<longleftrightarrow> es \<noteq> [] \<and> hd es = p\<lparr>allowedIPs := allowedIPs (hd es)\<rparr> \<and>
     (\<forall>e \<in> set es. publicKey e = publicKey p) \<and> concat (map allowedIPs es) = allowedIPs p"

lemma foldl_merge_same:
  "\<forall>e \<in> set es. publicKey e = publicKey q \<Longrightarrow>
   foldl merge_peer (ps @ [q]) es = ps @ [q\<lparr>allowedIPs := allowedIPs q @ concat (map allowedIPs es)\<rparr>]"
proof (induction es arbitrary: q)
  case (Cons e es)
  let ?q = "q\<lparr>allowedIPs := allowedIPs q @ allowedIPs e\<rparr>"
  have k: "publicKey q = publicKey e" using Cons.prems by simp
  have "merge_peer (ps @ [q]) e = ps @ [?q]"
    unfolding merge_peer_def using k by simp
  moreover have "foldl merge_peer (ps @ [?q]) es = ps @ [?q\<lparr>allowedIPs := allowedIPs ?q @ concat (map allowedIPs es)\<rparr>]"
    by (rule Cons.IH) (use Cons.prems in simp)
  ultimately show ?case by simp
qed simp

lemma carries_merge:
  assumes "carries p es" and "ps = [] \<or> publicKey (last ps) \<noteq> publicKey p"
  shows "foldl merge_peer ps es = ps @ [p]"
proof -
  from assms(1) obtain e es' where es: "es = e # es'" and e: "e = p\<lparr>allowedIPs := allowedIPs e\<rparr>"
    and keys: "publicKey e = publicKey p" "\<forall>x \<in> set es'. publicKey x = publicKey p"
    and ips: "allowedIPs e @ concat (map allowedIPs es') = allowedIPs p"
    by (cases es) (auto simp: carries_def)
  have "foldl merge_peer ps es = foldl merge_peer (ps @ [e]) es'"
    using assms(2) keys(1) by (auto simp: es merge_peer_def)
  also have "\<dots> = ps @ [e\<lparr>allowedIPs := allowedIPs p\<rparr>]"
    using foldl_merge_same [of es' e ps] keys ips by simp
  also have "e\<lparr>allowedIPs := allowedIPs p\<rparr> = p" by (subst e) simp
  finally show ?thesis .
qed

lemma foldl_merge_carries:
  assumes "list_all2 carries qs ess" and "distinct_adj (map publicKey qs)"
    and "ps = [] \<or> qs = [] \<or> publicKey (last ps) \<noteq> publicKey (hd qs)"
  shows "foldl merge_peer ps (concat ess) = ps @ qs"
  using assms
proof (induction qs ess arbitrary: ps rule: list_all2_induct)
  case (Cons q qs es ess)
  have "foldl merge_peer ps es = ps @ [q]" by (rule carries_merge) (use Cons in auto)
  moreover have "foldl merge_peer (ps @ [q]) (concat ess) = (ps @ [q]) @ qs"
    by (rule Cons.IH) (use Cons.prems(1) in \<open>cases qs; simp\<close>)+
  ultimately show ?case by simp
qed simp

section \<open>When the result does not depend on uninitialised memory\<close>

definition has_type :: "u16 \<Rightarrow> nlattr list \<Rightarrow> bool" where
  "has_type t as \<longleftrightarrow> (\<exists>a \<in> set as. nla_type a = t)"

text \<open>The kernel's order: the family first, and a mask somewhere.\<close>

definition family_first :: "nlattr list \<Rightarrow> bool" where
  "family_first as \<longleftrightarrow> as \<noteq> [] \<and> nla_type (hd as) = WGALLOWEDIP_A_FAMILY \<and> has_type WGALLOWEDIP_A_CIDR_MASK as"

lemma ParseAllowedIPAttr_cidr:
  "nla_type a \<noteq> WGALLOWEDIP_A_CIDR_MASK \<Longrightarrow>
   ParseAllowedIPAttr L (x\<lparr>cidr := c\<rparr>) a = map_sum id (\<lambda>y. y\<lparr>cidr := c\<rparr>) (ParseAllowedIPAttr L x a)"
  by (cases "peek (nla_payload a) 0 16"; cases "peek (nla_payload a) 0 4"; cases "attr_u16 a")
    (auto simp: ParseAllowedIPAttr_def)

lemma ParseAllowedIPAttr_mask:
  "nla_type a = WGALLOWEDIP_A_CIDR_MASK \<Longrightarrow> ParseAllowedIPAttr L (x\<lparr>cidr := c\<rparr>) a = ParseAllowedIPAttr L x a"
  by (cases "attr_u8 a") (auto simp: ParseAllowedIPAttr_def wgallowedip_attr_defs)

lemma rfold_cidr_irrelevant:
  "has_type WGALLOWEDIP_A_CIDR_MASK as \<Longrightarrow>
   rfold (ParseAllowedIPAttr L) (x\<lparr>cidr := c\<rparr>) as = rfold (ParseAllowedIPAttr L) x as"
proof (induction as arbitrary: x)
  case (Cons a as)
  show ?case
  proof (cases "nla_type a = WGALLOWEDIP_A_CIDR_MASK")
    case False
    with Cons.prems have "has_type WGALLOWEDIP_A_CIDR_MASK as" by (simp add: has_type_def)
    with False Cons.IH show ?thesis
      by (cases "ParseAllowedIPAttr L x a") (simp_all add: ParseAllowedIPAttr_cidr)
  qed (simp add: ParseAllowedIPAttr_mask)
qed (simp add: has_type_def)

lemma ParseAllowedIPEntry_junk:
  assumes "family_first (parse_attrs M (nla_payload a))"
  shows "ParseAllowedIPEntry L M junk list a = ParseAllowedIPEntry L M junk' list a"
proof -
  obtain b bs where as: "parse_attrs M (nla_payload a) = b # bs" and b: "nla_type b = WGALLOWEDIP_A_FAMILY"
    and mask: "has_type WGALLOWEDIP_A_CIDR_MASK bs"
    using assms by (cases "parse_attrs M (nla_payload a)")
      (auto simp: family_first_def has_type_def wgallowedip_attr_defs)
  have "rfold (ParseAllowedIPAttr L) (fresh_allowed_ip j) (b # bs) =
      rbind (attr_u16 b) (\<lambda>v. rfold (ParseAllowedIPAttr L) \<lparr>ip = [], family = ucast v, cidr = 0\<rparr> bs)" for j
  proof -
    have "rfold (ParseAllowedIPAttr L) \<lparr>ip = [], family = ucast v, cidr = c\<rparr> bs =
        rfold (ParseAllowedIPAttr L) \<lparr>ip = [], family = ucast v, cidr = 0\<rparr> bs" for v :: u16 and c
      using rfold_cidr_irrelevant [OF mask, where x = "\<lparr>ip = [], family = ucast v, cidr = 0\<rparr>" and c = c] by simp
    then show ?thesis
      using b by (cases "attr_u16 b") (simp_all add: ParseAllowedIPAttr_def fresh_allowed_ip_def)
  qed
  then show ?thesis by (simp add: ParseAllowedIPEntry_def as)
qed

section \<open>Properties\<close>

text \<open>
  C6: a device dump that spreads a peer over several entries, and its peers over several
  messages, is put together again: when every peer is sent as a first entry with all its
  fields and continuation entries that repeat its key with further ranges, and neighbouring
  peers have different keys, the parsed device has exactly those peers, each with all its
  ranges in order.
\<close>

theorem dump_reassembles_peers:
  assumes "rfold (\<lambda>d m. ParseDeviceMessage L M junk m d) d0 ms = Inr d" and "peers d0 = []"
    and "rmap (parse_peer L M junk) (peer_entries M (concat (map (\<lambda>m. parse_attrs M (drop 4 m)) ms))) = Inr (concat ess)"
    and "list_all2 carries ps ess" and "distinct_adj (map publicKey ps)"
  shows "peers d = ps"
proof -
  have "rfold (ParsePeerEntry L M junk) [] (peer_entries M (concat (map (\<lambda>m. parse_attrs M (drop 4 m)) ms))) =
      Inr (peers d)"
    using rfold_device_peers [of L M junk d0 _ d] assms(1,2) by (simp add: ParseDeviceMessage_rfold)
  then have "peers d = foldl merge_peer [] (concat ess)" using assms(3) by (simp add: ParsePeerEntry_rfold)
  also have "\<dots> = ps" using foldl_merge_carries [OF assms(4,5), of "[]"] by simp
  finally show ?thesis .
qed

text \<open>A dump of one peer in two messages: its key and no range, then its key again.\<close>

definition one_byte_key :: key where
  "one_byte_key = replicate 32 1"

definition split_dump :: "bytes list" where
  "split_dump =
     [[0, 1, 0, 0] @ enc_attrs [Nest WGDEVICE_A_PEERS [Nest 0 [Leaf WGPEER_A_PUBLIC_KEY one_byte_key]]],
      [0, 1, 0, 0] @ enc_attrs [Nest WGDEVICE_A_PEERS [Nest 0 [Leaf WGPEER_A_PUBLIC_KEY one_byte_key]]]]"

theorem dump_reassembles_peers_witness:
  "\<exists>d. rfold (\<lambda>d m. ParseDeviceMessage ref_inet ref_mnl (\<lambda>_. (0, 0)) m d) default_device split_dump = Inr d
    \<and> peers d = [default_peer\<lparr>publicKey := one_byte_key\<rparr>]"
proof -
  let ?key = "Leaf WGPEER_A_PUBLIC_KEY one_byte_key"
  let ?p = "default_peer\<lparr>publicKey := one_byte_key\<rparr>"
  have len: "length one_byte_key = 32" by (simp add: one_byte_key_def)
  have small: "attr_fits ?key" "attr_fits (Nest 0 [?key])" "attr_fits (Nest WGDEVICE_A_PEERS [Nest 0 [?key]])"
    by (simp_all add: len enc_attrs_def align4_def Let_def WGPEER_A_PUBLIC_KEY_def WGDEVICE_A_PEERS_def)
  have parse: "list_all attr_fits ts \<Longrightarrow> parse_attrs ref_mnl (enc_attrs ts) = map nlattr_of ts" for ts
    using mnl_parse_ok_ref by (simp add: mnl_parse_ok_def)
  have pk: "parse_attrs ref_mnl (enc_attrs [?key]) = [\<lparr>nla_type = WGPEER_A_PUBLIC_KEY, nla_payload = one_byte_key\<rparr>]"
    using parse [of "[?key]"] small by simp
  have entry: "parse_attrs ref_mnl (enc_attrs [Nest 0 [?key]]) = [\<lparr>nla_type = 0, nla_payload = enc_attrs [?key]\<rparr>]"
    using parse [of "[Nest 0 [?key]]"] small by simp
  have dev: "parse_attrs ref_mnl (enc_attrs [Nest WGDEVICE_A_PEERS [Nest 0 [?key]]]) =
      [\<lparr>nla_type = WGDEVICE_A_PEERS, nla_payload = enc_attrs [Nest 0 [?key]]\<rparr>]"
    using parse [of "[Nest WGDEVICE_A_PEERS [Nest 0 [?key]]]"] small by simp
  have peer: "parse_peer ref_inet ref_mnl (\<lambda>_. (0, 0)) \<lparr>nla_type = 0, nla_payload = enc_attrs [?key]\<rparr> = Inr ?p"
    by (simp add: parse_peer_def pk ParsePeerAttr_def attr_key_def peek_def kKeyLen_def len)
  have attrs: "concat (map (\<lambda>m. parse_attrs ref_mnl (drop 4 m)) split_dump) =
      [\<lparr>nla_type = WGDEVICE_A_PEERS, nla_payload = enc_attrs [Nest 0 [?key]]\<rparr>,
       \<lparr>nla_type = WGDEVICE_A_PEERS, nla_payload = enc_attrs [Nest 0 [?key]]\<rparr>]"
    by (simp add: split_dump_def dev)
  obtain d where d: "rfold (\<lambda>d m. ParseDeviceMessage ref_inet ref_mnl (\<lambda>_. (0, 0)) m d) default_device split_dump = Inr d"
    unfolding ParseDeviceMessage_rfold attrs
    by (simp add: ParseDeviceAttr_def wgdevice_attr_defs entry ParsePeerEntry_def peer)
  have "peers d = [?p]"
    by (rule dump_reassembles_peers [OF d, of "[[?p, ?p]]"])
      (simp_all add: attrs peer_entries_def entry peer carries_def default_device_def default_peer_def)
  with d show ?thesis by blast
qed

text \<open>
  An allowed-IP entry whose first attribute is the family and that has a mask is parsed to
  the same range whatever the uninitialised \<open>family\<close> and \<open>cidr\<close> fields held before.
\<close>

theorem allowed_ip_entry_ignores_junk:
  assumes "family_first (parse_attrs M (nla_payload a))"
  shows "ParseAllowedIPEntry L M junk ips a = ParseAllowedIPEntry L M junk' ips a"
  using assms by (rule ParseAllowedIPEntry_junk)

theorem allowed_ip_entry_ignores_junk_witness:
  "ParseAllowedIPEntry ref_inet ref_mnl (\<lambda>_. (1, 2)) []
     \<lparr>nla_type = 0, nla_payload = enc_attrs [Leaf WGALLOWEDIP_A_FAMILY [2, 0], Leaf WGALLOWEDIP_A_CIDR_MASK [24]]\<rparr> =
   ParseAllowedIPEntry ref_inet ref_mnl (\<lambda>_. (3, 4)) []
     \<lparr>nla_type = 0, nla_payload = enc_attrs [Leaf WGALLOWEDIP_A_FAMILY [2, 0], Leaf WGALLOWEDIP_A_CIDR_MASK [24]]\<rparr>"
proof (rule allowed_ip_entry_ignores_junk)
  let ?ts = "[Leaf WGALLOWEDIP_A_FAMILY [2, 0], Leaf WGALLOWEDIP_A_CIDR_MASK [24]]"
  have "parse_attrs ref_mnl (enc_attrs ?ts) = map nlattr_of ?ts"
    using mnl_parse_ok_ref by (simp add: mnl_parse_ok_def wgallowedip_attr_defs)
  then show "family_first (parse_attrs ref_mnl (nla_payload \<lparr>nla_type = 0, nla_payload = enc_attrs ?ts\<rparr>))"
    by (simp add: family_first_def has_type_def)
qed

end
