(* ===== verification/RtLink.thy ===== *)
theory RtLink imports Os NlBuild begin

text \<open>
  \<open>src/src/netlink/RtLink.cpp\<close>: creating, deleting and raising links and assigning
  addresses, each with one request on a short-lived \<open>NETLINK_ROUTE\<close> socket, and listing the
  kernel's WireGuard interfaces. Each operation is an interpretation of \<open>guarded_op\<close>.
\<close>

definition RTM_NEWLINK :: u16 where "RTM_NEWLINK = 16"
definition RTM_DELLINK :: u16 where "RTM_DELLINK = 17"
definition RTM_NEWADDR :: u16 where "RTM_NEWADDR = 20"
definition RTM_DELADDR :: u16 where "RTM_DELADDR = 21"
definition NLM_F_REPLACE :: u16 where "NLM_F_REPLACE = 0x100"
definition NLM_F_EXCL :: u16 where "NLM_F_EXCL = 0x200"
definition NLM_F_CREATE :: u16 where "NLM_F_CREATE = 0x400"
definition IFLA_IFNAME :: u16 where "IFLA_IFNAME = 3"
definition IFLA_LINKINFO :: u16 where "IFLA_LINKINFO = 18"
definition IFLA_INFO_KIND :: u16 where "IFLA_INFO_KIND = 1"
definition IFA_ADDRESS :: u16 where "IFA_ADDRESS = 1"
definition IFA_LOCAL :: u16 where "IFA_LOCAL = 2"
definition IFF_UP :: u32 where "IFF_UP = 1"
definition AF_UNSPEC :: u8 where "AF_UNSPEC = 0"

section \<open>One request, one reply\<close>

text \<open>
  The reply is read through a zero-filled buffer of \<open>MNL_SOCKET_BUFFER_SIZE\<close> bytes: a short
  or empty datagram leaves zeros in the header.
\<close>

definition recv_buffer :: "mnl_lib \<Rightarrow> recv \<Rightarrow> bytes" where
  "recv_buffer M ev =
     (case ev of Datagram b \<Rightarrow> take (socket_buffer_size M) (b @ replicate (socket_buffer_size M) 0)
      | _ \<Rightarrow> replicate (socket_buffer_size M) 0)"

definition reply_hdr :: "bytes \<Rightarrow> nlreply" where
  "reply_hdr buf =
     \<lparr>rp_type = le_word (take 2 (drop 4 buf)), rp_flags = le_word (take 2 (drop 6 buf)),
      rp_seq = le_word (take 4 (drop 8 buf)), rp_pid = le_word (take 4 (drop 12 buf)),
      rp_payload = drop 16 buf\<rparr>"

text \<open>
  \<open>errno\<close> is read after \<open>mnl_socket_close\<close> when the receive failed; closing is taken to
  leave it alone.
\<close>

definition check_rt_reply :: "os_env \<Rightarrow> u32 \<Rightarrow> u32 \<Rightarrow> nlreply \<Rightarrow> unit res" where
  "check_rt_reply E sq pid r =
     (if rp_seq r \<noteq> sq \<or> rp_pid r \<noteq> pid then
        Inl (SystemError EIO ''unexpected netlink reply (seq/pid mismatch)'')
      else if rp_type r = NLMSG_ERROR then
        rbind (nlmsgerr_code (rp_payload r)) (\<lambda>err.
          if err \<noteq> 0 then Inl (sys_error E ''rtnetlink error: '' (- err)) else Inr ())
      else Inr ())"

definition SendRtRequestAndWaitAck ::
  "os_env \<Rightarrow> mnl_lib \<Rightarrow> nlmsg \<Rightarrow> world \<Rightarrow> unit res option \<times> world" where
  "SendRtRequestAndWaitAck E M nlh w =
     (case sk_open E w of
        (Inl e, w1) \<Rightarrow> (Some (Inl (sys_error E ''mnl_socket_open: '' e)), w1)
      | (Inr sock, w1) \<Rightarrow>
      (case sock_bind E w1 sock of
         Some e \<Rightarrow> (Some (Inl (sys_error E ''mnl_socket_bind: '' e)), sk_close sock w1)
       | None \<Rightarrow>
      (case sk_send E sock nlh w1 of
         (Some e, w2) \<Rightarrow> (Some (Inl (sys_error E ''mnl_socket_sendto: '' e)), sk_close sock w2)
       | (None, w2) \<Rightarrow>
      (case sk_recv sock w2 of
         (None, w3) \<Rightarrow> (None, w3)
       | (Some ev, w3) \<Rightarrow>
           ((case ev of
               RecvErr e \<Rightarrow> Some (Inl (sys_error E ''mnl_socket_recvfrom: '' e))
             | _ \<Rightarrow> Some (check_rt_reply E (nlmsg_seq nlh) (sock_portid E sock) (reply_hdr (recv_buffer M ev)))),
            sk_close sock w3)))))"

section \<open>Links\<close>

definition throws :: "error \<Rightarrow> 'a res option" where
  "throws e = Some (Inl e)"

definition link_msg :: "world \<Rightarrow> os_env \<Rightarrow> u16 \<Rightarrow> u16 \<Rightarrow> extra_hdr \<Rightarrow> mnl_calls \<Rightarrow> nlmsg" where
  "link_msg w E t fl hdr cs =
     \<lparr>nlmsg_type = t, nlmsg_flags = fl, nlmsg_seq = time_now E w, nlmsg_extra = hdr, nlmsg_calls = cs\<rparr>"

definition create_link_calls :: "string \<Rightarrow> mnl_calls" where
  "create_link_calls name =
     (let cs1 = put [] (AttrPutStrz IFLA_IFNAME (c_str name));
          (cs2, linkinfo) = nest_start cs1 IFLA_LINKINFO;
          cs3 = put cs2 (AttrPutStrz IFLA_INFO_KIND ''wireguard'')
      in nest_end cs3 linkinfo)"

definition CreateWireGuardLink ::
  "os_env \<Rightarrow> mnl_lib \<Rightarrow> string \<Rightarrow> world \<Rightarrow> unit res option \<times> world" where
  "CreateWireGuardLink E M name w =
     (case ValidateIfName name of
        Inl e \<Rightarrow> (throws e, w)
      | Inr _ \<Rightarrow>
          if name_to_index E w (c_str name) \<noteq> 0
          then (throws (SystemError EEXIST (''interface already exists: '' @ name)), w)
          else SendRtRequestAndWaitAck E M
                 (link_msg w E RTM_NEWLINK (NLM_F_REQUEST OR NLM_F_ACK OR NLM_F_CREATE OR NLM_F_EXCL)
                    (IfInfo AF_UNSPEC 0 0 0xFFFFFFFF) (create_link_calls name)) w)"

definition no_such_interface :: "string \<Rightarrow> error" where
  "no_such_interface name = SystemError ENODEV (''no such interface: '' @ name)"

definition DeleteLink :: "os_env \<Rightarrow> mnl_lib \<Rightarrow> string \<Rightarrow> world \<Rightarrow> unit res option \<times> world" where
  "DeleteLink E M name w =
     (case ValidateIfName name of
        Inl e \<Rightarrow> (throws e, w)
      | Inr _ \<Rightarrow>
          let ifindex = name_to_index E w (c_str name) in
          if ifindex = 0 then (throws (no_such_interface name), w)
          else SendRtRequestAndWaitAck E M
                 (link_msg w E RTM_DELLINK (NLM_F_REQUEST OR NLM_F_ACK) (IfInfo AF_UNSPEC ifindex 0 0) []) w)"

definition SetLinkUp :: "os_env \<Rightarrow> mnl_lib \<Rightarrow> bool \<Rightarrow> string \<Rightarrow> world \<Rightarrow> unit res option \<times> world" where
  "SetLinkUp E M up name w =
     (case ValidateIfName name of
        Inl e \<Rightarrow> (throws e, w)
      | Inr _ \<Rightarrow>
          let ifindex = name_to_index E w (c_str name) in
          if ifindex = 0 then (throws (no_such_interface name), w)
          else SendRtRequestAndWaitAck E M
                 (link_msg w E RTM_NEWLINK (NLM_F_REQUEST OR NLM_F_ACK)
                    (IfInfo AF_UNSPEC ifindex (if up then IFF_UP else 0) IFF_UP) []) w)"

section \<open>Addresses\<close>

definition local_addr_bytes :: "inet_lib \<Rightarrow> allowed_ip \<Rightarrow> bytes" where
  "local_addr_bytes L addr =
     (if family addr = of_nat AF_INET6
      then (case pton6 L (c_str (ip addr)) of Some b \<Rightarrow> b | None \<Rightarrow> replicate 16 0)
      else (case pton4 L (c_str (ip addr)) of Some b \<Rightarrow> b | None \<Rightarrow> replicate 4 0))"

definition BuildAddrRequest ::
  "inet_lib \<Rightarrow> os_env \<Rightarrow> world \<Rightarrow> u16 \<Rightarrow> u16 \<Rightarrow> u32 \<Rightarrow> allowed_ip \<Rightarrow> nlmsg" where
  "BuildAddrRequest L E w msgType flags ifindex addr =
     (let raw = local_addr_bytes L addr in
      link_msg w E msgType flags (IfAddr (family addr) (cidr addr) 0 0 ifindex)
        (put (put [] (AttrPut IFA_LOCAL raw)) (AttrPut IFA_ADDRESS raw)))"

definition address_op ::
  "u16 \<Rightarrow> u16 \<Rightarrow> inet_lib \<Rightarrow> os_env \<Rightarrow> mnl_lib \<Rightarrow> string \<Rightarrow> string \<Rightarrow> world \<Rightarrow> unit res option \<times> world" where
  "address_op msgType flags L E M cidr_s name w =
     (case ValidateIfName name of
        Inl e \<Rightarrow> (throws e, w)
      | Inr _ \<Rightarrow>
          let ifindex = name_to_index E w (c_str name) in
          if ifindex = 0 then (throws (no_such_interface name), w)
          else (case ParseCIDR L cidr_s of
                  Inl e \<Rightarrow> (throws e, w)
                | Inr addr \<Rightarrow>
                    SendRtRequestAndWaitAck E M (BuildAddrRequest L E w msgType flags ifindex addr) w))"

definition AddAddress ::
  "inet_lib \<Rightarrow> os_env \<Rightarrow> mnl_lib \<Rightarrow> string \<Rightarrow> string \<Rightarrow> world \<Rightarrow> unit res option \<times> world" where
  "AddAddress = address_op RTM_NEWADDR (NLM_F_REQUEST OR NLM_F_ACK OR NLM_F_CREATE OR NLM_F_REPLACE)"

definition DeleteAddress ::
  "inet_lib \<Rightarrow> os_env \<Rightarrow> mnl_lib \<Rightarrow> string \<Rightarrow> string \<Rightarrow> world \<Rightarrow> unit res option \<times> world" where
  "DeleteAddress = address_op RTM_DELADDR (NLM_F_REQUEST OR NLM_F_ACK)"

section \<open>Listing\<close>

definition sys_class_net :: string where "sys_class_net = ''/sys/class/net''"

definition ListWireGuardInterfaceNames :: "os_env \<Rightarrow> world \<Rightarrow> string list res" where
  "ListWireGuardInterfaceNames E w =
     (case open_dir E w sys_class_net of
        Inl e \<Rightarrow> Inl (sys_error E ''opendir(/sys/class/net): '' e)
      | Inr entries \<Rightarrow>
          Inr (foldl (\<lambda>names name.
                 if name = ''.'' \<or> name = ''..'' then names
                 else if stat_ok E w (''/sys/class/net/'' @ name @ ''/wireguard'') then names @ [name]
                 else names) [] entries))"

section \<open>Every operation is guarded by the name check\<close>

interpretation create: guarded_op "CreateWireGuardLink E M" throws
  by unfold_locales (simp add: CreateWireGuardLink_def)

interpretation delete: guarded_op "DeleteLink E M" throws
  by unfold_locales (simp add: DeleteLink_def)

interpretation up: guarded_op "SetLinkUp E M up" throws
  by unfold_locales (simp add: SetLinkUp_def)

interpretation add_addr: guarded_op "AddAddress L E M cidr_s" throws
  by unfold_locales (simp add: AddAddress_def address_op_def)

interpretation del_addr: guarded_op "DeleteAddress L E M cidr_s" throws
  by unfold_locales (simp add: DeleteAddress_def address_op_def)

section \<open>Facts about the exchange\<close>

text \<open>Once the call returns, the socket it opened is closed, whatever happened.\<close>

lemma SendRtRequestAndWaitAck_closes:
  "SendRtRequestAndWaitAck E M m w = (Some r, w') \<Longrightarrow> open_socks w' = open_socks w"
  by (auto simp: SendRtRequestAndWaitAck_def sk_open_def sk_send_def sk_recv_def sk_close_def
      split: sum.splits option.splits prod.splits list.splits)

lemma SendRtRequestAndWaitAck_sent:
  "SendRtRequestAndWaitAck E M m w = (r, w') \<Longrightarrow> sent w' = sent w \<or> (\<exists>h. sent w' = sent w @ [(h, m)])"
  by (auto simp: SendRtRequestAndWaitAck_def sk_open_def sk_send_def sk_recv_def sk_close_def
      split: sum.splits option.splits prod.splits list.splits)

lemma SendRtRequestAndWaitAck_success:
  "SendRtRequestAndWaitAck E M m w = (Some (Inr ()), w') \<Longrightarrow> \<exists>h. sent w' = sent w @ [(h, m)]"
  by (auto simp: SendRtRequestAndWaitAck_def sk_open_def sk_send_def sk_recv_def sk_close_def
      split: sum.splits option.splits prod.splits list.splits)

lemma check_rt_reply_Inr:
  "check_rt_reply E sq pid r = Inr () \<longleftrightarrow>
     rp_seq r = sq \<and> rp_pid r = pid \<and> (rp_type r = NLMSG_ERROR \<longrightarrow> nlmsgerr_code (rp_payload r) = Inr 0)"
  by (auto simp: check_rt_reply_def res_elims)

text \<open>The socket is new: the first thing received on it is the first the kernel answers.\<close>

lemma SendRt_answered:
  assumes "sk_open E w = (Inr h, w1)" and "sock_bind E w1 h = None" and "kernel E w1 h m = Inr (ev # q)"
  shows "\<exists>w'. SendRtRequestAndWaitAck E M m w =
      (Some (case ev of RecvErr e \<Rightarrow> Inl (sys_error E ''mnl_socket_recvfrom: '' e)
        | _ \<Rightarrow> check_rt_reply E (nlmsg_seq m) (sock_portid E h) (reply_hdr (recv_buffer M ev))), w')
    \<and> sent w' = sent w @ [(h, m)]"
proof -
  have "inbox w1 h = [] \<and> sent w1 = sent w" using assms(1) by (auto simp: sk_open_def split: sum.splits)
  then show ?thesis
    using assms by (cases ev) (simp_all add: SendRtRequestAndWaitAck_def sk_send_def sk_recv_def)
qed

lemma SendRt_success_iff:
  assumes "SendRtRequestAndWaitAck E M m w = (Some r, w')"
  shows "r = Inr () \<longleftrightarrow> (\<exists>h w1 ev q. sk_open E w = (Inr h, w1) \<and> sock_bind E w1 h = None
    \<and> kernel E w1 h m = Inr (ev # q) \<and> (\<forall>e. ev \<noteq> RecvErr e)
    \<and> check_rt_reply E (nlmsg_seq m) (sock_portid E h) (reply_hdr (recv_buffer M ev)) = Inr ())"
  (is "_ \<longleftrightarrow> ?accepted")
proof
  assume "r = Inr ()"
  with assms show ?accepted
    by (auto simp: SendRtRequestAndWaitAck_def sk_open_def sk_send_def sk_recv_def
        split: sum.splits option.splits list.splits recv.splits)
next
  assume ?accepted
  then obtain h w1 ev q where a: "sk_open E w = (Inr h, w1)" "sock_bind E w1 h = None" "kernel E w1 h m = Inr (ev # q)"
    "\<forall>e. ev \<noteq> RecvErr e" "check_rt_reply E (nlmsg_seq m) (sock_portid E h) (reply_hdr (recv_buffer M ev)) = Inr ()" by blast
  from SendRt_answered [OF a(1-3), of M] a(4,5) assms show "r = Inr ()" by (cases ev) auto
qed

lemma SendRt_failures:
  assumes "SendRtRequestAndWaitAck E M m w = (Some r, w')" and "sk_open E w = (Inr h, w1)"
    and "sock_bind E w1 h = None" and "kernel E w1 h m = Inr (ev # q)" and "\<forall>e. ev \<noteq> RecvErr e"
    and "rp = reply_hdr (recv_buffer M ev)"
  shows "sent w' = sent w @ [(h, m)]
    \<and> (rp_seq rp \<noteq> nlmsg_seq m \<or> rp_pid rp \<noteq> sock_portid E h \<longrightarrow> (\<exists>msg. r = Inl (SystemError EIO msg)))
    \<and> (\<forall>e. rp_seq rp = nlmsg_seq m \<and> rp_pid rp = sock_portid E h \<and> rp_type rp = NLMSG_ERROR
         \<and> nlmsgerr_code (rp_payload rp) = Inr e \<and> e \<noteq> 0 \<longrightarrow>
         r = Inl (SystemError (- e) (''rtnetlink error: '' @ str_error E (- e))))"
proof -
  have "r = check_rt_reply E (nlmsg_seq m) (sock_portid E h) rp \<and> sent w' = sent w @ [(h, m)]"
    using SendRt_answered [OF assms(2-4), of M] assms(1,5,6) by (cases ev) auto
  then show ?thesis by (auto simp: check_rt_reply_def sys_error_def)
qed

lemma create_link_calls_attrs:
  "valid_ifname name \<Longrightarrow> msg_attrs (create_link_calls name) =
   Some [Leaf IFLA_IFNAME (str_bytes name @ [0]),
         Nest IFLA_LINKINFO [Leaf IFLA_INFO_KIND (str_bytes ''wireguard'' @ [0])]]"
  by (simp add: create_link_calls_def msg_attrs_def put_def nest_start_def nest_end_def valid_ifname_c_str)

lemma length_local_addr: "inet_ok L \<Longrightarrow> length (local_addr_bytes L a) \<le> 16"
  by (auto simp: local_addr_bytes_def inet_ok_def split: option.splits)

text \<open>Every request fits the buffer it is built in.\<close>

lemma addr_request_fits:
  assumes "mnl_ok M" and "inet_ok L"
  shows "msg_len M (BuildAddrRequest L E w t fl i a) \<le> 64"
  using align4_mono [OF length_local_addr [OF assms(2), of a]]
  by (simp add: BuildAddrRequest_def link_msg_def msg_len_def put_def Let_def mnl_ok_simps [OF assms(1)])
    (simp add: align4_def)

lemma create_request_fits:
  assumes "mnl_ok M" and "valid_ifname name"
  shows "msg_len M (link_msg w E t fl (IfInfo f i a c) (create_link_calls name)) \<le> 72"
proof -
  have "length name + 1 \<le> 16" using assms(2) by (simp add: valid_ifname_def)
  from align4_mono [OF this] show ?thesis
    using assms(2) by (simp add: link_msg_def msg_len_def create_link_calls_def put_def nest_start_def
        nest_end_def valid_ifname_c_str mnl_ok_simps [OF assms(1)]) (simp add: align4_def)
qed

lemma ListWireGuardInterfaceNames_eq:
  "ListWireGuardInterfaceNames E w =
     (case open_dir E w sys_class_net of
        Inl e \<Rightarrow> Inl (sys_error E ''opendir(/sys/class/net): '' e)
      | Inr entries \<Rightarrow> Inr (filter (\<lambda>name. name \<noteq> ''.'' \<and> name \<noteq> ''..'' \<and>
            stat_ok E w (''/sys/class/net/'' @ name @ ''/wireguard'')) entries))"
proof -
  have "foldl (\<lambda>ns n. if P n then ns else if Q n then ns @ [n] else ns) acc xs =
      acc @ filter (\<lambda>n. \<not> P n \<and> Q n) xs" for P Q and acc xs :: "string list"
    by (induction xs arbitrary: acc) auto
  from this [of "\<lambda>n. n = ''.'' \<or> n = ''..''"] show ?thesis
    by (simp add: ListWireGuardInterfaceNames_def split: sum.split)
qed

section \<open>Properties\<close>

text \<open>
  C29: a link request that returns has closed the socket it opened, on every path. It succeeds
  exactly when the socket could be opened and bound, the kernel took the message, the first thing
  received on that socket was no receive error, its header (zeros where the datagram is too short
  to hold one) carried the request's sequence number and the socket's port, and, if its type was
  that of an error message, the code was zero; a matching message of any other type counts as
  success too, as the code does not insist on an acknowledgement. A first reply with another
  sequence number or port is thrown as \<open>EIO\<close>, an error code \<open>e\<close> as errno \<open>-e\<close>; in these cases
  and on success the message was sent once and nothing else was.
\<close>

theorem rt_request_outcome:
  assumes "SendRtRequestAndWaitAck E M nlh w = (Some r, w')"
  shows "open_socks w' = open_socks w
    \<and> (r = Inr () \<longleftrightarrow> (\<exists>h w1 ev q rp. sk_open E w = (Inr h, w1) \<and> sock_bind E w1 h = None
         \<and> kernel E w1 h nlh = Inr (ev # q) \<and> (\<forall>e. ev \<noteq> RecvErr e) \<and> rp = reply_hdr (recv_buffer M ev)
         \<and> rp_seq rp = nlmsg_seq nlh \<and> rp_pid rp = sock_portid E h
         \<and> (rp_type rp = NLMSG_ERROR \<longrightarrow> nlmsgerr_code (rp_payload rp) = Inr 0)))
    \<and> (\<forall>h w1 ev q rp. sk_open E w = (Inr h, w1) \<longrightarrow> sock_bind E w1 h = None \<longrightarrow>
         kernel E w1 h nlh = Inr (ev # q) \<longrightarrow> (\<forall>e. ev \<noteq> RecvErr e) \<longrightarrow> rp = reply_hdr (recv_buffer M ev) \<longrightarrow>
         sent w' = sent w @ [(h, nlh)]
         \<and> (rp_seq rp \<noteq> nlmsg_seq nlh \<or> rp_pid rp \<noteq> sock_portid E h \<longrightarrow> (\<exists>msg. r = Inl (SystemError EIO msg)))
         \<and> (\<forall>e. rp_seq rp = nlmsg_seq nlh \<and> rp_pid rp = sock_portid E h \<and> rp_type rp = NLMSG_ERROR
              \<and> nlmsgerr_code (rp_payload rp) = Inr e \<and> e \<noteq> 0 \<longrightarrow>
              r = Inl (SystemError (- e) (''rtnetlink error: '' @ str_error E (- e)))))"
proof (intro conjI)
  show "open_socks w' = open_socks w" using assms by (rule SendRtRequestAndWaitAck_closes)
next
  show "r = Inr () \<longleftrightarrow> (\<exists>h w1 ev q rp. sk_open E w = (Inr h, w1) \<and> sock_bind E w1 h = None
         \<and> kernel E w1 h nlh = Inr (ev # q) \<and> (\<forall>e. ev \<noteq> RecvErr e) \<and> rp = reply_hdr (recv_buffer M ev)
         \<and> rp_seq rp = nlmsg_seq nlh \<and> rp_pid rp = sock_portid E h
         \<and> (rp_type rp = NLMSG_ERROR \<longrightarrow> nlmsgerr_code (rp_payload rp) = Inr 0))"
    using SendRt_success_iff [OF assms] by (simp add: check_rt_reply_Inr)
qed (use SendRt_failures [OF assms] in blast)

text \<open>The kernel's acknowledgement of a link request in \<open>ack_env\<close>.\<close>

lemma ack_reply:
  fixes sq :: u32
  defines "rp \<equiv> reply_hdr (recv_buffer ref_mnl (Datagram (enc_reply NLMSG_ERROR 0 sq 42 (error_payload 0))))"
  shows "rp_seq rp = sq" and "rp_pid rp = 42" and "nlmsgerr_code (rp_payload rp) = Inr 0"
proof -
  have "length (enc_reply NLMSG_ERROR 0 sq 42 (error_payload 0)) \<le> 8192"
    by (simp add: enc_reply_def error_payload_def align4_def)
  moreover have "\<exists>z. take N (b @ replicate N 0) = b @ z" if "length b \<le> N" for N and b :: bytes
    using that by simp
  ultimately obtain z where "recv_buffer ref_mnl (Datagram (enc_reply NLMSG_ERROR 0 sq 42 (error_payload 0))) =
      enc_reply NLMSG_ERROR 0 sq 42 (error_payload 0) @ z"
    unfolding recv_buffer_def ref_mnl_def recv.case mnl_lib.select_convs by blast
  then have rp: "rp = reply_hdr (enc_reply NLMSG_ERROR 0 sq 42 (error_payload 0) @ z)" by (simp add: rp_def)
  show "rp_seq rp = sq" "rp_pid rp = 42" "nlmsgerr_code (rp_payload rp) = Inr 0"
    by (simp_all add: rp reply_hdr_def enc_reply_def error_payload_def le_word_le_bytes nlmsgerr_code_def
        peek_def align4_def)
qed

theorem rt_request_outcome_witness:
  "fst (SendRtRequestAndWaitAck ack_env ref_mnl
     (link_msg idle_world ack_env RTM_DELLINK NLM_F_REQUEST (IfInfo 0 5 0 0) []) idle_world) = Some (Inr ())"
proof -
  let ?m = "link_msg idle_world ack_env RTM_DELLINK NLM_F_REQUEST (IfInfo 0 5 0 0) []"
  let ?ev = "Datagram (enc_reply NLMSG_ERROR 0 (nlmsg_seq ?m) 42 (error_payload 0))"
  let ?w = "idle_world\<lparr>open_socks := [3], inbox := (inbox idle_world)(3 := [])\<rparr>"
  have env: "sk_open ack_env idle_world = (Inr 3, ?w)" "sock_bind ack_env ?w 3 = None"
    "kernel ack_env ?w 3 ?m = Inr [?ev]" "sock_portid ack_env 3 = 42"
    by (simp_all add: sk_open_def ack_env_def idle_world_def)
  then obtain r w' where run: "SendRtRequestAndWaitAck ack_env ref_mnl ?m idle_world = (Some r, w')"
    using SendRt_answered [OF env(1-3)] by blast
  have "r = Inr ()"
    by (rule iffD2 [OF rt_request_outcome [OF run, THEN conjunct2, THEN conjunct1]], intro exI conjI impI)
      (rule env(1), rule env(2), rule env(3), simp, rule refl, simp_all only: env(4) ack_reply)
  with run show ?thesis by simp
qed

text \<open>
  Creating a link checks the name, then that no interface has it (\<open>EEXIST\<close> otherwise, with
  nothing sent), and then sends one message: a create-exclusively request whose attributes are
  the name and the kind \<open>wireguard\<close>.
\<close>

theorem create_link_behaviour:
  assumes "valid_ifname name"
  shows "if name_to_index E w name \<noteq> 0
    then CreateWireGuardLink E M name w = (Some (Inl (SystemError EEXIST (''interface already exists: '' @ name))), w)
    else \<exists>m. CreateWireGuardLink E M name w = SendRtRequestAndWaitAck E M m w
      \<and> nlmsg_type m = RTM_NEWLINK
      \<and> nlmsg_flags m = NLM_F_REQUEST OR NLM_F_ACK OR NLM_F_CREATE OR NLM_F_EXCL
      \<and> msg_attrs (nlmsg_calls m) = Some [Leaf IFLA_IFNAME (str_bytes name @ [0]),
           Nest IFLA_LINKINFO [Leaf IFLA_INFO_KIND (str_bytes ''wireguard'' @ [0])]]"
proof -
  have "ValidateIfName name = Inr ()" using assms by (simp add: ValidateIfName_iff)
  then show ?thesis
    using create_link_calls_attrs [OF assms] valid_ifname_c_str [OF assms]
    by (auto simp: CreateWireGuardLink_def throws_def link_msg_def)
qed

theorem create_link_behaviour_witness:
  "CreateWireGuardLink ack_env ref_mnl ''wg0'' idle_world =
   (Some (Inl (SystemError 17 ''interface already exists: wg0'')), idle_world)"
proof -
  have "valid_ifname ''wg0''" by (simp add: valid_ifname_def code_def)
  from create_link_behaviour [OF this, of ack_env idle_world ref_mnl] show ?thesis
    by (simp add: ack_env_def EEXIST_def)
qed

text \<open>
  C30: what each link operation asks of the kernel. Where no interface has the name, creating a
  link sends a create-exclusively request whose attributes are the name and the kind
  \<open>wireguard\<close>. Where one has it, deleting names its index and nothing else; setting it up or down
  changes the flag \<open>IFF_UP\<close> alone; adding and deleting an address send the family, the prefix
  length and the parsed bytes of the CIDR text, twice, and a text that does not parse is thrown
  with nothing sent.
\<close>

theorem link_requests_exact:
  assumes "valid_ifname name" and "i = name_to_index E w name"
  shows "if i = 0
    then \<exists>m. CreateWireGuardLink E M name w = SendRtRequestAndWaitAck E M m w
      \<and> nlmsg_type m = RTM_NEWLINK \<and> nlmsg_flags m = NLM_F_REQUEST OR NLM_F_ACK OR NLM_F_CREATE OR NLM_F_EXCL
      \<and> msg_attrs (nlmsg_calls m) = Some [Leaf IFLA_IFNAME (str_bytes name @ [0]),
           Nest IFLA_LINKINFO [Leaf IFLA_INFO_KIND (str_bytes ''wireguard'' @ [0])]]
    else (\<exists>m. DeleteLink E M name w = SendRtRequestAndWaitAck E M m w
        \<and> nlmsg_type m = RTM_DELLINK \<and> nlmsg_extra m = IfInfo AF_UNSPEC i 0 0 \<and> msg_attrs (nlmsg_calls m) = Some [])
      \<and> (\<exists>m. SetLinkUp E M up name w = SendRtRequestAndWaitAck E M m w
        \<and> nlmsg_type m = RTM_NEWLINK \<and> nlmsg_extra m = IfInfo AF_UNSPEC i (if up then IFF_UP else 0) IFF_UP
        \<and> msg_attrs (nlmsg_calls m) = Some [])
      \<and> (\<forall>(op, t, fl) \<in> {(AddAddress, RTM_NEWADDR, NLM_F_REQUEST OR NLM_F_ACK OR NLM_F_CREATE OR NLM_F_REPLACE),
                         (DeleteAddress, RTM_DELADDR, NLM_F_REQUEST OR NLM_F_ACK)}.
          case ParseCIDR L s of
            Inl e \<Rightarrow> op L E M s name w = (Some (Inl e), w)
          | Inr a \<Rightarrow> \<exists>m b. op L E M s name w = SendRtRequestAndWaitAck E M m w
              \<and> nlmsg_type m = t \<and> nlmsg_flags m = fl \<and> nlmsg_extra m = IfAddr (family a) (cidr a) 0 0 i
              \<and> (if family a = of_nat AF_INET6 then pton6 L (c_str (ip a)) else pton4 L (c_str (ip a))) = Some b
              \<and> msg_attrs (nlmsg_calls m) = Some [Leaf IFA_LOCAL b, Leaf IFA_ADDRESS b])"
proof (cases "i = 0")
  case True
  then show ?thesis using create_link_behaviour [OF assms(1), of E w M] assms(2) by simp
next
  case False
  have v: "ValidateIfName name = Inr ()" using assms(1) by (simp add: ValidateIfName_iff)
  have c: "c_str name = name" using assms(1) by (rule valid_ifname_c_str)
  have "\<exists>m. DeleteLink E M name w = SendRtRequestAndWaitAck E M m w
      \<and> nlmsg_type m = RTM_DELLINK \<and> nlmsg_extra m = IfInfo AF_UNSPEC i 0 0 \<and> msg_attrs (nlmsg_calls m) = Some []"
    using False assms(2) by (auto simp: DeleteLink_def v c link_msg_def Let_def msg_attrs_def)
  moreover have "\<exists>m. SetLinkUp E M up name w = SendRtRequestAndWaitAck E M m w
      \<and> nlmsg_type m = RTM_NEWLINK \<and> nlmsg_extra m = IfInfo AF_UNSPEC i (if up then IFF_UP else 0) IFF_UP
      \<and> msg_attrs (nlmsg_calls m) = Some []"
    using False assms(2) by (auto simp: SetLinkUp_def v c link_msg_def Let_def msg_attrs_def)
  moreover have "case ParseCIDR L s of
        Inl e \<Rightarrow> address_op t fl L E M s name w = (Some (Inl e), w)
      | Inr a \<Rightarrow> \<exists>m b. address_op t fl L E M s name w = SendRtRequestAndWaitAck E M m w
          \<and> nlmsg_type m = t \<and> nlmsg_flags m = fl \<and> nlmsg_extra m = IfAddr (family a) (cidr a) 0 0 i
          \<and> (if family a = of_nat AF_INET6 then pton6 L (c_str (ip a)) else pton4 L (c_str (ip a))) = Some b
          \<and> msg_attrs (nlmsg_calls m) = Some [Leaf IFA_LOCAL b, Leaf IFA_ADDRESS b]" for t fl
  proof (cases "ParseCIDR L s")
    case (Inl e)
    then show ?thesis using False assms(2) by (simp add: address_op_def v c Let_def throws_def)
  next
    case (Inr a)
    obtain b where b: "(if family a = of_nat AF_INET6 then pton6 L (c_str (ip a)) else pton4 L (c_str (ip a))) = Some b"
      using ParseCIDR_Inr(1) [OF Inr] by (auto simp: cidr_ok_def AF_INET_def AF_INET6_def)
    then have "local_addr_bytes L a = b" by (auto simp: local_addr_bytes_def split: if_splits)
    then have "msg_attrs (nlmsg_calls (BuildAddrRequest L E w t fl i a)) = Some [Leaf IFA_LOCAL b, Leaf IFA_ADDRESS b]"
      by (simp add: BuildAddrRequest_def link_msg_def put_def msg_attrs_def)
    then show ?thesis using Inr False assms(2) b
      by (auto simp: address_op_def v c Let_def BuildAddrRequest_def link_msg_def
          intro!: exI [of _ "BuildAddrRequest L E w t fl i a"])
  qed
  ultimately show ?thesis using False by (simp add: AddAddress_def DeleteAddress_def)
qed

theorem link_requests_exact_witness:
  "\<exists>m. SetLinkUp ack_env ref_mnl True ''wg0'' idle_world = SendRtRequestAndWaitAck ack_env ref_mnl m idle_world
    \<and> nlmsg_extra m = IfInfo AF_UNSPEC 5 1 1"
proof -
  have "valid_ifname ''wg0''" by (simp add: valid_ifname_def code_def)
  moreover have "5 = name_to_index ack_env idle_world ''wg0''" by (simp add: ack_env_def)
  ultimately show ?thesis
    using link_requests_exact [of "''wg0''" 5 ack_env idle_world ref_mnl True] by (auto simp: IFF_UP_def)
qed

end
