(* ===== verification/UapiCodec.thy ===== *)
theory UapiCodec imports Addr WGTypes Os begin

text \<open>
  The requests of \<open>src/src/uapi/UapiCodec.cpp\<close>, the text protocol of userspace WireGuard, built
  as strings; \<open>set_lines\<close> is the specification, the lines a configuration stands for. Theory
  \<open>UapiReply\<close> has the responses.
\<close>

section \<open>Requests\<close>

definition BuildGetRequest :: string where
  "BuildGetRequest = ''get=1'' @ [LF, LF]"

definition set_peer :: "inet_lib \<Rightarrow> string \<Rightarrow> peer_config \<Rightarrow> string res" where
  "set_peer L oss p =
     (let oss1 = oss @ ''public_key='' @ KeyToHex (pc_publicKey p) @ [LF];
          oss2 = (if pc_remove p then oss1 @ ''remove=true'' @ [LF] else oss1);
          oss3 = (if pc_updateOnly p then oss2 @ ''update_only=true'' @ [LF] else oss2);
          oss4 = (case pc_presharedKey p of
                    Some k \<Rightarrow> oss3 @ ''preshared_key='' @ KeyToHex k @ [LF] | None \<Rightarrow> oss3)
      in rbind (case pc_endpoint p of
                  Some e \<Rightarrow> rbind (ValidateEndpoint L e) (\<lambda>_. Inr (oss4 @ ''endpoint='' @ e @ [LF]))
                | None \<Rightarrow> Inr oss4)
           (\<lambda>oss5.
              let oss6 = (case pc_persistentKeepaliveInterval p of
                            Some v \<Rightarrow> oss5 @ ''persistent_keepalive_interval='' @ to_string (unat v) @ [LF]
                          | None \<Rightarrow> oss5);
                  oss7 = (if pc_replaceAllowedIPs p then oss6 @ ''replace_allowed_ips=true'' @ [LF] else oss6)
              in Inr (foldl (\<lambda>o' a. o' @ ''allowed_ip='' @ FormatCIDR a @ [LF]) oss7 (pc_allowedIPs p))))"

definition BuildSetRequest :: "inet_lib \<Rightarrow> config \<Rightarrow> string res" where
  "BuildSetRequest L cfg =
     (let oss = ''set=1'' @ [LF];
          oss1 = (case cfg_privateKey cfg of
                    Some k \<Rightarrow> oss @ ''private_key='' @ KeyToHex k @ [LF] | None \<Rightarrow> oss);
          oss2 = (case cfg_listenPort cfg of
                    Some v \<Rightarrow> oss1 @ ''listen_port='' @ to_string (unat v) @ [LF] | None \<Rightarrow> oss1);
          oss3 = (case cfg_firewallMark cfg of
                    Some v \<Rightarrow> oss2 @ ''fwmark='' @ to_string (unat v) @ [LF] | None \<Rightarrow> oss2);
          oss4 = (if cfg_replacePeers cfg then oss3 @ ''replace_peers=true'' @ [LF] else oss3)
      in rbind (rfold (set_peer L) oss4 (cfg_peers cfg)) (\<lambda>oss5. Inr (oss5 @ [LF])))"

section \<open>The lines a configuration stands for\<close>

definition unlines :: "string list \<Rightarrow> string" where
  "unlines ls = concat (map (\<lambda>l. l @ [LF]) ls)"

lemma unlines_simps [simp]:
  "unlines [] = []" "unlines (l # ls) = l @ LF # unlines ls" "unlines (xs @ ys) = unlines xs @ unlines ys"
  by (simp_all add: unlines_def)

definition kv_line :: "string \<Rightarrow> string \<Rightarrow> string" where
  "kv_line k v = k @ ''='' @ v"

definition opt_line :: "string \<Rightarrow> ('a \<Rightarrow> string) \<Rightarrow> 'a option \<Rightarrow> string list" where
  "opt_line k f x = (case x of Some v \<Rightarrow> [kv_line k (f v)] | None \<Rightarrow> [])"

definition flag_line :: "string \<Rightarrow> bool \<Rightarrow> string list" where
  "flag_line k b = (if b then [kv_line k ''true''] else [])"

definition num :: "'a::len word \<Rightarrow> string" where
  "num w = to_string (unat w)"

definition set_peer_lines :: "peer_config \<Rightarrow> string list" where
  "set_peer_lines p =
     [kv_line ''public_key'' (KeyToHex (pc_publicKey p))] @ flag_line ''remove'' (pc_remove p)
     @ flag_line ''update_only'' (pc_updateOnly p) @ opt_line ''preshared_key'' KeyToHex (pc_presharedKey p)
     @ opt_line ''endpoint'' id (pc_endpoint p)
     @ opt_line ''persistent_keepalive_interval'' num (pc_persistentKeepaliveInterval p)
     @ flag_line ''replace_allowed_ips'' (pc_replaceAllowedIPs p)
     @ map (\<lambda>a. kv_line ''allowed_ip'' (FormatCIDR a)) (pc_allowedIPs p)"

definition set_lines :: "config \<Rightarrow> string list" where
  "set_lines cfg =
     [kv_line ''set'' ''1''] @ opt_line ''private_key'' KeyToHex (cfg_privateKey cfg)
     @ opt_line ''listen_port'' num (cfg_listenPort cfg) @ opt_line ''fwmark'' num (cfg_firewallMark cfg)
     @ flag_line ''replace_peers'' (cfg_replacePeers cfg) @ concat (map set_peer_lines (cfg_peers cfg))"

lemmas line_defs = kv_line_def opt_line_def flag_line_def num_def

definition check_endpoint :: "inet_lib \<Rightarrow> peer_config \<Rightarrow> unit res" where
  "check_endpoint L p = (case pc_endpoint p of Some e \<Rightarrow> ValidateEndpoint L e | None \<Rightarrow> Inr ())"

lemma foldl_allowed_ip:
  "foldl (\<lambda>o' a. o' @ ''allowed_ip='' @ FormatCIDR a @ [LF]) oss as =
   oss @ unlines (map (\<lambda>a. kv_line ''allowed_ip'' (FormatCIDR a)) as)"
  by (induction as arbitrary: oss) (simp_all add: kv_line_def)

text \<open>The stages of the stream: each appends its line or nothing.\<close>

lemma append_stage:
  "(if b then s @ t else s) = s @ (if b then t else [])"
  "(case x of Some v \<Rightarrow> s @ f v | None \<Rightarrow> s) = s @ (case x of Some v \<Rightarrow> f v | None \<Rightarrow> [])"
  by (simp_all split: option.split)

lemma unlines_flag: "unlines (flag_line k b) = (if b then k @ ''=true'' @ [LF] else [])"
  by (simp add: flag_line_def kv_line_def)

lemma unlines_opt: "unlines (opt_line k f x) = (case x of Some v \<Rightarrow> k @ ''='' @ f v @ [LF] | None \<Rightarrow> [])"
  by (simp add: opt_line_def kv_line_def split: option.split)

lemma set_peer_eq:
  "set_peer L oss p = rbind (check_endpoint L p) (\<lambda>_. Inr (oss @ unlines (set_peer_lines p)))"
  unfolding set_peer_def check_endpoint_def set_peer_lines_def append_stage
  unfolding Let_def foldl_allowed_ip
  by (cases "pc_endpoint p")
    (simp_all add: unlines_flag unlines_opt kv_line_def num_def rbind_assoc del: if_split cong: if_cong option.case_cong)

lemma rfold_set_peer:
  "rfold (set_peer L) oss ps =
   rbind (rmap (check_endpoint L) ps) (\<lambda>_. Inr (oss @ unlines (concat (map set_peer_lines ps))))"
  by (induction ps arbitrary: oss) (auto simp: set_peer_eq rbind_assoc intro!: rbind_cong)

lemma BuildSetRequest_eq:
  "BuildSetRequest L cfg =
   rbind (rmap (check_endpoint L) (cfg_peers cfg)) (\<lambda>_. Inr (unlines (set_lines cfg) @ [LF]))"
  unfolding BuildSetRequest_def set_lines_def append_stage
  unfolding Let_def rfold_set_peer
  by (simp add: unlines_flag unlines_opt kv_line_def num_def rbind_assoc del: if_split cong: if_cong option.case_cong)

definition endpoints_valid :: "inet_lib \<Rightarrow> config \<Rightarrow> bool" where
  "endpoints_valid L cfg \<longleftrightarrow> list_all (\<lambda>p. check_endpoint L p = Inr ()) (cfg_peers cfg)"

lemma rmap_unit: "(\<exists>us. rmap f xs = Inr us) \<longleftrightarrow> list_all (\<lambda>x. f x = Inr (() :: unit)) xs"
  by (induction xs) (auto simp: rbind_Inr_iff)

lemma BuildSetRequest_Inr_iff:
  "BuildSetRequest L cfg = Inr r \<longleftrightarrow> endpoints_valid L cfg \<and> r = unlines (set_lines cfg) @ [LF]"
  using rmap_unit [of "check_endpoint L" "cfg_peers cfg"]
  by (auto simp: BuildSetRequest_eq endpoints_valid_def rbind_Inr_iff)

lemma ValidateEndpoint_error:
  "ValidateEndpoint L e = Inl x \<Longrightarrow> \<exists>msg. x = InvalidArgument msg"
  by (auto simp: ValidateEndpoint_def ParseEndpoint_def Let_def rbind_Inl_iff dest: ParsePort_error
      split: option.splits if_splits)

lemma rmap_Inl: "rmap f xs = Inl e \<Longrightarrow> \<exists>x \<in> set xs. f x = Inl e"
  by (induction xs) (auto simp: rbind_Inl_iff)

lemma BuildSetRequest_error:
  "BuildSetRequest L cfg = Inl e \<Longrightarrow> \<exists>msg. e = InvalidArgument msg"
  by (auto simp: BuildSetRequest_eq rbind_Inl_iff check_endpoint_def dest!: rmap_Inl
      dest: ValidateEndpoint_error split: option.splits)

section \<open>When the text is exactly those lines\<close>

definition clean_text :: "string \<Rightarrow> bool" where
  "clean_text s \<longleftrightarrow> NUL \<notin> set s \<and> LF \<notin> set s"

definition clean_config :: "inet_lib \<Rightarrow> config \<Rightarrow> bool" where
  "clean_config L cfg \<longleftrightarrow> list_all (\<lambda>p. pred_option clean_text (pc_endpoint p)
     \<and> list_all (\<lambda>a. cidr_ok L a \<and> NUL \<notin> set (ip a)) (pc_allowedIPs p)) (cfg_peers cfg)"

lemma no_LF [simp]: "LF \<notin> set (num w)" "LF \<notin> set (KeyToHex k)"
  subgoal by (auto simp: num_def dest!: to_string_digits isdigit_not_special(2))
  subgoal using set_KeyToHex by (fastforce simp: kHexChars_def)
  done

lemma clean_peer_lines:
  assumes "inet_ok L" and "pred_option clean_text (pc_endpoint p)"
    and "list_all (\<lambda>a. cidr_ok L a \<and> NUL \<notin> set (ip a)) (pc_allowedIPs p)"
  shows "l \<in> set (set_peer_lines p) \<Longrightarrow> LF \<notin> set l"
  using assms FormatCIDR_safe [OF assms(1)]
  by (cases "pc_endpoint p")
    (auto simp: set_peer_lines_def kv_line_def opt_line_def flag_line_def clean_text_def list_all_iff
      split: option.splits if_splits)

lemma clean_set_lines:
  assumes "inet_ok L" and "clean_config L cfg" and "l \<in> set (set_lines cfg)"
  shows "LF \<notin> set l"
proof (cases "l \<in> set (concat (map set_peer_lines (cfg_peers cfg)))")
  case True
  then show ?thesis using clean_peer_lines [OF assms(1)] assms(2)
    by (auto simp: clean_config_def list_all_iff)
next
  case False
  with assms(3) show ?thesis
    by (auto simp: set_lines_def kv_line_def opt_line_def flag_line_def split: option.splits if_splits)
qed

text \<open>No text taken from the caller holds a line feed; keys and numbers never do.\<close>

definition line_free :: "config \<Rightarrow> bool" where
  "line_free cfg \<longleftrightarrow> list_all (\<lambda>p. pred_option (\<lambda>e. LF \<notin> set e) (pc_endpoint p)
     \<and> list_all (\<lambda>a. LF \<notin> set (ip a)) (pc_allowedIPs p)) (cfg_peers cfg)"

lemma LF_FormatCIDR: "LF \<in> set (FormatCIDR a) \<longleftrightarrow> LF \<in> set (ip a)"
  by (auto simp: FormatCIDR_def dest!: to_string_digits isdigit_not_special(2))

lemma LF_lines:
  "LF \<in> set (kv_line k v) \<longleftrightarrow> LF \<in> set k \<or> LF \<in> set v"
  "(\<forall>l \<in> set (flag_line k b). LF \<notin> set l) \<longleftrightarrow> (b \<longrightarrow> LF \<notin> set k)"
  "(\<forall>l \<in> set (opt_line k f x). LF \<notin> set l) \<longleftrightarrow> pred_option (\<lambda>v. LF \<notin> set k \<and> LF \<notin> set (f v)) x"
  apply (auto simp: kv_line_def flag_line_def)[2]
  by (cases x) (auto simp: kv_line_def opt_line_def)

lemma pred_option_True [simp]: "pred_option (\<lambda>v. True) x"
  by (cases x) simp_all

lemma LF_set_peer_lines:
  "(\<forall>l \<in> set (set_peer_lines p). LF \<notin> set l) \<longleftrightarrow>
     pred_option (\<lambda>e. LF \<notin> set e) (pc_endpoint p) \<and> list_all (\<lambda>a. LF \<notin> set (ip a)) (pc_allowedIPs p)"
  unfolding set_peer_lines_def set_append ball_Un LF_lines
  by (simp add: LF_lines LF_FormatCIDR list_all_iff)

lemma LF_set_lines: "(\<forall>l \<in> set (set_lines cfg). LF \<notin> set l) \<longleftrightarrow> line_free cfg"
  unfolding set_lines_def set_append ball_Un LF_lines
  by (simp add: LF_lines LF_set_peer_lines line_free_def list_all_iff)

lemma clean_line_free: "inet_ok L \<Longrightarrow> clean_config L cfg \<Longrightarrow> line_free cfg"
  using clean_set_lines by (simp add: LF_set_lines [symmetric])

lemma getlines_unlines:
  "(\<And>l. l \<in> set ls \<Longrightarrow> LF \<notin> set l) \<Longrightarrow> getlines (unlines ls @ s) = ls @ getlines s"
  unfolding unlines_def by (rule getlines_concat)

lemma getlines_BuildSetRequest:
  assumes "inet_ok L" and "clean_config L cfg" and "BuildSetRequest L cfg = Inr r"
  shows "getlines r = set_lines cfg @ [[]]"
  using assms(3) getlines_unlines [OF clean_set_lines [OF assms(1,2)], of "set_lines cfg" "[LF]"]
  by (simp add: BuildSetRequest_Inr_iff)

section \<open>Properties\<close>

text \<open>
  A set request is built exactly when every endpoint in the configuration is valid, and is
  then the lines the configuration stands for, each ended by a line feed, and an empty line;
  otherwise the code throws an invalid argument.
\<close>

theorem set_request_is_configuration:
  "case BuildSetRequest L cfg of
     Inr r \<Rightarrow> endpoints_valid L cfg \<and> r = unlines (set_lines cfg) @ [LF]
   | Inl e \<Rightarrow> \<not> endpoints_valid L cfg \<and> (\<exists>msg. e = InvalidArgument msg)"
  using BuildSetRequest_Inr_iff [of L cfg] BuildSetRequest_error [of L cfg]
  by (cases "BuildSetRequest L cfg") auto

text \<open>
  C7: a set request, read line by line as the daemon does, is exactly the configuration's lines and
  the closing empty line if and only if no endpoint and no range text of the configuration holds a
  line feed: no other field can inject a line. That is so in particular when the endpoints hold
  neither NUL nor line feed and the ranges are ones the CIDR parser returns whose address text holds
  no NUL. (A range text with a NUL passes the CIDR parser with a line feed behind it.)
\<close>

theorem set_request_no_injection:
  assumes "BuildSetRequest L cfg = Inr r"
  shows "(getlines r = set_lines cfg @ [[]] \<longleftrightarrow> line_free cfg)
    \<and> (inet_ok L \<and> clean_config L cfg \<longrightarrow> line_free cfg)"
proof
  show "getlines r = set_lines cfg @ [[]] \<longleftrightarrow> line_free cfg"
  proof
    assume "getlines r = set_lines cfg @ [[]]"
    then have "\<forall>l \<in> set (set_lines cfg). LF \<notin> set l" using getlines_no_LF [of _ r] by simp
    then show "line_free cfg" by (simp add: LF_set_lines)
  next
    assume "line_free cfg"
    then show "getlines r = set_lines cfg @ [[]]"
      using assms getlines_unlines [of "set_lines cfg" "[LF]"] LF_set_lines [of cfg] by (simp add: BuildSetRequest_Inr_iff)
  qed
next
  show "inet_ok L \<and> clean_config L cfg \<longrightarrow> line_free cfg" using clean_line_free by blast
qed

theorem set_request_no_injection_witness:
  "\<exists>r. BuildSetRequest ref_inet (default_config\<lparr>cfg_peers := [default_peer_config]\<rparr>) = Inr r
    \<and> getlines r = set_lines (default_config\<lparr>cfg_peers := [default_peer_config]\<rparr>) @ [[]]"
proof -
  let ?c = "default_config\<lparr>cfg_peers := [default_peer_config]\<rparr>"
  have clean: "clean_config ref_inet ?c" by (simp add: clean_config_def default_peer_config_def)
  have "endpoints_valid ref_inet ?c" by (simp add: endpoints_valid_def check_endpoint_def default_peer_config_def)
  then obtain r where "BuildSetRequest ref_inet ?c = Inr r" using BuildSetRequest_Inr_iff by blast
  with set_request_no_injection [OF this] clean inet_ok_ref show ?thesis by blast
qed

lemma c_str_stop: "NUL \<notin> set h \<Longrightarrow> c_str (h @ NUL # ys) = h"
  unfolding c_str_def by (rule takeWhile_append_stop) auto

text \<open>The configuration that adds one peer, all-zero key, with a given endpoint.\<close>

definition endpoint_config :: "string \<Rightarrow> config" where
  "endpoint_config e = default_config\<lparr>cfg_peers := [default_peer_config\<lparr>pc_endpoint := Some e\<rparr>]\<rparr>"

lemma set_lines_endpoint_config:
  "set_lines (endpoint_config e) =
     [''set=1'', kv_line ''public_key'' (KeyToHex zero_key), ''endpoint='' @ e]"
  by (simp add: set_lines_def endpoint_config_def default_config_def default_peer_config_def set_peer_lines_def
      opt_line_def flag_line_def kv_line_def)

lemma BuildSetRequest_endpoint_config:
  assumes "ValidateEndpoint L e = Inr ()"
  shows "BuildSetRequest L (endpoint_config e) = Inr (unlines (set_lines (endpoint_config e)) @ [LF])"
  using assms by (simp add: BuildSetRequest_Inr_iff endpoints_valid_def endpoint_config_def check_endpoint_def)

lemma getlines_endpoint_config:
  "getlines (unlines (set_lines (endpoint_config e)) @ s) =
     [''set=1'', kv_line ''public_key'' (KeyToHex zero_key)] @ getlines (''endpoint='' @ e @ LF # s)"
proof -
  have "LF \<notin> set (kv_line ''public_key'' (KeyToHex zero_key))" by (simp add: kv_line_def)
  from getlines_line [OF this] show ?thesis by (simp add: set_lines_endpoint_config)
qed

lemma ValidateEndpoint_v4:
  assumes "CHR '':'' \<notin> set portStr" and "host = [] \<or> hd host \<noteq> CHR ''[''"
    and "ParsePort portStr = Inr port" and "pton4 L (c_str host) = Some addr"
  shows "ValidateEndpoint L (host @ '':'' @ portStr) = Inr ()"
  using ParseEndpoint_v4 [OF assms] by (simp add: ValidateEndpoint_def)

lemma pton4_host:
  assumes "inet_ok L" and "pton4 L h = Some a"
  shows "LF \<notin> set h" "NUL \<notin> set h" "h = [] \<or> hd h \<noteq> CHR ''[''"
  using addr_text_safe [OF inet_ok_4(2) [OF assms]] hd_in_set by fastforce+

text \<open>
  An endpoint whose port is preceded by line feeds passes the validation that is meant to
  prevent injected lines, and the request then contains an empty line right after it, which
  ends a request early: what follows is no part of the operation that was asked for.
\<close>

theorem endpoint_newline_accepted:
  assumes "inet_ok L" and "pton4 L h = Some a"
  shows "\<exists>r. BuildSetRequest L (endpoint_config (h @ '':'' @ [LF, LF] @ ''1'')) = Inr r
    \<and> getlines r = [''set=1'', kv_line ''public_key'' (KeyToHex zero_key), ''endpoint='' @ h @ '':'', [], ''1'', []]"
proof -
  note h = pton4_host [OF assms]
  have "stoi ([LF, LF] @ ''1'') = Inr (1, 3)" by code_simp
  then have "ParsePort ([LF, LF] @ ''1'') = Inr 1" by (simp add: ParsePort_def)
  then have "ValidateEndpoint L (h @ '':'' @ [LF, LF] @ ''1'') = Inr ()"
    using assms(2) h by (intro ValidateEndpoint_v4) (auto simp: c_str_id)
  note r = BuildSetRequest_endpoint_config [OF this]
  have "LF \<notin> set (''endpoint='' @ h @ '':'')" using h by simp
  from getlines_line [OF this, of "[LF] @ ''1'' @ [LF, LF]"] show ?thesis
    using r getlines_endpoint_config [of "h @ '':'' @ [LF, LF] @ ''1''" "[LF]"] by simp
qed

text \<open>
  An endpoint with a NUL after its address passes validation, because \<open>inet_pton\<close> only sees
  the text before the NUL, and injects a line of the caller's choice: here
  \<open>replace_peers=true\<close> into a request whose configuration does not ask for it.
\<close>

theorem endpoint_NUL_injects:
  assumes "inet_ok L" and "pton4 L h = Some a"
  shows "\<exists>r. BuildSetRequest L (endpoint_config (h @ [NUL, LF] @ ''replace_peers=true'' @ [LF] @ ''x:1'')) = Inr r
    \<and> ''replace_peers=true'' \<in> set (getlines r)
    \<and> \<not> cfg_replacePeers (endpoint_config (h @ [NUL, LF] @ ''replace_peers=true'' @ [LF] @ ''x:1''))"
proof -
  note h = pton4_host [OF assms]
  let ?host = "h @ [NUL, LF] @ ''replace_peers=true'' @ [LF] @ ''x''"
  have "stoi ''1'' = Inr (1, 1)" by code_simp
  then have "ParsePort ''1'' = Inr 1" by (simp add: ParsePort_def)
  moreover have "c_str ?host = h" using c_str_stop [OF h(2), of "[LF] @ ''replace_peers=true'' @ [LF] @ ''x''"] by simp
  ultimately have "ValidateEndpoint L (?host @ '':'' @ ''1'') = Inr ()"
    using assms(2) h(3) by (intro ValidateEndpoint_v4) (auto simp: hd_append)
  from BuildSetRequest_endpoint_config [OF this]
  have r: "BuildSetRequest L (endpoint_config (h @ [NUL, LF] @ ''replace_peers=true'' @ [LF] @ ''x:1'')) =
      Inr (unlines (set_lines (endpoint_config (h @ [NUL, LF] @ ''replace_peers=true'' @ [LF] @ ''x:1''))) @ [LF])"
    by simp
  have "LF \<notin> set (''endpoint='' @ h @ [NUL])" using h(1) by simp
  from getlines_line [OF this, of "''replace_peers=true'' @ [LF] @ ''x:1'' @ [LF, LF]"]
  have "''replace_peers=true'' \<in> set (getlines (''endpoint='' @ (h @ [NUL, LF] @ ''replace_peers=true'' @ [LF] @ ''x:1'') @ LF # [LF]))"
    by simp
  then show ?thesis using r getlines_endpoint_config [of "h @ [NUL, LF] @ ''replace_peers=true'' @ [LF] @ ''x:1''" "[LF]"]
    by (simp add: endpoint_config_def default_config_def)
qed

text \<open>
  Ranges: \<open>ParseCIDR\<close> gives \<open>inet_pton\<close> the address text up to its first NUL and keeps the whole of
  it, which \<open>FormatCIDR\<close> writes back.
\<close>

definition range_config :: "allowed_ip \<Rightarrow> config" where
  "range_config a = default_config\<lparr>cfg_peers := [default_peer_config\<lparr>pc_allowedIPs := [a]\<rparr>]\<rparr>"

lemma to_string_24: "to_string 24 = ''24''"
  by code_simp

lemma range_NUL_injects:
  assumes "inet_ok L" and "pton4 L h = Some b"
    and "a = \<lparr>ip = h @ [NUL, LF] @ ''replace_peers=true'' @ [LF] @ ''x'', family = of_nat AF_INET, cidr = 24\<rparr>"
  shows "ParseCIDR L (h @ [NUL, LF] @ ''replace_peers=true'' @ [LF] @ ''x/24'') = Inr a
    \<and> (\<exists>r. BuildSetRequest L (range_config a) = Inr r \<and> ''replace_peers=true'' \<in> set (getlines r))
    \<and> \<not> cfg_replacePeers (range_config a)"
proof (intro conjI)
  note h = pton4_host [OF assms(1,2)] and v4 = pton6_of_v4 [OF assms(1,2)]
  have c: "c_str (ip a) = h"
    using c_str_stop [OF h(2), of "[LF] @ ''replace_peers=true'' @ [LF] @ ''x''"] by (simp add: assms(3))
  then have "cidr_ok L a" using assms(2) v4(1) unfolding cidr_ok_def c by (simp add: assms(3))
  moreover have "CHR ''/'' \<notin> set (ip a)" using v4(3) by (simp add: assms(3))
  ultimately have "ParseCIDR L (FormatCIDR a) = Inr a" by (rule ParseCIDR_FormatCIDR)
  moreover have "FormatCIDR a = h @ [NUL, LF] @ ''replace_peers=true'' @ [LF] @ ''x/24''"
    by (simp add: FormatCIDR_def assms(3) to_string_24)
  ultimately show "ParseCIDR L (h @ [NUL, LF] @ ''replace_peers=true'' @ [LF] @ ''x/24'') = Inr a" by simp
next
  note h = pton4_host [OF assms(1,2)]
  let ?pre = "[''set=1'', kv_line ''public_key'' (KeyToHex zero_key)]"
  have "BuildSetRequest L (range_config a) = Inr (unlines (set_lines (range_config a)) @ [LF])"
    by (simp add: BuildSetRequest_Inr_iff endpoints_valid_def check_endpoint_def range_config_def default_peer_config_def)
  moreover have "unlines (set_lines (range_config a)) @ [LF] =
      unlines (?pre @ [''allowed_ip='' @ h @ [NUL], ''replace_peers=true'']) @ ''x/24'' @ [LF, LF]"
    by (simp add: set_lines_def set_peer_lines_def range_config_def default_config_def default_peer_config_def
        line_defs FormatCIDR_def assms(3) to_string_24)
  moreover have "getlines (unlines (?pre @ [''allowed_ip='' @ h @ [NUL], ''replace_peers=true'']) @ ''x/24'' @ [LF, LF]) =
      (?pre @ [''allowed_ip='' @ h @ [NUL], ''replace_peers=true'']) @ getlines (''x/24'' @ [LF, LF])"
    by (rule getlines_unlines) (use h in \<open>auto simp: kv_line_def\<close>)
  ultimately show "\<exists>r. BuildSetRequest L (range_config a) = Inr r \<and> ''replace_peers=true'' \<in> set (getlines r)" by simp
next
  show "\<not> cfg_replacePeers (range_config a)" by (simp add: range_config_def default_config_def)
qed

text \<open>
  C39: the validation lets three kinds of texts through that change the request. Line feeds before
  the port of an endpoint are skipped by \<open>stoi\<close>, and put an empty line, which ends a request, into
  the middle of it. Behind a NUL, which ends the text \<open>inet_pton\<close> sees, a caller can write any
  line, in an endpoint and in a range that the CIDR parser returns: here \<open>replace_peers=true\<close>,
  which the configuration does not ask for.
\<close>

theorem endpoint_injection:
  assumes "inet_ok L" and "pton4 L h = Some a"
  shows "(\<exists>r. BuildSetRequest L (endpoint_config (h @ '':'' @ [LF, LF] @ ''1'')) = Inr r
      \<and> getlines r = [''set=1'', kv_line ''public_key'' (KeyToHex zero_key), ''endpoint='' @ h @ '':'', [], ''1'', []])
    \<and> (\<exists>r. BuildSetRequest L (endpoint_config (h @ [NUL, LF] @ ''replace_peers=true'' @ [LF] @ ''x:1'')) = Inr r
      \<and> ''replace_peers=true'' \<in> set (getlines r)
      \<and> \<not> cfg_replacePeers (endpoint_config (h @ [NUL, LF] @ ''replace_peers=true'' @ [LF] @ ''x:1'')))
    \<and> (\<exists>range r. ParseCIDR L (h @ [NUL, LF] @ ''replace_peers=true'' @ [LF] @ ''x/24'') = Inr range
      \<and> BuildSetRequest L (range_config range) = Inr r
      \<and> ''replace_peers=true'' \<in> set (getlines r) \<and> \<not> cfg_replacePeers (range_config range))"
  using endpoint_newline_accepted [OF assms] endpoint_NUL_injects [OF assms] range_NUL_injects [OF assms refl] by blast

theorem endpoint_injection_witness:
  "\<exists>r. BuildSetRequest ref_inet (endpoint_config (ref_ntop4 [10, 0, 0, 1] @ [NUL, LF] @ ''replace_peers=true'' @ [LF] @ ''x:1'')) = Inr r
    \<and> ''replace_peers=true'' \<in> set (getlines r)"
proof -
  have "pton4 ref_inet (ref_ntop4 [10, 0, 0, 1]) = Some [10, 0, 0, 1]" by (simp add: ref_inet_def ref_pton4_ntop4)
  from endpoint_injection [OF inet_ok_ref this] show ?thesis by blast
qed

end
