(* ===== verification/UapiReply.thy ===== *)
theory UapiReply imports UapiCodec begin

text \<open>
  The responses of \<open>src/src/uapi/UapiCodec.cpp\<close>, read line by line into a device; \<open>currentPeer\<close> is
  the index of the peer the pointer refers to. \<open>get_lines\<close> is the specification: the lines a
  device stands for.
\<close>

section \<open>Numbers\<close>

definition ParseUnsignedInRange :: "string \<Rightarrow> u64 \<Rightarrow> string \<Rightarrow> u64 res" where
  "ParseUnsignedInRange value max_v field =
     (if value = [] then Inl (InvalidArgument (field @ '': empty value''))
      else (case stoul value of
              Inl _ \<Rightarrow> Inl (InvalidArgument (field @ '': invalid value: '' @ value))
            | Inr (ul, consumed) \<Rightarrow>
                if consumed \<noteq> length value \<or> ul > max_v
                then Inl (InvalidArgument (field @ '': out of range: '' @ value))
                else Inr ul))"

definition ParseUint16 :: "string \<Rightarrow> string \<Rightarrow> u16 res" where
  "ParseUint16 value field = rbind (ParseUnsignedInRange value 65535 field) (\<lambda>v. Inr (ucast v))"

definition ParseUint32 :: "string \<Rightarrow> string \<Rightarrow> u32 res" where
  "ParseUint32 value field = rbind (ParseUnsignedInRange value 4294967295 field) (\<lambda>v. Inr (ucast v))"

section \<open>Responses\<close>

record get_state =
  gs_device :: device
  gs_currentPeer :: "nat option"

text \<open>\<open>line.substr(0, eq)\<close> and \<open>line.substr(eq + 1)\<close>; \<open>None\<close> for a line without \<open>'='\<close>.\<close>

definition split_line :: "string \<Rightarrow> (string \<times> string) option" where
  "split_line line =
     (case find_char (CHR ''='') line of
        None \<Rightarrow> None
      | Some eq \<Rightarrow> Some (substr line 0 eq, substr_from line (eq + 1)))"

definition peer_field :: "inet_lib \<Rightarrow> string \<Rightarrow> string \<Rightarrow> peer \<Rightarrow> peer res" where
  "peer_field L key value p =
     (if key = ''preshared_key'' then
        rbind (KeyFromHex value) (\<lambda>k. Inr (p\<lparr>presharedKey := Some k\<rparr>))
      else if key = ''endpoint'' then Inr (p\<lparr>endpoint := Some value\<rparr>)
      else if key = ''last_handshake_time_sec'' then
        rbind (stoll value) (\<lambda>(v, _). Inr (p\<lparr>lastHandshakeTimeSec := word_of_int v\<rparr>))
      else if key = ''rx_bytes'' then
        rbind (stoull value) (\<lambda>(v, _). Inr (p\<lparr>receiveBytes := v\<rparr>))
      else if key = ''tx_bytes'' then
        rbind (stoull value) (\<lambda>(v, _). Inr (p\<lparr>transmitBytes := v\<rparr>))
      else if key = ''persistent_keepalive_interval'' then
        rbind (ParseUint16 value ''persistent_keepalive_interval'')
          (\<lambda>v. Inr (p\<lparr>persistentKeepaliveInterval := v\<rparr>))
      else if key = ''allowed_ip'' then
        rbind (ParseCIDR L value) (\<lambda>a. Inr (p\<lparr>allowedIPs := allowedIPs p @ [a]\<rparr>))
      else if key = ''protocol_version'' then
        rbind (ParseUint32 value ''protocol_version'') (\<lambda>v. Inr (p\<lparr>protocolVersion := v\<rparr>))
      else Inr p)"

definition device_field :: "string \<Rightarrow> string \<Rightarrow> device \<Rightarrow> device res" where
  "device_field key value d =
     (if key = ''private_key'' then
        rbind (KeyFromHex value) (\<lambda>k. Inr (d\<lparr>privateKey := Some k\<rparr>))
      else if key = ''listen_port'' then
        rbind (ParseUint16 value ''listen_port'') (\<lambda>v. Inr (d\<lparr>listenPort := v\<rparr>))
      else if key = ''fwmark'' then
        rbind (ParseUint32 value ''fwmark'') (\<lambda>v. Inr (d\<lparr>firewallMark := v\<rparr>))
      else Inr d)"

definition errno_line :: "string \<Rightarrow> string \<Rightarrow> unit res" where
  "errno_line msg value =
     rbind (stoi value) (\<lambda>(code, _). if code \<noteq> 0 then Inl (SystemError code (msg @ value)) else Inr ())"

definition get_line :: "inet_lib \<Rightarrow> get_state \<Rightarrow> string \<Rightarrow> get_state res" where
  "get_line L s line =
     (if line = [] then Inr s
      else (case split_line line of
        None \<Rightarrow> Inr s
      | Some (key, value) \<Rightarrow>
          if key = ''errno'' then
            rbind (errno_line ''uapi get error, errno='' value) (\<lambda>_. Inr s)
          else if key = ''public_key'' then
            (let d = gs_device s;
                 ps = peers d @ [default_peer];
                 i = length ps - 1
             in rbind (KeyFromHex value) (\<lambda>k.
                  Inr (s\<lparr>gs_device := d\<lparr>peers := ps[i := (ps ! i)\<lparr>publicKey := k\<rparr>]\<rparr>, gs_currentPeer := Some i\<rparr>)))
          else (case gs_currentPeer s of
              Some i \<Rightarrow>
                rbind (peer_field L key value (peers (gs_device s) ! i)) (\<lambda>p.
                  Inr (s\<lparr>gs_device := (gs_device s)\<lparr>peers := (peers (gs_device s))[i := p]\<rparr>\<rparr>))
            | None \<Rightarrow>
                rbind (device_field key value (gs_device s)) (\<lambda>d. Inr (s\<lparr>gs_device := d\<rparr>)))))"

text \<open>After the loop: the public key is derived from a private key that is not all zero.\<close>

definition derive_public :: "'p openssl \<Rightarrow> device \<Rightarrow> device res" where
  "derive_public ssl d =
     (case privateKey d of
        Some k \<Rightarrow>
          if \<not> IsZeroKey k
          then rbind (PublicKeyFromPrivate ssl k) (\<lambda>pub. Inr (d\<lparr>dev_publicKey := Some pub\<rparr>))
          else Inr d
      | None \<Rightarrow> Inr d)"

definition ParseGetResponse :: "inet_lib \<Rightarrow> 'p openssl \<Rightarrow> string \<Rightarrow> string \<Rightarrow> device res" where
  "ParseGetResponse L ssl name response =
     rbind (rfold (get_line L)
              \<lparr>gs_device = default_device\<lparr>dev_name := name, userspace := True\<rparr>, gs_currentPeer = None\<rparr>
              (getlines response))
       (\<lambda>s. derive_public ssl (gs_device s))"

definition set_response_line :: "unit \<Rightarrow> string \<Rightarrow> unit res" where
  "set_response_line u line =
     (case find_char (CHR ''='') line of
        None \<Rightarrow> Inr ()
      | Some eq \<Rightarrow>
          if substr line 0 eq = ''errno''
          then errno_line ''uapi set error, errno='' (substr_from line (eq + 1))
          else Inr ())"

definition ParseSetResponse :: "string \<Rightarrow> unit res" where
  "ParseSetResponse response = rfold set_response_line () (getlines response)"

section \<open>Reading a response line by line\<close>

lemma split_line_kv [simp]: "CHR ''='' \<notin> set k \<Longrightarrow> split_line (kv_line k v) = Some (k, v)"
  using find_char_append [of "CHR ''=''" k v]
  by (simp add: split_line_def kv_line_def substr_def substr_from_def)

lemma split_line_Some: "split_line l = Some (k, v) \<Longrightarrow> l = kv_line k v \<and> CHR ''='' \<notin> set k"
proof -
  assume "split_line l = Some (k, v)"
  then obtain i where i: "find_char (CHR ''='') l = Some i" and kv: "k = take i l" "v = drop (Suc i) l"
    by (auto simp: split_line_def substr_def substr_from_def split: option.splits)
  from find_char_Some [OF i] kv show ?thesis by (simp add: kv_line_def)
qed

lemma kv_line_nonempty [simp]: "kv_line k v \<noteq> []"
  by (simp add: kv_line_def)

text \<open>The state inside the section of the last peer \<open>p\<close>.\<close>

definition in_peer :: "device \<Rightarrow> peer list \<Rightarrow> peer \<Rightarrow> get_state" where
  "in_peer d ps p = \<lparr>gs_device = d\<lparr>peers := ps @ [p]\<rparr>, gs_currentPeer = Some (length ps)\<rparr>"

lemma get_line_peer:
  assumes "k \<noteq> ''errno''" and "k \<noteq> ''public_key''" and "CHR ''='' \<notin> set k"
  shows "get_line L (in_peer d ps p) (kv_line k v) = rbind (peer_field L k v p) (\<lambda>p'. Inr (in_peer d ps p'))"
  using assms by (simp add: get_line_def in_peer_def)

lemma get_line_public_key:
  "get_line L \<lparr>gs_device = d\<lparr>peers := ps\<rparr>, gs_currentPeer = c\<rparr> (kv_line ''public_key'' v) =
   rbind (KeyFromHex v) (\<lambda>k. Inr (in_peer d ps (default_peer\<lparr>publicKey := k\<rparr>)))"
  by (simp add: get_line_def in_peer_def)

lemma get_line_device:
  assumes "k \<noteq> ''errno''" and "k \<noteq> ''public_key''" and "CHR ''='' \<notin> set k"
  shows "get_line L \<lparr>gs_device = d, gs_currentPeer = None\<rparr> (kv_line k v) =
    rbind (device_field k v d) (\<lambda>d'. Inr \<lparr>gs_device = d', gs_currentPeer = None\<rparr>)"
  using assms by (simp add: get_line_def)

lemma rfold_get_peer:
  assumes "\<And>k v. (k, v) \<in> set kvs \<Longrightarrow> k \<noteq> ''errno'' \<and> k \<noteq> ''public_key'' \<and> CHR ''='' \<notin> set k"
    and "rfold (\<lambda>p (k, v). peer_field L k v p) p kvs = Inr p'"
  shows "rfold (get_line L) (in_peer d ps p) (map (\<lambda>(k, v). kv_line k v) kvs) = Inr (in_peer d ps p')"
  using assms
proof (induction kvs arbitrary: p)
  case (Cons kv kvs)
  obtain k v where kv: "kv = (k, v)" by force
  with Cons.prems(2) obtain q where q: "peer_field L k v p = Inr q"
    "rfold (\<lambda>p (k, v). peer_field L k v p) q kvs = Inr p'" by (auto simp: rbind_Inr_iff)
  have "k \<noteq> ''errno'' \<and> k \<noteq> ''public_key'' \<and> CHR ''='' \<notin> set k"
    by (rule Cons.prems(1) [of k v]) (simp add: kv)
  moreover have "rfold (get_line L) (in_peer d ps q) (map (\<lambda>(k, v). kv_line k v) kvs) = Inr (in_peer d ps p')"
  proof (rule Cons.IH [OF _ q(2)])
    fix k' v' assume "(k', v') \<in> set kvs"
    then show "k' \<noteq> ''errno'' \<and> k' \<noteq> ''public_key'' \<and> CHR ''='' \<notin> set k'"
      by (intro Cons.prems(1) [of k' v']) simp
  qed
  ultimately show ?case using q(1) by (simp add: kv get_line_peer)
qed simp

section \<open>The lines a device stands for\<close>

definition opt_kv :: "string \<Rightarrow> ('a \<Rightarrow> string) \<Rightarrow> 'a option \<Rightarrow> (string \<times> string) list" where
  "opt_kv k f x = (case x of Some v \<Rightarrow> [(k, f v)] | None \<Rightarrow> [])"

definition peer_kvs :: "peer \<Rightarrow> (string \<times> string) list" where
  "peer_kvs p =
     opt_kv ''preshared_key'' KeyToHex (presharedKey p) @ [(''protocol_version'', num (protocolVersion p))]
     @ opt_kv ''endpoint'' id (endpoint p)
     @ [(''last_handshake_time_sec'', num (lastHandshakeTimeSec p)), (''last_handshake_time_nsec'', ''0''),
        (''tx_bytes'', num (transmitBytes p)), (''rx_bytes'', num (receiveBytes p)),
        (''persistent_keepalive_interval'', num (persistentKeepaliveInterval p))]
     @ map (\<lambda>a. (''allowed_ip'', FormatCIDR a)) (allowedIPs p)"

definition get_peer_lines :: "peer \<Rightarrow> string list" where
  "get_peer_lines p =
     kv_line ''public_key'' (KeyToHex (publicKey p)) # map (\<lambda>(k, v). kv_line k v) (peer_kvs p)"

definition get_lines :: "device \<Rightarrow> string list" where
  "get_lines d =
     opt_line ''private_key'' KeyToHex (privateKey d) @ [kv_line ''listen_port'' (num (listenPort d))]
     @ [kv_line ''fwmark'' (num (firewallMark d))] @ concat (map get_peer_lines (peers d))
     @ [kv_line ''errno'' ''0'']"

lemma ParseUnsignedInRange_num:
  "unat w < 2 ^ 64 \<Longrightarrow> of_nat (unat w) \<le> m \<Longrightarrow> ParseUnsignedInRange (num w) m field = Inr (of_nat (unat w))"
  by (simp add: ParseUnsignedInRange_def num_def stoul_to_string not_less [symmetric])

lemma unat_u32_bound: "unat (w :: u32) < 2 ^ 32"
proof -
  have "unat w < 2 ^ LENGTH(32)" by (rule unsigned_less)
  then show ?thesis by simp
qed

lemma unat_u64_bound: "unat (w :: u64) < 2 ^ 64"
proof -
  have "unat w < 2 ^ LENGTH(64)" by (rule unsigned_less)
  then show ?thesis by simp
qed

lemma unat_of_nat_u64: "n < 2 ^ 64 \<Longrightarrow> unat (of_nat n :: u64) = n"
  by (simp add: unat_of_nat take_bit_nat_eq_self)

lemma ucast_u64_back: "LENGTH('a) \<le> 64 \<Longrightarrow> ucast (ucast (w :: 'a::len word) :: u64) = w"
  by (rule bit_word_eqI) (simp add: bit_simps)

lemma ParseUint16_num: "ParseUint16 (num (w :: u16)) field = Inr w"
proof -
  have w: "unat w < 2 ^ 64" "unat w \<le> 65535" using unat_u16_bound [of w] by simp_all
  then have "(of_nat (unat w) :: u64) \<le> 65535"
    unfolding word_le_nat_alt unat_of_nat_u64 [OF w(1)] by simp
  from ParseUnsignedInRange_num [OF w(1) this] show ?thesis
    by (simp add: ParseUint16_def ucast_u64_back)
qed

lemma ParseUint32_num: "ParseUint32 (num (w :: u32)) field = Inr w"
proof -
  have w: "unat w < 2 ^ 64" "unat w \<le> 4294967295" using unat_u32_bound [of w] by simp_all
  then have "(of_nat (unat w) :: u64) \<le> 4294967295"
    unfolding word_le_nat_alt unat_of_nat_u64 [OF w(1)] by simp
  from ParseUnsignedInRange_num [OF w(1) this] show ?thesis
    by (simp add: ParseUint32_def ucast_u64_back)
qed

lemma stoull_num: "stoull (num (w :: u64)) = Inr (w, length (num w))"
  unfolding num_def stoull_to_string [OF unat_u64_bound] by simp

lemma stoll_num: "unat (w :: u64) < 2 ^ 63 \<Longrightarrow> stoll (num w) = Inr (int (unat w), length (num w))"
  by (simp add: num_def stoll_to_string)

definition readable_peer :: "inet_lib \<Rightarrow> peer \<Rightarrow> bool" where
  "readable_peer L p \<longleftrightarrow> wf_peer p \<and> pred_option clean_text (endpoint p) \<and> unat (lastHandshakeTimeSec p) < 2 ^ 63
     \<and> list_all (\<lambda>a. cidr_ok L a \<and> clean_text (ip a) \<and> CHR ''/'' \<notin> set (ip a)) (allowedIPs p)"

lemma peer_field_simps:
  "peer_field L ''preshared_key'' v p = rbind (KeyFromHex v) (\<lambda>k. Inr (p\<lparr>presharedKey := Some k\<rparr>))"
  "peer_field L ''endpoint'' v p = Inr (p\<lparr>endpoint := Some v\<rparr>)"
  "peer_field L ''last_handshake_time_sec'' v p =
     rbind (stoll v) (\<lambda>(x, _). Inr (p\<lparr>lastHandshakeTimeSec := word_of_int x\<rparr>))"
  "peer_field L ''last_handshake_time_nsec'' v p = Inr p"
  "peer_field L ''rx_bytes'' v p = rbind (stoull v) (\<lambda>(x, _). Inr (p\<lparr>receiveBytes := x\<rparr>))"
  "peer_field L ''tx_bytes'' v p = rbind (stoull v) (\<lambda>(x, _). Inr (p\<lparr>transmitBytes := x\<rparr>))"
  "peer_field L ''persistent_keepalive_interval'' v p =
     rbind (ParseUint16 v ''persistent_keepalive_interval'') (\<lambda>x. Inr (p\<lparr>persistentKeepaliveInterval := x\<rparr>))"
  "peer_field L ''allowed_ip'' v p = rbind (ParseCIDR L v) (\<lambda>a. Inr (p\<lparr>allowedIPs := allowedIPs p @ [a]\<rparr>))"
  "peer_field L ''protocol_version'' v p =
     rbind (ParseUint32 v ''protocol_version'') (\<lambda>x. Inr (p\<lparr>protocolVersion := x\<rparr>))"
  by (simp_all add: peer_field_def)

lemma rfold_allowed_ips:
  assumes "list_all (\<lambda>a. cidr_ok L a \<and> CHR ''/'' \<notin> set (ip a)) as"
  shows "rfold (\<lambda>p (k, v). peer_field L k v p) p (map (\<lambda>a. (''allowed_ip'', FormatCIDR a)) as) =
    Inr (p\<lparr>allowedIPs := allowedIPs p @ as\<rparr>)"
  using assms by (induction as arbitrary: p) (simp_all add: peer_field_simps ParseCIDR_FormatCIDR)

lemma rfold_peer_kvs:
  assumes "readable_peer L p"
  shows "rfold (\<lambda>p (k, v). peer_field L k v p) (default_peer\<lparr>publicKey := publicKey p\<rparr>) (peer_kvs p) = Inr p"
proof -
  have ips: "list_all (\<lambda>a. cidr_ok L a \<and> CHR ''/'' \<notin> set (ip a)) (allowedIPs p)"
    using assms by (auto simp: readable_peer_def list_all_iff)
  have psk: "\<And>k. presharedKey p = Some k \<Longrightarrow> KeyFromHex (KeyToHex k) = Inr k"
    using assms by (auto simp: readable_peer_def wf_peer_def KeyFromHex_KeyToHex)
  have time: "stoll (num (lastHandshakeTimeSec p)) =
      Inr (int (unat (lastHandshakeTimeSec p)), length (num (lastHandshakeTimeSec p)))"
    using assms by (intro stoll_num) (simp add: readable_peer_def)
  show ?thesis unfolding peer_kvs_def rfold_append
    by (cases "presharedKey p"; cases "endpoint p")
      (simp_all add: opt_kv_def peer_field_simps rfold_allowed_ips [OF ips] psk time stoull_num
        ParseUint16_num ParseUint32_num default_peer_def)
qed

lemma peer_kvs_keys:
  "(k, v) \<in> set (peer_kvs p) \<Longrightarrow> k \<noteq> ''errno'' \<and> k \<noteq> ''public_key'' \<and> CHR ''='' \<notin> set k"
  by (auto simp: peer_kvs_def opt_kv_def split: option.splits)

lemma rfold_get_peer_lines:
  assumes "readable_peer L p"
  shows "rfold (get_line L) \<lparr>gs_device = d\<lparr>peers := ps\<rparr>, gs_currentPeer = c\<rparr> (get_peer_lines p) =
    Inr (in_peer d ps p)"
proof -
  have "KeyFromHex (KeyToHex (publicKey p)) = Inr (publicKey p)"
    using assms by (auto simp: readable_peer_def wf_peer_def KeyFromHex_KeyToHex)
  with rfold_get_peer [OF peer_kvs_keys rfold_peer_kvs [OF assms]] show ?thesis
    by (simp add: get_peer_lines_def get_line_public_key)
qed

lemma rfold_get_peers:
  assumes "list_all (readable_peer L) qs"
  shows "\<exists>c. rfold (get_line L) \<lparr>gs_device = d\<lparr>peers := ps\<rparr>, gs_currentPeer = c0\<rparr>
    (concat (map get_peer_lines qs)) = Inr \<lparr>gs_device = d\<lparr>peers := ps @ qs\<rparr>, gs_currentPeer = c\<rparr>"
  using assms
proof (induction qs arbitrary: ps c0)
  case (Cons q qs)
  then show ?case using Cons.IH [of "ps @ [q]" "Some (length ps)"]
    by (simp add: rfold_append rfold_get_peer_lines) (simp add: in_peer_def)
qed auto

definition consistent_public :: "'p openssl \<Rightarrow> device \<Rightarrow> bool" where
  "consistent_public ssl d \<longleftrightarrow>
     (case privateKey d of
        Some k \<Rightarrow> if IsZeroKey k then dev_publicKey d = None
                  else (case dev_publicKey d of Some pub \<Rightarrow> PublicKeyFromPrivate ssl k = Inr pub | None \<Rightarrow> False)
      | None \<Rightarrow> dev_publicKey d = None)"

definition readable_device :: "inet_lib \<Rightarrow> 'p openssl \<Rightarrow> device \<Rightarrow> bool" where
  "readable_device L ssl d \<longleftrightarrow> userspace d \<and> pred_option is_key (privateKey d) \<and> consistent_public ssl d
     \<and> list_all (readable_peer L) (peers d)"

lemma device_field_simps:
  "device_field ''private_key'' v d = rbind (KeyFromHex v) (\<lambda>k. Inr (d\<lparr>privateKey := Some k\<rparr>))"
  "device_field ''listen_port'' v d = rbind (ParseUint16 v ''listen_port'') (\<lambda>x. Inr (d\<lparr>listenPort := x\<rparr>))"
  "device_field ''fwmark'' v d = rbind (ParseUint32 v ''fwmark'') (\<lambda>x. Inr (d\<lparr>firewallMark := x\<rparr>))"
  by (simp_all add: device_field_def)

lemma clean_get_lines:
  assumes "inet_ok L" and "list_all (readable_peer L) (peers d)" and "l \<in> set (get_lines d)"
  shows "LF \<notin> set l"
proof -
  have kv: "LF \<notin> set v" if "readable_peer L p" "(k, v) \<in> set (peer_kvs p)" for p k v
    using that FormatCIDR_safe [OF assms(1)]
    by (cases "endpoint p")
      (auto simp: readable_peer_def peer_kvs_def opt_kv_def clean_text_def list_all_iff split: option.splits)
  have key: "LF \<notin> set k" if "(k, v) \<in> set (peer_kvs p)" for p k v
    using that by (auto simp: peer_kvs_def opt_kv_def split: option.splits)
  have "LF \<notin> set l" if "p \<in> set (peers d)" "l \<in> set (get_peer_lines p)" for p
    using that assms(2) kv key by (fastforce simp: get_peer_lines_def kv_line_def list_all_iff)
  then show ?thesis using assms(3)
    by (auto simp: get_lines_def kv_line_def opt_line_def split: option.splits)
qed

lemma get_line_errno_0: "get_line L s (kv_line ''errno'' ''0'') = Inr s"
proof -
  have "stoi (to_string 0) = Inr (int 0, length (to_string 0))" by (rule stoi_to_string) simp
  moreover have "to_string 0 = ''0''" by (subst to_string.simps) (simp add: digit_char_def char_of_def bit_0)
  ultimately show ?thesis by (simp add: get_line_def errno_line_def)
qed

lemma rfold_get_lines:
  assumes "pred_option is_key (privateKey d)" and "list_all (readable_peer L) (peers d)"
    and "d0 = \<lparr>dev_name = n, userspace = u, privateKey = None, dev_publicKey = None,
      listenPort = 0, firewallMark = 0, peers = []\<rparr>"
  shows "\<exists>c. rfold (get_line L) \<lparr>gs_device = d0, gs_currentPeer = None\<rparr> (get_lines d) =
    Inr \<lparr>gs_device = d\<lparr>dev_name := n, userspace := u, dev_publicKey := None\<rparr>, gs_currentPeer = c\<rparr>"
proof -
  let ?d = "d\<lparr>dev_name := n, userspace := u, dev_publicKey := None, peers := []\<rparr>"
  have "rfold (get_line L) \<lparr>gs_device = d0, gs_currentPeer = None\<rparr>
      (opt_line ''private_key'' KeyToHex (privateKey d) @ [kv_line ''listen_port'' (num (listenPort d))]
       @ [kv_line ''fwmark'' (num (firewallMark d))]) = Inr \<lparr>gs_device = ?d, gs_currentPeer = None\<rparr>"
    using assms(1) unfolding assms(3)
    by (cases "privateKey d")
      (simp_all add: opt_line_def get_line_device device_field_simps KeyFromHex_KeyToHex ParseUint16_num ParseUint32_num)
  moreover obtain c where "rfold (get_line L) \<lparr>gs_device = ?d, gs_currentPeer = None\<rparr>
      (concat (map get_peer_lines (peers d))) = Inr \<lparr>gs_device = ?d\<lparr>peers := peers d\<rparr>, gs_currentPeer = c\<rparr>"
    using rfold_get_peers [OF assms(2), where d = ?d and ps = "[]" and ?c0.0 = None] by auto
  ultimately show ?thesis
    unfolding get_lines_def append_assoc [symmetric]
    by (simp add: rfold_append [of _ _ _ "[_]"] rfold_append [of _ _ _ "concat _"] get_line_errno_0
        del: append_assoc)
qed

lemma ParseGetResponse_get_lines:
  assumes "inet_ok L" and "readable_device L ssl d"
  shows "ParseGetResponse L ssl (dev_name d) (unlines (get_lines d) @ [LF]) = Inr d"
proof -
  have d: "pred_option is_key (privateKey d)" "list_all (readable_peer L) (peers d)" "userspace d"
    using assms(2) by (simp_all add: readable_device_def)
  let ?d0 = "default_device\<lparr>dev_name := dev_name d, userspace := True\<rparr>"
  obtain c where c: "rfold (get_line L) \<lparr>gs_device = ?d0, gs_currentPeer = None\<rparr> (get_lines d) =
    Inr \<lparr>gs_device = d\<lparr>dev_name := dev_name d, userspace := True, dev_publicKey := None\<rparr>, gs_currentPeer = c\<rparr>"
    using rfold_get_lines [OF d(1,2), of ?d0 "dev_name d" True] by (auto simp: default_device_def)
  have "getlines (unlines (get_lines d) @ [LF]) = get_lines d @ [[]]"
    using getlines_unlines [OF clean_get_lines [OF assms(1) d(2)], of "get_lines d" "[LF]"] by simp
  then have "ParseGetResponse L ssl (dev_name d) (unlines (get_lines d) @ [LF]) =
      derive_public ssl (d\<lparr>dev_name := dev_name d, userspace := True, dev_publicKey := None\<rparr>)"
    using c by (simp add: ParseGetResponse_def rfold_append get_line_def)
  also have "\<dots> = Inr d"
    using assms(2) d(3) by (cases d)
      (auto simp: readable_device_def derive_public_def consistent_public_def split: option.splits if_splits)
  finally show ?thesis .
qed

section \<open>What every accepted response satisfies\<close>

definition get_inv :: "get_state \<Rightarrow> bool" where
  "get_inv s \<longleftrightarrow> wf_device (gs_device s) \<and>
     (case gs_currentPeer s of Some i \<Rightarrow> Suc i = length (peers (gs_device s)) | None \<Rightarrow> peers (gs_device s) = [])"

lemma peer_field_wf: "peer_field L k v p = Inr q \<Longrightarrow> wf_peer p \<Longrightarrow> wf_peer q"
  by (auto simp: peer_field_def wf_peer_def rbind_Inr_iff dest: KeyFromHex_is_key split: if_splits)

lemma device_field_wf: "device_field k v d = Inr e \<Longrightarrow> wf_device d \<Longrightarrow> wf_device e \<and> peers e = peers d"
  by (auto simp: device_field_def wf_device_def rbind_Inr_iff dest: KeyFromHex_is_key split: if_splits)

lemma wf_device_peers:
  "wf_device d \<Longrightarrow> list_all wf_peer ps \<Longrightarrow> wf_device (d\<lparr>peers := ps\<rparr>)"
  by (simp add: wf_device_def)

definition is_key_line :: "string \<Rightarrow> bool" where
  "is_key_line l \<longleftrightarrow> (case split_line l of Some (k, _) \<Rightarrow> k = ''public_key'' | None \<Rightarrow> False)"

lemma get_line_cases:
  assumes "get_line L s l = Inr s'"
  obtains (skip) "s' = s" "\<not> is_key_line l"
  | (key) v key where "is_key_line l" "KeyFromHex v = Inr key"
      "s' = s\<lparr>gs_device := (gs_device s)\<lparr>peers := peers (gs_device s) @ [default_peer\<lparr>publicKey := key\<rparr>]\<rparr>,
        gs_currentPeer := Some (length (peers (gs_device s)))\<rparr>"
  | (peer) k v i p where "\<not> is_key_line l" "gs_currentPeer s = Some i"
      "peer_field L k v (peers (gs_device s) ! i) = Inr p"
      "s' = s\<lparr>gs_device := (gs_device s)\<lparr>peers := (peers (gs_device s))[i := p]\<rparr>\<rparr>"
  | (dev) k v d where "\<not> is_key_line l" "gs_currentPeer s = None"
      "device_field k v (gs_device s) = Inr d" "s' = s\<lparr>gs_device := d\<rparr>"
proof (cases "split_line l")
  case None
  then show ?thesis using assms skip by (simp add: get_line_def is_key_line_def split: if_splits)
next
  case (Some kv)
  obtain k v where kv: "kv = (k, v)" by force
  have l: "l \<noteq> []" using Some by (auto simp: split_line_def)
  have is_key: "is_key_line l \<longleftrightarrow> k = ''public_key''" using Some kv by (simp add: is_key_line_def)
  consider "k = ''errno''" | "k = ''public_key''" | "k \<noteq> ''errno''" "k \<noteq> ''public_key''" by blast
  then show ?thesis
  proof cases
    case 1
    then show ?thesis using assms skip Some kv l is_key by (simp add: get_line_def rbind_Inr_iff)
  next
    case 2
    then show ?thesis using assms Some kv l is_key by (auto simp: get_line_def rbind_Inr_iff Let_def intro: key)
  next
    case 3
    then show ?thesis using assms Some kv l is_key
      by (cases "gs_currentPeer s") (auto simp: get_line_def rbind_Inr_iff intro: peer dev)
  qed
qed

lemma get_line_inv:
  assumes "get_line L s l = Inr s'" and "get_inv s"
  shows "get_inv s'"
proof -
  have wf: "wf_device (gs_device s)" using assms(2) by (simp add: get_inv_def)
  then have peers_wf: "list_all wf_peer (peers (gs_device s))" by (simp add: wf_device_def)
  from assms(1) show ?thesis
  proof (cases rule: get_line_cases)
    case (key v key)
    have "wf_peer (default_peer\<lparr>publicKey := key\<rparr>)"
      using KeyFromHex_is_key [OF key(2)] by (simp add: wf_peer_def default_peer_def)
    then show ?thesis using key(3) wf peers_wf by (simp add: get_inv_def wf_device_peers)
  next
    case (peer k v i p)
    then have "i < length (peers (gs_device s))" using assms(2) by (simp add: get_inv_def)
    then have "wf_peer p" using peer_field_wf [OF peer(3)] peers_wf by (simp add: list_all_length)
    then have "list_all wf_peer ((peers (gs_device s))[i := p])"
      using peers_wf by (auto simp: list_all_iff dest!: set_update_subset_insert [THEN subsetD])
    then show ?thesis using peer(2,4) wf assms(2) by (simp add: get_inv_def wf_device_peers)
  next
    case (dev k v d)
    then show ?thesis using assms(2) device_field_wf [OF dev(3)] by (auto simp: get_inv_def)
  qed (use assms(2) in simp)
qed

lemma get_line_peer_count:
  assumes "get_line L s l = Inr s'" and "get_inv s"
  shows "length (peers (gs_device s')) = length (peers (gs_device s)) + (if is_key_line l then 1 else 0)"
  using assms(1)
proof (cases rule: get_line_cases)
  case (dev k v d)
  then show ?thesis using assms(2) device_field_wf [OF dev(3)] by (auto simp: get_inv_def)
qed simp_all

lemma rfold_get_line_inv:
  "rfold (get_line L) s ls = Inr s' \<Longrightarrow> get_inv s \<Longrightarrow>
   get_inv s' \<and> length (peers (gs_device s')) = length (peers (gs_device s)) + length (filter is_key_line ls)"
proof (induction ls arbitrary: s)
  case (Cons l ls)
  then obtain u where u: "get_line L s l = Inr u" "rfold (get_line L) u ls = Inr s'" by (auto simp: rbind_Inr_iff)
  from Cons.IH [OF u(2) get_line_inv [OF u(1) Cons.prems(2)]] get_line_peer_count [OF u(1) Cons.prems(2)]
  show ?case by simp
qed simp

lemma derive_public_wf:
  "derive_public ssl d = Inr e \<Longrightarrow> wf_device d \<Longrightarrow> wf_device e \<and> peers e = peers d \<and> dev_name e = dev_name d"
  by (auto simp: derive_public_def wf_device_def rbind_Inr_iff dest: PublicKeyFromPrivate_is_key
      split: option.splits if_splits)

section \<open>errno lines\<close>

definition errno_of :: "string \<Rightarrow> string option" where
  "errno_of l = (case split_line l of Some (k, v) \<Rightarrow> if k = ''errno'' then Some v else None | None \<Rightarrow> None)"

lemma set_response_line_eq:
  "set_response_line u l =
   (case errno_of l of Some v \<Rightarrow> errno_line ''uapi set error, errno='' v | None \<Rightarrow> Inr ())"
  by (auto simp: set_response_line_def errno_of_def split_line_def split: option.splits)

lemma get_line_errno:
  "errno_of l = Some v \<Longrightarrow> get_line L s l = rbind (errno_line ''uapi get error, errno='' v) (\<lambda>_. Inr s)"
  by (auto simp: errno_of_def get_line_def split_line_def split: option.splits if_splits)

lemma errno_line_Inr: "errno_line m v = Inr () \<longleftrightarrow> (\<exists>n. stoi v = Inr (0, n))"
  by (auto simp: errno_line_def rbind_Inr_iff)

lemma errno_line_nonzero: "stoi v = Inr (c, n) \<Longrightarrow> c \<noteq> 0 \<Longrightarrow> errno_line m v = Inl (SystemError c (m @ v))"
  by (simp add: errno_line_def)

lemma rfold_unit_Inr: "rfold f () xs = Inr () \<longleftrightarrow> list_all (\<lambda>x. f () x = Inr ()) xs"
  by (induction xs) (auto simp: rbind_Inr_iff)

lemma ParseSetResponse_Inr_iff:
  "ParseSetResponse r = Inr () \<longleftrightarrow>
   (\<forall>l \<in> set (getlines r). \<forall>v. errno_of l = Some v \<longrightarrow> (\<exists>n. stoi v = Inr (0, n)))"
  by (auto simp: ParseSetResponse_def rfold_unit_Inr list_all_iff set_response_line_eq errno_line_Inr
      split: option.splits)

lemma rfold_get_line_errno:
  "rfold (get_line L) s ls = Inr s' \<Longrightarrow> l \<in> set ls \<Longrightarrow> errno_of l = Some v \<Longrightarrow> \<exists>n. stoi v = Inr (0, n)"
proof (induction ls arbitrary: s)
  case (Cons x ls)
  then obtain u where "get_line L s x = Inr u" "rfold (get_line L) u ls = Inr s'" by (auto simp: rbind_Inr_iff)
  with Cons show ?case by (auto simp: get_line_errno rbind_Inr_iff errno_line_Inr)
qed simp

section \<open>What the number parser accepts\<close>

text \<open>
  The whole text is white space, at most one sign and digits, and its value modulo
  \<open>2^64\<close> (negated after a minus sign) is at most the maximum.
\<close>

lemma ParseUnsignedInRange_Inr:
  assumes "ParseUnsignedInRange s m f = Inr v"
  shows "\<exists>ws sg ds. s = ws @ sg @ ds \<and> list_all isspace ws \<and> (sg = [] \<or> sg = ''-'' \<or> sg = ''+'')
    \<and> list_all isdigit ds \<and> ds \<noteq> [] \<and> dec_value ds < 2 ^ 64 \<and> v \<le> m
    \<and> v = (if sg = ''-'' then - of_nat (dec_value ds) else of_nat (dec_value ds))"
proof -
  from assms have st: "stoul s = Inr (v, length s)" and v: "v \<le> m"
    by (auto simp: ParseUnsignedInRange_def split: if_splits sum.splits prod.splits)
  then obtain neg k where s: "strto s = Some (neg, k, length s)"
    and k: "k < 2 ^ 64" "v = (if neg then - of_nat k else of_nat k)"
    by (auto simp: stoul_def strtou64_def split: option.splits prod.splits if_splits)
  from strto_consumed_all [OF s] obtain ws sg ds where "s = ws @ sg @ ds" "list_all isspace ws"
    "sg = [] \<or> sg = ''-'' \<or> sg = ''+''" "list_all isdigit ds" "ds \<noteq> []" "k = dec_value ds" "neg = (sg = ''-'')"
    by blast
  with k v show ?thesis by (intro exI [of _ ws] exI [of _ sg] exI [of _ ds]) simp
qed

lemma ParseUnsignedInRange_error:
  "ParseUnsignedInRange s m f = Inl e \<Longrightarrow> \<exists>msg. e = InvalidArgument (f @ msg)"
  by (auto simp: ParseUnsignedInRange_def split: if_splits sum.splits prod.splits)

lemma get_line_name:
  "get_line L s l = Inr s' \<Longrightarrow> dev_name (gs_device s') = dev_name (gs_device s) \<and> userspace (gs_device s') = userspace (gs_device s)"
  by (erule get_line_cases) (auto simp: device_field_def rbind_Inr_iff split: if_splits)

lemma rfold_get_line_name:
  "rfold (get_line L) s ls = Inr s' \<Longrightarrow>
   dev_name (gs_device s') = dev_name (gs_device s) \<and> userspace (gs_device s') = userspace (gs_device s)"
  by (erule rfold_invariant) (auto dest: get_line_name)

lemma ParseGetResponse_rfold:
  assumes "ParseGetResponse L ssl name response = Inr d"
  obtains s where "rfold (get_line L) \<lparr>gs_device = default_device\<lparr>dev_name := name, userspace := True\<rparr>, gs_currentPeer = None\<rparr>
      (getlines response) = Inr s" "derive_public ssl (gs_device s) = Inr d"
  using assms by (auto simp: ParseGetResponse_def rbind_Inr_iff)

section \<open>Properties\<close>

text \<open>
  C8: a get response in the format of the protocol is read back as the device it describes:
  every field, every peer with all its fields and ranges, and the public key derived from the
  private one.
\<close>

theorem get_response_round_trip:
  assumes "inet_ok L" and "readable_device L ssl d"
  shows "ParseGetResponse L ssl (dev_name d) (unlines (get_lines d) @ [LF]) = Inr d"
  using assms by (rule ParseGetResponse_get_lines)

theorem get_response_round_trip_witness:
  "ParseGetResponse ref_inet \<lparr>new_raw_private_key = \<lambda>_. None, get_raw_public_key = \<lambda>_ :: unit. (0, [], 0)\<rparr> ''wg0''
     (unlines (get_lines (default_device\<lparr>dev_name := ''wg0'', userspace := True, listenPort := 51820,
        peers := [default_peer]\<rparr>)) @ [LF]) =
   Inr (default_device\<lparr>dev_name := ''wg0'', userspace := True, listenPort := 51820, peers := [default_peer]\<rparr>)"
proof -
  let ?d = "default_device\<lparr>dev_name := ''wg0'', userspace := True, listenPort := 51820, peers := [default_peer]\<rparr>"
  let ?ssl = "\<lparr>new_raw_private_key = \<lambda>_. None, get_raw_public_key = \<lambda>_ :: unit. (0, [], 0)\<rparr>"
  have "readable_device ref_inet ?ssl ?d"
    by (simp add: readable_device_def consistent_public_def readable_peer_def default_device_def)
      (simp add: default_peer_def)
  from get_response_round_trip [OF inet_ok_ref this] show ?thesis by simp
qed

text \<open>
  C37: whatever response the parser accepts, the device it returns carries the interface's name,
  is marked userspace, holds only 32-byte keys and has one peer per \<open>public_key\<close> line; and
  every \<open>errno\<close> line in it said zero.
\<close>

theorem get_response_device:
  assumes "ParseGetResponse L ssl name response = Inr d"
  shows "dev_name d = name \<and> userspace d \<and> wf_device d
    \<and> length (peers d) = length (filter is_key_line (getlines response))
    \<and> (\<forall>l \<in> set (getlines response). \<forall>v. errno_of l = Some v \<longrightarrow> (\<exists>n. stoi v = Inr (0, n)))"
proof -
  let ?s0 = "\<lparr>gs_device = default_device\<lparr>dev_name := name, userspace := True\<rparr>, gs_currentPeer = None\<rparr>"
  from assms obtain s where s: "rfold (get_line L) ?s0 (getlines response) = Inr s"
    and d: "derive_public ssl (gs_device s) = Inr d" by (rule ParseGetResponse_rfold)
  have "get_inv ?s0" by (simp add: get_inv_def wf_device_def default_device_def)
  from rfold_get_line_inv [OF s this] rfold_get_line_name [OF s] rfold_get_line_errno [OF s] derive_public_wf [OF d]
  have "dev_name d = name" "wf_device d" "length (peers d) = length (filter is_key_line (getlines response))"
    "userspace (gs_device s)"
    by (simp_all add: get_inv_def default_device_def)
  moreover have "userspace d" using d \<open>userspace (gs_device s)\<close>
    by (auto simp: derive_public_def rbind_Inr_iff split: option.splits if_splits)
  ultimately show ?thesis using rfold_get_line_errno [OF s] by blast
qed

theorem get_response_device_witness:
  "\<exists>d. ParseGetResponse ref_inet \<lparr>new_raw_private_key = \<lambda>_. None, get_raw_public_key = \<lambda>_ :: unit. (0, [], 0)\<rparr>
      ''wg0'' [] = Inr d \<and> peers d = []"
proof -
  let ?ssl = "\<lparr>new_raw_private_key = \<lambda>_. None, get_raw_public_key = \<lambda>_ :: unit. (0, [], 0)\<rparr>"
  obtain d where d: "ParseGetResponse ref_inet ?ssl ''wg0'' [] = Inr d"
    by (simp add: ParseGetResponse_def derive_public_def default_device_def)
  from get_response_device [OF this] d show ?thesis by auto
qed

text \<open>
  A set response is accepted exactly when every \<open>errno\<close> line in it says zero, and a first
  \<open>errno\<close> line with another number is thrown as a system error with that number.
\<close>

theorem set_response_outcome:
  "(ParseSetResponse r = Inr () \<longleftrightarrow>
      (\<forall>l \<in> set (getlines r). \<forall>v. errno_of l = Some v \<longrightarrow> (\<exists>n. stoi v = Inr (0, n)))) \<and>
   (getlines r = ls @ l # rest \<longrightarrow> (\<forall>x \<in> set ls. errno_of x = None) \<longrightarrow> errno_of l = Some v \<longrightarrow>
      stoi v = Inr (c, n) \<longrightarrow> c \<noteq> 0 \<longrightarrow>
      ParseSetResponse r = Inl (SystemError c (''uapi set error, errno='' @ v)))"
proof (intro conjI impI)
  show "ParseSetResponse r = Inr () \<longleftrightarrow>
      (\<forall>l \<in> set (getlines r). \<forall>v. errno_of l = Some v \<longrightarrow> (\<exists>n. stoi v = Inr (0, n)))"
    by (rule ParseSetResponse_Inr_iff)
  assume lines: "getlines r = ls @ l # rest" and "\<forall>x \<in> set ls. errno_of x = None"
    and v: "errno_of l = Some v" "stoi v = Inr (c, n)" "c \<noteq> 0"
  then have "rfold set_response_line () ls = Inr ()"
    by (simp add: rfold_unit_Inr list_all_iff set_response_line_eq)
  then show "ParseSetResponse r = Inl (SystemError c (''uapi set error, errno='' @ v))"
    using v by (simp add: ParseSetResponse_def lines rfold_append set_response_line_eq errno_line_nonzero)
qed

theorem set_response_outcome_witness:
  "ParseSetResponse (''errno=22'' @ [LF]) = Inl (SystemError 22 ''uapi set error, errno=22'')"
proof -
  have "getlines (''errno=22'' @ [LF]) = [] @ ''errno=22'' # []" by simp
  moreover have "errno_of ''errno=22'' = Some ''22''"
    by (simp add: errno_of_def split_line_def substr_def substr_from_def)
  moreover have "stoi ''22'' = Inr (22, 2)" by code_simp
  ultimately show ?thesis
    using set_response_outcome [of "''errno=22'' @ [LF]" "[]" "''errno=22''" "[]" "''22''" 22 2] by simp
qed

text \<open>
  The number parser is not as strict as its comment says: a minus sign wraps the value
  modulo \<open>2^64\<close>, so that -18446744073709551615 is taken for 1, and leading white space is skipped.
\<close>

theorem unsigned_parser_accepts_negative:
  "ParseUint16 ''-18446744073709551615'' field = Inr 1 \<and> ParseUint32 '' +7'' field = Inr 7"
proof -
  have "stoul ''-18446744073709551615'' = Inr (1, 21)"
    by (simp add: stoul_def strtou64_def strto_def strto_sign_def dec_value_def isspace_def isdigit_def code_def)
  moreover have "stoul '' +7'' = Inr (7, 3)"
    by (simp add: stoul_def strtou64_def strto_def strto_sign_def dec_value_def isspace_def isdigit_def code_def)
  ultimately show ?thesis by (simp add: ParseUint16_def ParseUint32_def ParseUnsignedInRange_def)
qed

end
