(* ===== verification/UapiSocket.thy ===== *)
theory UapiSocket imports Os IfName begin

text \<open>
  \<open>src/src/uapi/UapiSocket.cpp\<close>: finding the control sockets of userspace implementations
  and one request/response exchange over one. Every exit of \<open>Transact\<close> closes the
  descriptor; the write loop is a partial function, since nothing stops it when \<open>write\<close>
  keeps returning zero, the read loop is bounded by the response limit.
\<close>

definition kSocketDir :: string where "kSocketDir = ''/var/run/wireguard''"
definition kMaxResponseBytes :: nat where "kMaxResponseBytes = 1024 * 1024"
definition sun_path_size :: nat where "sun_path_size = 108"

definition SocketPath :: "string \<Rightarrow> string res" where
  "SocketPath name = rbind (ValidateIfName name) (\<lambda>_. Inr (kSocketDir @ ''/'' @ name @ ''.sock''))"

definition HasSocket :: "os_env \<Rightarrow> string \<Rightarrow> world \<Rightarrow> bool res" where
  "HasSocket E name w = rbind (SocketPath name) (\<lambda>path. Inr (access_ok E w (c_str path)))"

section \<open>Listing\<close>

definition list_step :: "string list \<Rightarrow> string \<Rightarrow> string list" where
  "list_step names fname =
     (let suffix = ''.sock''; suffixLen = 5 in
      if length fname > suffixLen \<and> substr fname (length fname - suffixLen) suffixLen = suffix
      then let name = substr fname 0 (length fname - suffixLen) in
        (case ValidateIfName name of
           Inr _ \<Rightarrow> names @ [name]
         | Inl (InvalidArgument _) \<Rightarrow> names
         | Inl _ \<Rightarrow> names)
      else names)"

definition ListInterfaceNames :: "os_env \<Rightarrow> world \<Rightarrow> string list" where
  "ListInterfaceNames E w =
     (case open_dir E w kSocketDir of
        Inl _ \<Rightarrow> []
      | Inr entries \<Rightarrow> foldl list_step [] entries)"

section \<open>One exchange\<close>

definition fd_close :: "nat \<Rightarrow> world \<Rightarrow> world" where
  "fd_close fd w = w\<lparr>open_fds := remove1 fd (open_fds w)\<rparr>"

definition log_write :: "nat \<Rightarrow> string \<Rightarrow> world \<Rightarrow> world" where
  "log_write fd s w = w\<lparr>written := (written w)(fd := written w fd @ s)\<rparr>"

definition log_read :: "nat \<Rightarrow> string \<Rightarrow> world \<Rightarrow> world" where
  "log_read fd s w = w\<lparr>got := (got w)(fd := got w fd @ s)\<rparr>"

partial_function (option) write_all ::
  "os_env \<Rightarrow> nat \<Rightarrow> string \<Rightarrow> nat \<Rightarrow> world \<Rightarrow> (unit res \<times> world) option" where
  "write_all E fd request pos w =
     (if pos < length request then
        (case ux_write E w fd (drop pos request) of
           Inl e \<Rightarrow> Some (Inl (sys_error E ''write: '' e), w)
         | Inr n \<Rightarrow> write_all E fd request (pos + n) (log_write fd (take n (drop pos request)) w))
      else Some (Inr (), w))"

function read_all :: "os_env \<Rightarrow> nat \<Rightarrow> string \<Rightarrow> world \<Rightarrow> string res \<times> world" where
  "read_all E fd response w =
     (case ux_read E w fd of
        Inl e \<Rightarrow> (Inl (sys_error E ''read: '' e), w)
      | Inr s \<Rightarrow>
          if s = [] then (Inr response, w)
          else if length response + length s > kMaxResponseBytes
          then (Inl (RuntimeError ''uapi response exceeded 1048576 bytes''), log_read fd s w)
          else read_all E fd (response @ s) (log_read fd s w))"
  by pat_completeness auto

termination
  by (relation "measure (\<lambda>(E, fd, response, w). Suc kMaxResponseBytes - length response)")
    (auto simp: neq_Nil_conv)

declare read_all.simps [simp del]

definition Transact :: "os_env \<Rightarrow> string \<Rightarrow> string \<Rightarrow> world \<Rightarrow> string res option \<times> world" where
  "Transact E request name w =
     (case SocketPath name of
        Inl e \<Rightarrow> (Some (Inl e), w)
      | Inr path \<Rightarrow>
     (case ux_socket E w of
        Inl e \<Rightarrow> (Some (Inl (sys_error E ''socket: '' e)), w)
      | Inr fd \<Rightarrow>
     (let w1 = w\<lparr>open_fds := fd # open_fds w, written := (written w)(fd := []), got := (got w)(fd := [])\<rparr> in
     (case (case ux_rcvtimeo E w1 fd of Some e \<Rightarrow> Some e | None \<Rightarrow> ux_sndtimeo E w1 fd) of
        Some e \<Rightarrow> (Some (Inl (sys_error E ''setsockopt timeout: '' e)), fd_close fd w1)
      | None \<Rightarrow>
     (if length path \<ge> sun_path_size
      then (Some (Inl (InvalidArgument (''uapi socket path too long: '' @ path))), fd_close fd w1)
      else
     (case ux_connect E w1 fd (take (sun_path_size - 1) (c_str path)) of
        Some e \<Rightarrow> (Some (Inl (sys_error E (''connect('' @ path @ ''): '') e)), fd_close fd w1)
      | None \<Rightarrow>
     (case write_all E fd request 0 w1 of
        None \<Rightarrow> (None, w1)
      | Some (Inl e, w2) \<Rightarrow> (Some (Inl e), fd_close fd w2)
      | Some (Inr _, w2) \<Rightarrow>
     (case ux_shutdown E w2 fd of
        Some e \<Rightarrow> (Some (Inl (sys_error E ''shutdown: '' e)), fd_close fd w2)
      | None \<Rightarrow>
     (case read_all E fd [] w2 of
        (r, w3) \<Rightarrow> (Some r, fd_close fd w3))))))))))"

interpretation has: guarded_op "\<lambda>name w. (HasSocket E name w, w)" Inl
  by unfold_locales (simp add: HasSocket_def SocketPath_def)

interpretation transact: guarded_op "Transact E request" "\<lambda>e. Some (Inl e)"
  by unfold_locales (simp add: Transact_def SocketPath_def)

section \<open>Paths\<close>

lemma SocketPath_Inr_iff:
  "SocketPath name = Inr path \<longleftrightarrow> valid_ifname name \<and> path = kSocketDir @ ''/'' @ name @ ''.sock''"
  by (cases name rule: ValidateIfName_cases) (auto simp: SocketPath_def)

lemma SocketPath_short: "SocketPath name = Inr path \<Longrightarrow> length path < sun_path_size"
  by (auto simp: SocketPath_Inr_iff valid_ifname_def kSocketDir_def sun_path_size_def)

lemma SocketPath_no_NUL: "SocketPath name = Inr path \<Longrightarrow> c_str path = path"
  using valid_ifname_chars(1) by (intro c_str_id) (auto simp: SocketPath_Inr_iff kSocketDir_def)

text \<open>The path names an entry of the socket directory itself.\<close>

lemma SocketPath_in_dir:
  assumes "SocketPath name = Inr path"
  shows "\<exists>base. path = kSocketDir @ ''/'' @ base \<and> CHR ''/'' \<notin> set base \<and> base \<noteq> ''.'' \<and> base \<noteq> ''..''"
proof -
  have v: "valid_ifname name" and p: "path = kSocketDir @ ''/'' @ (name @ ''.sock'')"
    using assms by (simp_all add: SocketPath_Inr_iff)
  have "name @ ''.sock'' \<noteq> ''.''" "name @ ''.sock'' \<noteq> ''..''" by (cases name; simp)+
  moreover have "CHR ''/'' \<notin> set (name @ ''.sock'')" using valid_ifname_chars(3) [OF v] by auto
  ultimately show ?thesis using p by blast
qed

section \<open>Names\<close>

lemma list_step_eq:
  "list_step names fname =
   (if \<exists>name. fname = name @ ''.sock'' \<and> valid_ifname name
    then names @ [take (length fname - 5) fname] else names)"
proof (cases "length fname > 5 \<and> drop (length fname - 5) fname = ''.sock''")
  case True
  then have "fname = take (length fname - 5) fname @ ''.sock''" by (metis append_take_drop_id)
  then obtain name where f: "fname = name @ ''.sock''" by blast
  then show ?thesis
    by (cases name rule: ValidateIfName_cases) (auto simp: list_step_def substr_def valid_ifname_def)
next
  case False
  have "\<not> (fname = name @ ''.sock'' \<and> valid_ifname name)" for name
    using False by (auto simp: valid_ifname_def)
  then show ?thesis using False by (auto simp: list_step_def substr_def)
qed

lemma ListInterfaceNames_eq:
  "ListInterfaceNames E w =
   (case open_dir E w kSocketDir of
      Inl _ \<Rightarrow> []
    | Inr entries \<Rightarrow> map (\<lambda>f. take (length f - 5) f)
        (filter (\<lambda>f. \<exists>name. f = name @ ''.sock'' \<and> valid_ifname name) entries))"
proof -
  have "foldl list_step acc xs = acc @ map (\<lambda>f. take (length f - 5) f)
      (filter (\<lambda>f. \<exists>name. f = name @ ''.sock'' \<and> valid_ifname name) xs)" for acc xs
    by (induction xs arbitrary: acc) (auto simp: list_step_eq)
  then show ?thesis by (simp add: ListInterfaceNames_def split: sum.split)
qed

lemma ListInterfaceNames_valid: "name \<in> set (ListInterfaceNames E w) \<Longrightarrow> valid_ifname name"
  by (auto simp: ListInterfaceNames_eq split: sum.splits)

section \<open>The loops\<close>

text \<open>\<open>write\<close> makes progress: documented for a blocking stream socket and a non-empty buffer.\<close>

definition writes_progress :: "os_env \<Rightarrow> bool" where
  "writes_progress E \<longleftrightarrow>
     (\<forall>w fd s n. s \<noteq> [] \<longrightarrow> ux_write E w fd s = Inr n \<longrightarrow> 0 < n \<and> n \<le> length s)"

text \<open>
  What the write loop did from position \<open>pos\<close> on: it wrote the request up to some \<open>k\<close>, all
  of it when it did not throw, and touched nothing else.
\<close>

definition wrote_rest :: "nat \<Rightarrow> string \<Rightarrow> nat \<Rightarrow> world \<Rightarrow> unit res \<Rightarrow> world \<Rightarrow> bool" where
  "wrote_rest fd request pos w r w' \<longleftrightarrow>
     open_fds w' = open_fds w \<and> open_socks w' = open_socks w \<and> got w' = got w \<and> sent w' = sent w
     \<and> (\<exists>k. pos \<le> k \<and> k \<le> length request \<and> (r = Inr () \<longrightarrow> k = length request)
         \<and> written w' fd = written w fd @ take (k - pos) (drop pos request))
     \<and> (\<forall>e. r = Inl e \<longrightarrow> (\<exists>n msg. e = SystemError n msg))"

lemma wrote_rest_refl:
  "pos \<le> length request \<Longrightarrow> (r = Inr () \<Longrightarrow> pos = length request) \<Longrightarrow>
   (\<And>e. r = Inl e \<Longrightarrow> \<exists>n msg. e = SystemError n msg) \<Longrightarrow> wrote_rest fd request pos w r w"
  by (auto simp: wrote_rest_def intro!: exI [of _ pos])

lemma wrote_rest_step:
  assumes "wrote_rest fd request (pos + n) (log_write fd (take n (drop pos request)) w) r w'"
  shows "wrote_rest fd request pos w r w'"
proof -
  from assms obtain k where k: "pos + n \<le> k" "k \<le> length request" "r = Inr () \<longrightarrow> k = length request"
    "written w' fd = (written w fd @ take n (drop pos request)) @ take (k - (pos + n)) (drop (pos + n) request)"
    by (auto simp: wrote_rest_def log_write_def)
  have "take n (drop pos request) @ take (k - (pos + n)) (drop (pos + n) request) =
      take (n + (k - (pos + n))) (drop pos request)" by (simp add: take_add add.commute)
  then have "written w' fd = written w fd @ take (k - pos) (drop pos request)" using k by simp
  then show ?thesis using assms k by (auto simp: wrote_rest_def log_write_def intro!: exI [of _ k])
qed

lemma write_all_returns:
  assumes "writes_progress E" and "pos \<le> length request"
  shows "\<exists>r w'. write_all E fd request pos w = Some (r, w') \<and> wrote_rest fd request pos w r w'"
  using assms(2)
proof (induction "length request - pos" arbitrary: pos w rule: less_induct)
  case less
  show ?case
  proof (cases "pos < length request")
    case False
    then have "write_all E fd request pos w = Some (Inr (), w)" by (subst write_all.simps) simp
    then show ?thesis using less.prems False by (auto intro!: wrote_rest_refl)
  next
    case True
    show ?thesis
    proof (cases "ux_write E w fd (drop pos request)")
      case (Inl e)
      then have "write_all E fd request pos w = Some (Inl (sys_error E ''write: '' e), w)"
        using True by (subst write_all.simps) simp
      then show ?thesis using True by (auto simp: sys_error_def intro!: wrote_rest_refl)
    next
      case (Inr n)
      let ?w = "log_write fd (take n (drop pos request)) w"
      have n: "0 < n" "n \<le> length request - pos"
        using assms(1) [unfolded writes_progress_def, rule_format, of "drop pos request" w fd n] Inr True
        by simp_all
      then have "length request - (pos + n) < length request - pos" "pos + n \<le> length request"
        using True by simp_all
      from less.hyps [OF this, of ?w] obtain r w' where
        r: "write_all E fd request (pos + n) ?w = Some (r, w')" "wrote_rest fd request (pos + n) ?w r w'"
        by (elim exE conjE)
      have "write_all E fd request pos w = write_all E fd request (pos + n) ?w"
        using True Inr by (subst write_all.simps) simp
      then show ?thesis using r(1) wrote_rest_step [OF r(2)] by simp
    qed
  qed
qed

text \<open>What the read loop returns is what arrived, and it never exceeds the limit.\<close>

lemma read_all_step:
  "read_all E fd response w =
   (case ux_read E w fd of
      Inl e \<Rightarrow> (Inl (sys_error E ''read: '' e), w)
    | Inr s \<Rightarrow>
        if s = [] then (Inr response, w)
        else if length response + length s > kMaxResponseBytes
        then (Inl (RuntimeError ''uapi response exceeded 1048576 bytes''), log_read fd s w)
        else read_all E fd (response @ s) (log_read fd s w))"
  by (rule read_all.simps)

lemma read_all_frame:
  "open_fds (snd (read_all E fd response w)) = open_fds w \<and>
   open_socks (snd (read_all E fd response w)) = open_socks w \<and>
   written (snd (read_all E fd response w)) = written w \<and>
   sent (snd (read_all E fd response w)) = sent w"
proof (induction E fd response w rule: read_all.induct)
  case (1 E fd response w)
  then show ?case
    by (subst (1 2 3 4) read_all_step) (auto simp: log_read_def split: sum.splits)
qed

lemma read_all_Inr:
  "fst (read_all E fd response w) = Inr s \<Longrightarrow> length response \<le> kMaxResponseBytes \<Longrightarrow>
   length s \<le> kMaxResponseBytes \<and> (\<exists>t. s = response @ t \<and> got (snd (read_all E fd response w)) fd = got w fd @ t)"
proof (induction E fd response w rule: read_all.induct)
  case (1 E fd response w)
  show ?case
  proof (cases "ux_read E w fd")
    case (Inl e)
    with "1.prems" show ?thesis by (simp add: read_all_step [of E fd response w])
  next
    case (Inr r)
    show ?thesis
    proof (cases "r = [] \<or> length response + length r > kMaxResponseBytes")
      case True
      with "1.prems" Inr show ?thesis by (auto simp: read_all_step [of E fd response w] split: if_splits)
    next
      case False
      then have *: "read_all E fd response w = read_all E fd (response @ r) (log_read fd r w)"
        using Inr by (simp add: read_all_step [of E fd response w])
      from "1.IH" [OF Inr] False "1.prems" show ?thesis
        unfolding * by (auto simp: log_read_def)
    qed
  qed
qed

lemma read_all_error:
  "fst (read_all E fd response w) = Inl e \<Longrightarrow>
   (\<exists>n msg. e = SystemError n msg) \<or> e = RuntimeError ''uapi response exceeded 1048576 bytes''"
proof (induction E fd response w rule: read_all.induct)
  case (1 E fd response w)
  then show ?case
    by (subst (asm) (2) read_all_step) (auto simp: sys_error_def split: sum.splits if_splits)
qed

section \<open>The exchange\<close>

lemma Transact_returns:
  assumes "writes_progress E"
  shows "\<exists>r w'. Transact E request name w = (Some r, w') \<and> open_fds w' = open_fds w \<and> open_socks w' = open_socks w"
proof (cases "SocketPath name")
  case (Inr path)
  show ?thesis
  proof (cases "ux_socket E w")
    case fd: (Inr fd)
    let ?w = "w\<lparr>open_fds := fd # open_fds w, written := (written w)(fd := []), got := (got w)(fd := [])\<rparr>"
    obtain r w' where w': "write_all E fd request 0 ?w = Some (r, w')" "open_fds w' = fd # open_fds w"
      "open_socks w' = open_socks w"
      using write_all_returns [OF assms, of 0 request fd ?w] by (auto simp: wrote_rest_def)
    then show ?thesis using Inr fd read_all_frame [of E fd "[]" w']
      by (cases r; cases "read_all E fd [] w'")
        (auto simp: Transact_def Let_def fd_close_def split: option.splits)
  qed (use Inr in \<open>simp add: Transact_def\<close>)
qed (simp add: Transact_def)

lemma Transact_Inr:
  assumes "Transact E request name w = (Some (Inr s), w')" and "writes_progress E"
  shows "valid_ifname name" and "length s \<le> kMaxResponseBytes"
    and "\<exists>fd. ux_socket E w = Inr fd \<and> written w' fd = request \<and> got w' fd = s"
proof -
  from assms(1) obtain path fd where path: "SocketPath name = Inr path" and fd: "ux_socket E w = Inr fd"
    by (auto simp: Transact_def split: sum.splits)
  let ?w = "w\<lparr>open_fds := fd # open_fds w, written := (written w)(fd := []), got := (got w)(fd := [])\<rparr>"
  obtain r w2 where w2: "write_all E fd request 0 ?w = Some (r, w2)" and rest: "wrote_rest fd request 0 ?w r w2"
    using write_all_returns [OF assms(2), of 0 request fd ?w] by blast
  from assms(1) path fd w2 have r: "r = Inr ()"
    and s: "read_all E fd [] w2 = (Inr s, snd (read_all E fd [] w2))"
    and w': "w' = fd_close fd (snd (read_all E fd [] w2))"
    by (auto simp: Transact_def Let_def split: option.splits if_splits sum.splits prod.splits)
  then have fs: "fst (read_all E fd [] w2) = Inr s" by (metis fst_conv)
  have w2': "got w2 fd = []" "written w2 fd = request" using rest r by (auto simp: wrote_rest_def)
  show "valid_ifname name" using path by (simp add: SocketPath_Inr_iff)
  from read_all_Inr [OF fs] show "length s \<le> kMaxResponseBytes" by simp
  have "got (snd (read_all E fd [] w2)) fd = s" using read_all_Inr [OF fs] w2'(1) by simp
  moreover have "written (snd (read_all E fd [] w2)) fd = request"
    using read_all_frame [of E fd "[]" w2] w2'(2) by simp
  ultimately show "\<exists>fd. ux_socket E w = Inr fd \<and> written w' fd = request \<and> got w' fd = s"
    using fd w' by (simp add: fd_close_def)
qed

section \<open>Properties\<close>

text \<open>
  C32: the path of a control socket is an entry of the socket directory itself, whatever name
  was asked for: it cannot climb out of it, it holds no NUL, and it fits \<open>sun_path\<close>, so that
  the code's check for an overlong path never fires.
\<close>

theorem socket_path_confined:
  assumes "SocketPath name = Inr path"
  shows "(\<exists>base. path = kSocketDir @ ''/'' @ base \<and> CHR ''/'' \<notin> set base \<and> base \<noteq> ''.'' \<and> base \<noteq> ''..'')
    \<and> c_str path = path \<and> length path < sun_path_size"
  using SocketPath_in_dir [OF assms] SocketPath_no_NUL [OF assms] SocketPath_short [OF assms] by blast

theorem socket_path_confined_witness:
  "length (kSocketDir @ ''/'' @ ''wg0'' @ ''.sock'') < sun_path_size"
proof -
  have "SocketPath ''wg0'' = Inr (kSocketDir @ ''/'' @ ''wg0'' @ ''.sock'')"
    by (simp add: SocketPath_Inr_iff valid_ifname_def code_def)
  from socket_path_confined [OF this] show ?thesis by blast
qed

text \<open>
  C25: a transaction that returns a response was made under a valid name, wrote the whole
  request to the socket in order, and returns exactly the bytes it read, at most one mebibyte.
\<close>

theorem transact_success:
  assumes "Transact E request name w = (Some (Inr s), w')" and "writes_progress E"
  shows "valid_ifname name \<and> length s \<le> kMaxResponseBytes
    \<and> (\<exists>fd. ux_socket E w = Inr fd \<and> written w' fd = request \<and> got w' fd = s)"
  using Transact_Inr [OF assms] by blast

lemma writes_progress_ack: "writes_progress ack_env"
  by (simp add: writes_progress_def ack_env_def)

lemma Transact_ack:
  "\<exists>w'. Transact ack_env ''get=1'' ''wg0'' idle_world = (Some (Inr (''errno=0'' @ [LF, LF])), w')"
proof -
  have path: "SocketPath ''wg0'' = Inr (kSocketDir @ ''/wg0.sock'')"
    by (simp add: SocketPath_Inr_iff valid_ifname_def code_def)
  have short: "\<not> sun_path_size \<le> length (kSocketDir @ ''/wg0.sock'')"
    by (simp add: sun_path_size_def kSocketDir_def)
  have wr: "write_all ack_env 3 ''get=1'' 0 w = Some (Inr (), log_write 3 ''get=1'' w)" for w
    by (subst write_all.simps, subst write_all.simps) (simp add: ack_env_def)
  have rd: "\<exists>w'. read_all ack_env 3 [] w = (Inr (''errno=0'' @ [LF, LF]), w')" if "got w 3 = []" for w
    using that
    by (subst read_all_step, subst read_all_step) (simp add: ack_env_def log_read_def kMaxResponseBytes_def)
  let ?w = "log_write 3 ''get=1'' (idle_world\<lparr>open_fds := [3], written := (\<lambda>_. [])(3 := []), got := (\<lambda>_. [])(3 := [])\<rparr>)"
  obtain w' where "read_all ack_env 3 [] ?w = (Inr (''errno=0'' @ [LF, LF]), w')"
    using rd [of ?w] by (auto simp: log_write_def)
  moreover have "ux_socket ack_env w = Inr 3" "ux_rcvtimeo ack_env w fd = None" "ux_sndtimeo ack_env w fd = None"
    "ux_connect ack_env w fd p = None" "ux_shutdown ack_env w fd = None" for w fd p
    by (simp_all add: ack_env_def)
  moreover have "open_fds idle_world = []" "written idle_world = (\<lambda>_. [])" "got idle_world = (\<lambda>_. [])"
    by (simp_all add: idle_world_def)
  ultimately show ?thesis using short by (simp add: Transact_def path wr Let_def)
qed

theorem transact_success_witness:
  "\<exists>w' fd. Transact ack_env ''get=1'' ''wg0'' idle_world = (Some (Inr (''errno=0'' @ [LF, LF])), w')
    \<and> written w' fd = ''get=1''"
proof -
  obtain w' where w': "Transact ack_env ''get=1'' ''wg0'' idle_world = (Some (Inr (''errno=0'' @ [LF, LF])), w')"
    using Transact_ack by blast
  from transact_success [OF this writes_progress_ack] w' show ?thesis by blast
qed

text \<open>
  C26: a transaction always returns when \<open>write\<close> makes progress, and then the descriptor it
  opened is closed again, on the error paths too.
\<close>

theorem transact_returns_and_closes:
  assumes "writes_progress E"
  shows "\<exists>r w'. Transact E request name w = (Some r, w') \<and> open_fds w' = open_fds w \<and> open_socks w' = open_socks w"
  using assms by (rule Transact_returns)

theorem transact_returns_and_closes_witness:
  "\<exists>r w'. Transact ack_env ''get=1'' ''wg0'' idle_world = (Some r, w') \<and> open_fds w' = []"
  using transact_returns_and_closes [OF writes_progress_ack, of "''get=1''" "''wg0''" idle_world]
  by (auto simp: idle_world_def)

end
