(* ===== verification/Base64.thy ===== *)
theory Base64 imports Key begin

unbundle bit_operations_syntax

text \<open>
  The base64 encoder and decoder of \<open>src/src/crypto/Key.cpp\<close>, as the code shifts them through
  words, and that the one inverts the other.
\<close>

section \<open>The encoder and the decoder\<close>

definition kBase64Chars :: string where
  "kBase64Chars = ''ABCDEFGHIJKLMNOPQRSTUVWXYZabcdefghijklmnopqrstuvwxyz0123456789+/''"

definition Base64DecodeChar :: "char \<Rightarrow> int" where
  "Base64DecodeChar c =
     (if code CHR ''A'' \<le> code c \<and> code c \<le> code CHR ''Z'' then int (code c) - int (code CHR ''A'')
      else if code CHR ''a'' \<le> code c \<and> code c \<le> code CHR ''z'' then int (code c) - int (code CHR ''a'') + 26
      else if code CHR ''0'' \<le> code c \<and> code c \<le> code CHR ''9'' then int (code c) - int (code CHR ''0'') + 52
      else if c = CHR ''+'' then 62
      else if c = CHR ''/'' then 63
      else -1)"

definition b64char :: "u32 \<Rightarrow> nat \<Rightarrow> char" where
  "b64char n k = kBase64Chars ! unat (drop_bit k n AND 0x3F)"

text \<open>
  The loop of \<open>KeyToBase64\<close> takes three bytes at a time and the code after it handles
  the one or two bytes left, so it is a recursion three elements at a time.
\<close>

fun KeyToBase64 :: "bytes \<Rightarrow> string" where
  "KeyToBase64 (a # b # c # rest) =
     (let n = push_bit 16 (ucast a :: u32) OR push_bit 8 (ucast b) OR ucast c
      in [b64char n 18, b64char n 12, b64char n 6, b64char n 0] @ KeyToBase64 rest)"
| "KeyToBase64 [a, b] =
     (let n = push_bit 16 (ucast a :: u32) OR push_bit 8 (ucast b)
      in [b64char n 18, b64char n 12, b64char n 6] @ ''='')"
| "KeyToBase64 [a] =
     (let n = push_bit 16 (ucast a :: u32)
      in [b64char n 18, b64char n 12] @ ''=='')"
| "KeyToBase64 [] = []"

text \<open>\<open>while (!s.empty() && s.back() == '=') s.pop_back()\<close>\<close>

definition strip_pad :: "string \<Rightarrow> string" where
  "strip_pad s = rev (dropWhile (\<lambda>c. c = CHR ''='') (rev s))"

text \<open>
  The state of the decoding loop: the key array, \<open>outPos\<close>, the \<open>int32_t\<close> bit buffer and
  \<open>bits\<close>. The buffer is shifted left 43 times and wraps modulo \<open>2^32\<close>, as the
  compilers the addon is built with do; the right shift is arithmetic.
\<close>

record b64_state =
  b64_key :: key
  b64_outPos :: nat
  b64_buf :: u32
  b64_bits :: nat

definition b64_init :: b64_state where
  "b64_init = \<lparr>b64_key = zero_key, b64_outPos = 0, b64_buf = 0, b64_bits = 0\<rparr>"

definition b64_error :: "string \<Rightarrow> error" where
  "b64_error b64 = InvalidArgument (''invalid base64-encoded WireGuard key: '' @ b64)"

definition b64_step :: "string \<Rightarrow> b64_state \<Rightarrow> char \<Rightarrow> b64_state res" where
  "b64_step b64 s c =
     (let v = Base64DecodeChar c in
      if v < 0 then Inl (b64_error b64)
      else
        let buf = push_bit 6 (b64_buf s) OR word_of_int v;
            bits = b64_bits s + 6
        in if bits \<ge> 8 then
             let bits' = bits - 8 in
             if b64_outPos s \<ge> kKeyLen then Inl (b64_error b64)
             else Inr (s\<lparr>b64_key := (b64_key s)[b64_outPos s := ucast (signed_drop_bit bits' buf AND 0xFF)],
                         b64_outPos := b64_outPos s + 1, b64_buf := buf, b64_bits := bits'\<rparr>)
           else Inr (s\<lparr>b64_buf := buf, b64_bits := bits\<rparr>))"

definition KeyFromBase64 :: "string \<Rightarrow> key res" where
  "KeyFromBase64 b64 =
     (let s = strip_pad b64 in
      if length s \<noteq> 43 then Inl (b64_error b64)
      else rbind (rfold (b64_step b64) b64_init s) (\<lambda>st.
             if b64_outPos st \<noteq> kKeyLen then Inl (b64_error b64) else Inr (b64_key st)))"

section \<open>Base64: bit-level lemmas\<close>

lemma map_Base64DecodeChar: "map Base64DecodeChar kBase64Chars = [0..63]"
  by (simp add: kBase64Chars_def Base64DecodeChar_def code_def upto.simps)

lemma Base64DecodeChar_nth: "i < 64 \<Longrightarrow> Base64DecodeChar (kBase64Chars ! i) = int i"
proof -
  have "length kBase64Chars = 64" by (simp add: kBase64Chars_def)
  moreover have "map Base64DecodeChar kBase64Chars ! i = [0..63] ! i"
    by (simp only: map_Base64DecodeChar)
  ultimately show "i < 64 \<Longrightarrow> ?thesis" by (simp add: nth_upto)
qed

lemma sextet_mask: "(0x3F :: u32) = mask 6" "(0xFF :: u32) = mask 8"
  by (simp_all add: mask_eq_exp_minus_1)

lemma sextet_less: "unat (w AND 0x3F :: u32) < 64"
proof -
  have "unat (w AND 0x3F) \<le> unat (0x3F :: u32)"
    by (intro word_le_nat_alt [THEN iffD1] word_and_le1)
  then show ?thesis by simp
qed

lemma Base64DecodeChar_b64char: "Base64DecodeChar (b64char n k) = uint (drop_bit k n AND 0x3F)"
  unfolding b64char_def Base64DecodeChar_nth [OF sextet_less] by (rule uint_nat [symmetric])

text \<open>
  One character shifts its sextet into the buffer (\<open>b64_feed\<close>); a byte is then read off
  above the \<open>bits\<close> lowest bits (\<open>b64_out\<close>).
\<close>

definition b64_feed :: "u32 \<Rightarrow> u32 \<Rightarrow> nat \<Rightarrow> u32" where
  "b64_feed buf n k = push_bit 6 buf OR (drop_bit k n AND 0x3F)"

definition b64_out :: "nat \<Rightarrow> u32 \<Rightarrow> u8" where
  "b64_out bits buf = ucast (signed_drop_bit bits buf AND 0xFF)"

lemma group_bytes:
  fixes a b c :: u8
  assumes n: "n = push_bit 16 (ucast a :: u32) OR push_bit 8 (ucast b) OR ucast c"
  shows "b64_out 4 (b64_feed (b64_feed buf n 18) n 12) = a"
    and "b64_out 2 (b64_feed (b64_feed buf n 12) n 6) = b"
    and "b64_out 0 (b64_feed (b64_feed buf n 6) n 0) = c"
  unfolding b64_out_def b64_feed_def
  by (rule bit_word_eqI, drule nat_less_8 [OF less_le_trans], simp, elim disjE;
     simp add: n sextet_mask bit_simps bit_u8_high)+

lemma b64_step_valid:
  assumes "0 \<le> Base64DecodeChar c"
  shows "b64_step e s c =
     (let buf = push_bit 6 (b64_buf s) OR word_of_int (Base64DecodeChar c);
          bits = b64_bits s + 6
      in if bits \<ge> 8 then
           (if b64_outPos s \<ge> kKeyLen then Inl (b64_error e)
            else Inr (s\<lparr>b64_key := (b64_key s)[b64_outPos s := b64_out (bits - 8) buf],
                        b64_outPos := b64_outPos s + 1, b64_buf := buf, b64_bits := bits - 8\<rparr>))
         else Inr (s\<lparr>b64_buf := buf, b64_bits := bits\<rparr>))"
  using assms by (simp add: b64_step_def b64_out_def Let_def)

lemma b64_step_b64char:
  "b64_step e s (b64char n k) =
     (let buf = b64_feed (b64_buf s) n k; bits = b64_bits s + 6
      in if bits \<ge> 8 then
           (if b64_outPos s \<ge> kKeyLen then Inl (b64_error e)
            else Inr (s\<lparr>b64_key := (b64_key s)[b64_outPos s := b64_out (bits - 8) buf],
                        b64_outPos := b64_outPos s + 1, b64_buf := buf, b64_bits := bits - 8\<rparr>))
         else Inr (s\<lparr>b64_buf := buf, b64_bits := bits\<rparr>))"
proof -
  have "0 \<le> Base64DecodeChar (b64char n k)"
    and w: "word_of_int (Base64DecodeChar (b64char n k)) = drop_bit k n AND (0x3F :: u32)"
    unfolding Base64DecodeChar_b64char by (rule uint_ge_0) (rule word_of_int_uint)
  then show ?thesis
    unfolding b64_step_valid [OF \<open>0 \<le> Base64DecodeChar (b64char n k)\<close>] w b64_feed_def by simp
qed

text \<open>Decoding the four characters of a group appends its three bytes.\<close>

lemma b64_decode_group:
  fixes a b c :: u8
  assumes n: "n = push_bit 16 (ucast a :: u32) OR push_bit 8 (ucast b) OR ucast c"
    and s: "b64_bits s = 0" "b64_outPos s + 3 \<le> kKeyLen"
  shows "\<exists>buf. rfold (b64_step e) s [b64char n 18, b64char n 12, b64char n 6, b64char n 0] =
    Inr (s\<lparr>b64_key := (b64_key s)[b64_outPos s := a, b64_outPos s + 1 := b, b64_outPos s + 2 := c],
           b64_outPos := b64_outPos s + 3, b64_buf := buf, b64_bits := 0\<rparr>)"
  using s by (simp add: b64_step_b64char group_bytes [OF n] Let_def numeral_3_eq_3) blast

lemma b64_decode_tail:
  fixes a b :: u8
  assumes n: "n = push_bit 16 (ucast a :: u32) OR push_bit 8 (ucast b)"
    and s: "b64_bits s = 0" "b64_outPos s + 2 \<le> kKeyLen"
  shows "\<exists>buf. rfold (b64_step e) s [b64char n 18, b64char n 12, b64char n 6] =
    Inr (s\<lparr>b64_key := (b64_key s)[b64_outPos s := a, b64_outPos s + 1 := b],
           b64_outPos := b64_outPos s + 2, b64_buf := buf, b64_bits := 2\<rparr>)"
proof -
  have n': "n = push_bit 16 (ucast a :: u32) OR push_bit 8 (ucast b) OR ucast (0 :: u8)"
    by (simp add: n)
  show ?thesis using s by (simp add: b64_step_b64char group_bytes [OF n'] Let_def) blast
qed

section \<open>Base64: the decoder inverts the encoder\<close>

text \<open>\<open>b64_at out s\<close>: the decoder has written the bytes \<open>out\<close> and nothing else.\<close>

definition b64_at :: "bytes \<Rightarrow> b64_state \<Rightarrow> bool" where
  "b64_at out s \<longleftrightarrow> b64_key s = out @ replicate (kKeyLen - length out) 0 \<and>
     b64_outPos s = length out \<and> length out \<le> kKeyLen"

lemma b64_at_init: "b64_at [] b64_init"
  by (simp add: b64_at_def b64_init_def zero_key_def)

lemma b64_at_write:
  assumes "b64_at out s" and "length out < kKeyLen"
  shows "(b64_key s)[length out := b] = (out @ [b]) @ replicate (kKeyLen - length (out @ [b])) 0"
  using assms list_update_append_replicate [of out "length out" "kKeyLen - length out" 0 b]
  by (simp add: b64_at_def)

lemma b64_at_update:
  assumes "b64_at out s" and "length out < kKeyLen"
  shows "b64_at (out @ [b]) (s\<lparr>b64_key := (b64_key s)[b64_outPos s := b], b64_outPos := b64_outPos s + 1\<rparr>)"
  using b64_at_write [OF assms, of b] assms by (simp add: b64_at_def)

lemma b64_at_cong:
  "b64_at out s \<Longrightarrow> b64_key t = b64_key s \<Longrightarrow> b64_outPos t = b64_outPos s \<Longrightarrow> b64_at out t"
  by (simp add: b64_at_def)

lemma b64_at_group:
  assumes n: "n = push_bit 16 (ucast a :: u32) OR push_bit 8 (ucast b) OR ucast c"
    and s: "b64_at out s" "b64_bits s = 0" "length out + 3 \<le> kKeyLen"
  shows "\<exists>t. rfold (b64_step e) s [b64char n 18, b64char n 12, b64char n 6, b64char n 0] = Inr t
    \<and> b64_at (out @ [a, b, c]) t \<and> b64_bits t = 0"
proof -
  have pos: "b64_outPos s = length out" using s(1) by (simp add: b64_at_def)
  obtain buf where t: "rfold (b64_step e) s [b64char n 18, b64char n 12, b64char n 6, b64char n 0] =
      Inr (s\<lparr>b64_key := (b64_key s)[b64_outPos s := a, b64_outPos s + 1 := b, b64_outPos s + 2 := c],
           b64_outPos := b64_outPos s + 3, b64_buf := buf, b64_bits := 0\<rparr>)" (is "_ = Inr ?t")
    using b64_decode_group [OF n, of s e] s pos by auto
  have "b64_at (((out @ [a]) @ [b]) @ [c]) ?t"
    by (rule b64_at_cong [OF b64_at_update [OF b64_at_update [OF b64_at_update [OF s(1)]]]])
      (use s pos in \<open>simp_all add: numeral_2_eq_2 numeral_3_eq_3\<close>)
  then show ?thesis using t by auto
qed

lemma b64_at_tail:
  assumes n: "n = push_bit 16 (ucast a :: u32) OR push_bit 8 (ucast b)"
    and s: "b64_at out s" "b64_bits s = 0" "length out + 2 \<le> kKeyLen"
  shows "\<exists>t. rfold (b64_step e) s [b64char n 18, b64char n 12, b64char n 6] = Inr t
    \<and> b64_at (out @ [a, b]) t"
proof -
  have pos: "b64_outPos s = length out" using s(1) by (simp add: b64_at_def)
  obtain buf where t: "rfold (b64_step e) s [b64char n 18, b64char n 12, b64char n 6] =
      Inr (s\<lparr>b64_key := (b64_key s)[b64_outPos s := a, b64_outPos s + 1 := b],
           b64_outPos := b64_outPos s + 2, b64_buf := buf, b64_bits := 2\<rparr>)" (is "_ = Inr ?t")
    using b64_decode_tail [OF n, of s e] s pos by auto
  have "b64_at ((out @ [a]) @ [b]) ?t"
    by (rule b64_at_cong [OF b64_at_update [OF b64_at_update [OF s(1)]]])
      (use s pos in \<open>simp_all add: numeral_2_eq_2\<close>)
  then show ?thesis using t by auto
qed

lemma b64char_in: "b64char n k \<in> set kBase64Chars"
proof -
  have "length kBase64Chars = 64" by (simp add: kBase64Chars_def)
  then show ?thesis unfolding b64char_def by (intro nth_mem) (simp add: sextet_less)
qed

lemma kBase64Chars_safe:
  "CHR ''='' \<notin> set kBase64Chars" "LF \<notin> set kBase64Chars" "NUL \<notin> set kBase64Chars"
  by (simp_all add: kBase64Chars_def)

lemma b64char_not_pad [simp]: "b64char n k \<noteq> CHR ''=''" "CHR ''='' \<noteq> b64char n k"
  using b64char_in [of n k] kBase64Chars_safe(1) by auto

lemma set_KeyToBase64: "set (KeyToBase64 k) \<subseteq> insert (CHR ''='') (set kBase64Chars)"
  by (induction k rule: KeyToBase64.induct) (auto simp: Let_def b64char_in)

lemma KeyToBase64_decodes:
  "length k mod 3 = 2 \<Longrightarrow>
   \<exists>cs. KeyToBase64 k = cs @ ''='' \<and> CHR ''='' \<notin> set cs \<and> 3 * length cs = 4 * length k + 1 \<and>
     (\<forall>e s out. b64_at out s \<longrightarrow> b64_bits s = 0 \<longrightarrow> length out + length k \<le> kKeyLen \<longrightarrow>
        (\<exists>t. rfold (b64_step e) s cs = Inr t \<and> b64_at (out @ k) t))"
proof (induction k rule: KeyToBase64.induct)
  case (1 a b c rest)
  define n where "n = push_bit 16 (ucast a :: u32) OR push_bit 8 (ucast b) OR ucast c"
  let ?g = "[b64char n 18, b64char n 12, b64char n 6, b64char n 0]"
  from "1.prems" have "length rest mod 3 = 2" by (simp add: mod_Suc split: if_splits)
  then obtain cs where cs: "KeyToBase64 rest = cs @ ''=''" "CHR ''='' \<notin> set cs"
      "3 * length cs = 4 * length rest + 1"
    and IH: "\<And>e s out. b64_at out s \<Longrightarrow> b64_bits s = 0 \<Longrightarrow> length out + length rest \<le> kKeyLen \<Longrightarrow>
        \<exists>t. rfold (b64_step e) s cs = Inr t \<and> b64_at (out @ rest) t"
    using "1.IH" [OF n_def] by blast
  have "\<exists>t. rfold (b64_step e) s (?g @ cs) = Inr t \<and> b64_at (out @ a # b # c # rest) t"
    if s: "b64_at out s" "b64_bits s = 0" "length out + length (a # b # c # rest) \<le> kKeyLen" for e s out
  proof -
    obtain u where u: "rfold (b64_step e) s ?g = Inr u" "b64_at (out @ [a, b, c]) u" "b64_bits u = 0"
      using b64_at_group [OF n_def s(1,2)] s(3) by auto
    have "rfold (b64_step e) s (?g @ cs) = rfold (b64_step e) u cs"
      by (simp only: rfold_append u(1) rbind.simps)
    then show ?thesis using IH [of "out @ [a, b, c]" u e] u(2,3) s(3) by simp
  qed
  moreover have "KeyToBase64 (a # b # c # rest) = (?g @ cs) @ ''=''"
    by (simp add: Let_def cs(1) flip: n_def)
  moreover have "CHR ''='' \<notin> set (?g @ cs)" using cs(2) by auto
  moreover have "3 * length (?g @ cs) = 4 * length (a # b # c # rest) + 1" using cs(3) by simp
  ultimately show ?case by blast
next
  case (2 a b)
  define n where "n = push_bit 16 (ucast a :: u32) OR push_bit 8 (ucast b)"
  have "KeyToBase64 [a, b] = [b64char n 18, b64char n 12, b64char n 6] @ ''=''"
    by (simp add: Let_def flip: n_def)
  then show ?case using b64_at_tail [OF n_def]
    by (intro exI [of _ "[b64char n 18, b64char n 12, b64char n 6]"]) auto
qed auto

lemma strip_pad_append: "CHR ''='' \<notin> set cs \<Longrightarrow> strip_pad (cs @ replicate n (CHR ''='')) = cs"
proof -
  assume "CHR ''='' \<notin> set cs"
  then have "dropWhile (\<lambda>c. c = CHR ''='') (rev cs) = rev cs"
    by (cases "rev cs") (auto simp: dropWhile_eq_self_iff dest: arg_cong [of _ _ set])
  then show ?thesis by (simp add: strip_pad_def dropWhile_append)
qed

lemma KeyFromBase64_KeyToBase64:
  assumes "is_key k"
  shows "KeyFromBase64 (KeyToBase64 k) = Inr k"
proof -
  have len: "length k = 32" using assms by (simp add: is_key_def kKeyLen_def)
  then obtain cs where cs: "KeyToBase64 k = cs @ ''=''" "CHR ''='' \<notin> set cs" "3 * length cs = 129"
    and dec: "\<And>e s out. b64_at out s \<Longrightarrow> b64_bits s = 0 \<Longrightarrow> length out + length k \<le> kKeyLen \<Longrightarrow>
        \<exists>t. rfold (b64_step e) s cs = Inr t \<and> b64_at (out @ k) t"
    using KeyToBase64_decodes [of k] by auto
  have "strip_pad (KeyToBase64 k) = cs" using strip_pad_append [OF cs(2), of 1] cs(1) by simp
  moreover obtain t where "rfold (b64_step (KeyToBase64 k)) b64_init cs = Inr t" "b64_at k t"
    using dec [OF b64_at_init, of "KeyToBase64 k"] len by (auto simp: b64_init_def kKeyLen_def)
  ultimately show ?thesis
    using cs(3) len by (simp add: KeyFromBase64_def b64_at_def kKeyLen_def)
qed

section \<open>Base64: what the decoder accepts\<close>

definition b64_valid :: "char \<Rightarrow> bool" where
  "b64_valid c \<longleftrightarrow> 0 \<le> Base64DecodeChar c"

lemma b64_step_total:
  assumes "b64_valid c" and "b64_bits s < 8" and "8 * b64_outPos s + b64_bits s + 6 < 8 * kKeyLen + 8"
  shows "\<exists>t. b64_step e s c = Inr t \<and> b64_bits t < 8 \<and> length (b64_key t) = length (b64_key s)
    \<and> 8 * b64_outPos t + b64_bits t = 8 * b64_outPos s + b64_bits s + 6"
  using assms by (auto simp: b64_valid_def b64_step_valid Let_def)

lemma b64_loop_total:
  assumes "list_all b64_valid cs" and "b64_bits s < 8"
    and "8 * b64_outPos s + b64_bits s + 6 * length cs < 8 * kKeyLen + 8"
  shows "\<exists>t. rfold (b64_step e) s cs = Inr t \<and> b64_bits t < 8 \<and> length (b64_key t) = length (b64_key s)
    \<and> 8 * b64_outPos t + b64_bits t = 8 * b64_outPos s + b64_bits s + 6 * length cs"
  using assms
proof (induction cs arbitrary: s)
  case (Cons c cs)
  then obtain u where u: "b64_step e s c = Inr u" "b64_bits u < 8" "length (b64_key u) = length (b64_key s)"
      "8 * b64_outPos u + b64_bits u = 8 * b64_outPos s + b64_bits s + 6"
    using b64_step_total [of c s e] by auto
  then show ?case using Cons.IH [of u] Cons.prems by auto
qed simp

lemma b64_step_valid_char: "b64_step e s c = Inr u \<Longrightarrow> b64_valid c"
  by (auto simp: b64_step_def b64_valid_def Let_def split: if_splits)

lemma b64_loop_valid: "rfold (b64_step e) s cs = Inr t \<Longrightarrow> list_all b64_valid cs"
proof (induction cs arbitrary: s)
  case (Cons c cs)
  from Cons.prems obtain u where "b64_step e s c = Inr u" "rfold (b64_step e) u cs = Inr t"
    by (auto simp: rbind_Inr_iff)
  then show ?case using Cons.IH [of u] b64_step_valid_char by auto
qed simp

lemma b64_loop_msg: "rfold (b64_step e) s cs = Inr t \<Longrightarrow> rfold (b64_step f) s cs = Inr t"
proof (induction cs arbitrary: s)
  case (Cons c cs)
  from Cons.prems obtain u where u: "b64_step e s c = Inr u" "rfold (b64_step e) u cs = Inr t"
    by (auto simp: rbind_Inr_iff)
  then have "b64_step f s c = Inr u" by (auto simp: b64_step_def Let_def split: if_splits)
  then show ?case using Cons.IH [OF u(2)] by simp
qed simp

lemma KeyFromBase64_accepts:
  assumes "length (strip_pad s) = 43" and "list_all b64_valid (strip_pad s)"
  shows "\<exists>k. KeyFromBase64 s = Inr k \<and> is_key k"
proof -
  obtain t where "rfold (b64_step s) b64_init (strip_pad s) = Inr t" "length (b64_key t) = kKeyLen"
      "b64_bits t < 8" "8 * b64_outPos t + b64_bits t = 258"
    using b64_loop_total [OF assms(2), of b64_init s] assms(1)
    by (auto simp: b64_init_def kKeyLen_def zero_key_def)
  then show ?thesis using assms by (auto simp: KeyFromBase64_def is_key_def kKeyLen_def)
qed

lemma KeyFromBase64_Inr:
  assumes "KeyFromBase64 s = Inr k"
  shows "length (strip_pad s) = 43" "list_all b64_valid (strip_pad s)" "is_key k"
proof -
  from assms obtain t where t: "length (strip_pad s) = 43" "rfold (b64_step s) b64_init (strip_pad s) = Inr t"
    by (auto simp: KeyFromBase64_def Let_def rbind_Inr_iff split: if_splits)
  then show "length (strip_pad s) = 43" and v: "list_all b64_valid (strip_pad s)"
    by (auto dest: b64_loop_valid)
  then obtain k' where "KeyFromBase64 s = Inr k'" "is_key k'" using KeyFromBase64_accepts by blast
  then show "is_key k" using assms by simp
qed

lemma KeyFromBase64_error:
  "KeyFromBase64 s = Inl e \<Longrightarrow> e = b64_error s"
proof -
  have "rfold (b64_step s) u cs = Inl e \<Longrightarrow> e = b64_error s" for u cs
    by (induction cs arbitrary: u) (auto simp: rbind_Inl_iff b64_step_def Let_def split: if_splits)
  then show "KeyFromBase64 s = Inl e \<Longrightarrow> ?thesis"
    by (auto simp: KeyFromBase64_def Let_def rbind_Inl_iff split: if_splits)
qed

lemma strip_pad_idem:
  "strip_pad (strip_pad s @ replicate n (CHR ''='')) = strip_pad s"
proof -
  have "dropWhile P (replicate n c @ dropWhile P xs) = dropWhile P xs" if "P c" for P and c :: char and xs
    using that by (induction n) auto
  then show ?thesis by (simp add: strip_pad_def)
qed

lemma KeyFromBase64_padding:
  assumes "KeyFromBase64 s = Inr k"
  shows "KeyFromBase64 (strip_pad s @ replicate n (CHR ''='')) = Inr k"
proof -
  from assms obtain t where "length (strip_pad s) = 43" "rfold (b64_step s) b64_init (strip_pad s) = Inr t"
      "b64_outPos t = kKeyLen" "k = b64_key t"
    by (auto simp: KeyFromBase64_def Let_def rbind_Inr_iff split: if_splits)
  then show ?thesis using b64_loop_msg [of s b64_init "strip_pad s" t]
    by (simp add: KeyFromBase64_def strip_pad_idem)
qed

interpretation b64: key_codec KeyToBase64 KeyFromBase64
  using set_KeyToBase64 kBase64Chars_safe
  by unfold_locales (auto simp: KeyFromBase64_KeyToBase64 dest: KeyFromBase64_Inr)

section \<open>Round trip and acceptance\<close>

lemma map_code_kBase64Chars: "map code kBase64Chars = [65..<91] @ [97..<123] @ [48..<58] @ [43, 47]"
  by (simp add: kBase64Chars_def code_def upt_conv_Cons)

lemma b64_valid_alphabet: "b64_valid c \<longleftrightarrow> c \<in> set kBase64Chars"
proof -
  have "c \<in> set kBase64Chars \<longleftrightarrow> code c \<in> set (map code kBase64Chars)" by auto
  also have "\<dots> \<longleftrightarrow> 65 \<le> code c \<and> code c \<le> 90 \<or> 97 \<le> code c \<and> code c \<le> 122 \<or> 48 \<le> code c \<and> code c \<le> 57
      \<or> code c = 43 \<or> code c = 47"
    by (simp only: map_code_kBase64Chars set_append set_upt list.set Un_iff atLeastLessThan_iff insert_iff empty_iff)
      (intro iffI; elim disjE; auto)
  also have "\<dots> \<longleftrightarrow> b64_valid c"
  proof -
    have "c = CHR ''+'' \<longleftrightarrow> code c = 43" "c = CHR ''/'' \<longleftrightarrow> code c = 47"
      by (subst code_inject [symmetric], simp add: code_def)+
    then show ?thesis by (simp add: b64_valid_def Base64DecodeChar_def) (auto simp: code_def)
  qed
  finally show ?thesis by simp
qed

text \<open>
  A key written in base64 is read back as the same 32 bytes, and a text that is accepted
  can be normalised: re-encoding the key gives a text that decodes to the same key.
\<close>

theorem base64_round_trip:
  "(is_key k \<longrightarrow> KeyFromBase64 (KeyToBase64 k) = Inr k) \<and>
   (KeyFromBase64 s = Inr k' \<longrightarrow> KeyFromBase64 (KeyToBase64 k') = Inr k')"
  using b64.dec_enc b64.dec_normalises by blast

theorem base64_round_trip_witness:
  "KeyFromBase64 (KeyToBase64 zero_key) = Inr zero_key"
  using base64_round_trip [of zero_key "KeyToBase64 zero_key" zero_key] by simp

text \<open>
  The base64 decoder accepts exactly the texts that are 43 characters of the alphabet after
  their trailing \<open>'='\<close> are removed, however many those are, and yields a 32-byte key; any
  other text is reported as an invalid argument that names it.
\<close>

theorem base64_accepts_exactly:
  "case KeyFromBase64 s of
     Inr k \<Rightarrow> is_key k \<and> length (strip_pad s) = 43 \<and> set (strip_pad s) \<subseteq> set kBase64Chars
   | Inl e \<Rightarrow> e = b64_error s \<and> \<not> (length (strip_pad s) = 43 \<and> set (strip_pad s) \<subseteq> set kBase64Chars)"
proof (cases "KeyFromBase64 s")
  case (Inl e)
  then show ?thesis using KeyFromBase64_accepts [of s] KeyFromBase64_error [OF Inl]
    by (auto simp: list_all_iff b64_valid_alphabet)
next
  case (Inr k)
  then show ?thesis using KeyFromBase64_Inr [OF Inr] by (auto simp: list_all_iff b64_valid_alphabet)
qed

end
