(* ===== verification/AsyncPromise.thy ===== *)
theory AsyncPromise imports Os begin

text \<open>
  \<open>src/src/helpers/AsyncPromise.h\<close>: how the outcome of a worker's \<open>execute\<close> function
  reaches JavaScript. A \<open>SystemError\<close> leaves its errno in the worker, any other exception
  only its message; the promise is resolved or rejected once.
\<close>

text \<open>
  \<open>e.what()\<close>, a C string: what JavaScript sees of a message ends at its first NUL. \<open>Overread\<close> is
  no exception: what happens after it is undefined.
\<close>

fun what :: "error \<Rightarrow> string" where
  "what (SystemError c m) = c_str m"
| "what (InvalidArgument m) = c_str m"
| "what (OutOfRange m) = c_str m"
| "what (RuntimeError m) = c_str m"
| "what Overread = []"

definition ErrnoName :: "int \<Rightarrow> string" where
  "ErrnoName c =
     (if c = ENODEV then ''ENODEV''
      else if c = EEXIST then ''EEXIST''
      else if c = ENOENT then ''ENOENT''
      else if c = EPERM then ''EPERM''
      else if c = EACCES then ''EACCES''
      else if c = EINVAL then ''EINVAL''
      else if c = EBUSY then ''EBUSY''
      else ''EUNKNOWN'')"

record js_error =
  err_message :: string
  err_code :: "string option"
  err_errno :: "int option"

definition plain_error :: "string \<Rightarrow> js_error" where
  "plain_error m = \<lparr>err_message = m, err_code = None, err_errno = None\<rparr>"

text \<open>The worker's fields after \<open>Execute\<close>: \<open>errnoCode_\<close>, the message of \<open>SetError\<close>, the result.\<close>

record 'a worker =
  errnoCode :: int
  error_msg :: "string option"
  w_result :: "'a option"

fun Execute :: "'a res \<Rightarrow> 'a worker" where
  "Execute (Inr x) = \<lparr>errnoCode = 0, error_msg = None, w_result = Some x\<rparr>"
| "Execute (Inl (SystemError c m)) = \<lparr>errnoCode = c, error_msg = Some (what (SystemError c m)), w_result = None\<rparr>"
| "Execute (Inl e) = \<lparr>errnoCode = 0, error_msg = Some (what e), w_result = None\<rparr>"

datatype 'v settlement = Resolved 'v | Rejected js_error

definition OnOK :: "('a \<Rightarrow> 'v) \<Rightarrow> 'a \<Rightarrow> 'v settlement" where
  "OnOK resolve x = Resolved (resolve x)"

definition OnError :: "int \<Rightarrow> string \<Rightarrow> 'v settlement" where
  "OnError errno_code m =
     (let errorObj = plain_error m in
      Rejected (if errno_code \<noteq> 0
                then errorObj\<lparr>err_code := Some (ErrnoName errno_code), err_errno := Some errno_code\<rparr>
                else errorObj))"

text \<open>
  The base class runs \<open>OnError\<close> when \<open>SetError\<close> was called and \<open>OnOK\<close> otherwise (no message of
  the program is empty or starts with a NUL). \<open>None\<close>: the execution read past the end of a
  buffer, nothing is claimed about it.
\<close>

definition PromiseWorker :: "('a \<Rightarrow> 'v) \<Rightarrow> 'a res \<Rightarrow> 'v settlement option" where
  "PromiseWorker resolve r =
     (if r = Inl Overread then None
      else let w = Execute r in
        (case error_msg w of
           Some m \<Rightarrow> Some (OnError (errnoCode w) m)
         | None \<Rightarrow> map_option (OnOK resolve) (w_result w)))"

lemma PromiseWorker_Inr [simp]: "PromiseWorker f (Inr x) = Some (Resolved (f x))"
  by (simp add: PromiseWorker_def OnOK_def)

lemma PromiseWorker_SystemError:
  "c \<noteq> 0 \<Longrightarrow> PromiseWorker f (Inl (SystemError c m)) =
   Some (Rejected \<lparr>err_message = c_str m, err_code = Some (ErrnoName c), err_errno = Some c\<rparr>)"
  by (simp add: PromiseWorker_def OnError_def plain_error_def)

lemma PromiseWorker_other:
  "\<forall>c m. e \<noteq> SystemError c m \<Longrightarrow> e \<noteq> Overread \<Longrightarrow>
   PromiseWorker f (Inl e) = Some (Rejected (plain_error (what e)))"
  by (cases e) (simp_all add: PromiseWorker_def OnError_def)

lemma PromiseWorker_Resolved:
  "PromiseWorker f r = Some (Resolved v) \<longleftrightarrow> (\<exists>x. r = Inr x \<and> v = f x)"
proof (cases r)
  case (Inl e)
  then show ?thesis by (cases e) (auto simp: PromiseWorker_def OnError_def Let_def)
qed auto

lemma ErrnoName_inj:
  assumes "ErrnoName a = ErrnoName b" and "ErrnoName a \<noteq> ''EUNKNOWN''"
  shows "a = b"
  using assms by (auto simp: ErrnoName_def split: if_splits)

end
