(* ===== verification/JsConvert.thy ===== *)
theory JsConvert imports Complex_Main WGTypes Base64 Addr AsyncPromise begin

text \<open>
  The conversions of \<open>src/src/WireGuardClient.cpp\<close> between JavaScript values and the native
  data, \<open>src/src/helpers/Array.h\<close>, and the key functions of \<open>src/src/node-wireguard.cpp\<close>. A
  JavaScript number is not-a-number, an infinity or a rational; an object is an association
  list of its properties (no getters or proxies); strings are their UTF-8 bytes.
\<close>

datatype double = NaN | PosInf | NegInf | Fin rat

datatype js =
    JUndefined
  | JNull
  | JBool bool
  | JNumber double
  | JBigInt u64
  | JString string
  | JDate rat
  | JArray "js list"
  | JObject "(string \<times> js) list"

fun js_props :: "js \<Rightarrow> (string \<times> js) list" where
  "js_props (JObject ps) = ps"
| "js_props _ = []"

definition js_Has :: "js \<Rightarrow> string \<Rightarrow> bool" where
  "js_Has obj key \<longleftrightarrow> map_of (js_props obj) key \<noteq> None"

definition js_Get :: "js \<Rightarrow> string \<Rightarrow> js" where
  "js_Get obj key = (case map_of (js_props obj) key of Some v \<Rightarrow> v | None \<Rightarrow> JUndefined)"

text \<open>\<open>IsObject\<close> also holds of arrays and dates.\<close>

fun IsObject :: "js \<Rightarrow> bool" where
  "IsObject (JObject _) = True"
| "IsObject (JArray _) = True"
| "IsObject (JDate _) = True"
| "IsObject _ = False"

section \<open>Numbers and strings\<close>

text \<open>
  The comparisons of doubles are those of the code: every comparison with not-a-number is
  false. \<open>double_to_int\<close> is the truncation \<open>static_cast\<close> does, defined on finite values only.
\<close>

instantiation double :: ord
begin

fun less_double :: "double \<Rightarrow> double \<Rightarrow> bool" where
  "less_double NaN _ = False"
| "less_double _ NaN = False"
| "less_double (Fin a) (Fin b) = (a < b)"
| "less_double NegInf y = (y \<noteq> NegInf)"
| "less_double _ NegInf = False"
| "less_double PosInf _ = False"
| "less_double (Fin _) PosInf = True"

definition less_eq_double :: "double \<Rightarrow> double \<Rightarrow> bool" where
  "less_eq_double x y \<longleftrightarrow> x < y \<or> x = y \<and> x \<noteq> NaN"

instance ..

end

definition isnan :: "double \<Rightarrow> bool" where
  "isnan d \<longleftrightarrow> d = NaN"

fun floor_double :: "double \<Rightarrow> double" where
  "floor_double (Fin q) = Fin (of_int \<lfloor>q\<rfloor>)"
| "floor_double d = d"

fun double_to_int :: "double \<Rightarrow> int" where
  "double_to_int (Fin q) = (if q < 0 then \<lceil>q\<rceil> else \<lfloor>q\<rfloor>)"
| "double_to_int _ = 0"

definition RequireUint16 :: "double \<Rightarrow> string \<Rightarrow> u16 res" where
  "RequireUint16 d field =
     (if isnan d \<or> floor_double d \<noteq> d \<or> d < Fin 0 \<or> d > Fin 65535
      then Inl (InvalidArgument (field @ '' must be an integer in 0..65535''))
      else Inr (word_of_int (double_to_int d)))"

definition RequireUint32 :: "double \<Rightarrow> string \<Rightarrow> u32 res" where
  "RequireUint32 d field =
     (if isnan d \<or> floor_double d \<noteq> d \<or> d < Fin 0 \<or> d > Fin 4294967295
      then Inl (InvalidArgument (field @ '' must be an integer in 0..4294967295''))
      else Inr (word_of_int (double_to_int d)))"

definition RequireString :: "js \<Rightarrow> string \<Rightarrow> string res" where
  "RequireString obj key =
     (case js_Get obj key of
        JString s \<Rightarrow> Inr s
      | _ \<Rightarrow> Inl (InvalidArgument (key @ '' must be a string'')))"

definition GetStringArg :: "js list \<Rightarrow> nat \<Rightarrow> string option" where
  "GetStringArg info idx =
     (if length info \<le> idx then None
      else (case info ! idx of JString s \<Rightarrow> Some s | _ \<Rightarrow> None))"

section \<open>Native to JavaScript\<close>

definition StringVectorToJS :: "string list \<Rightarrow> js" where
  "StringVectorToJS items = JArray (map JString items)"

text \<open>
  The converse, which no code calls: \<open>None\<close> when an element is no string, where the N-API call
  fails and leaves an exception pending.
\<close>

definition JSArrayToStringVector :: "js list \<Rightarrow> string list option" where
  "JSArrayToStringVector arr = those (map (\<lambda>v. case v of JString s \<Rightarrow> Some s | _ \<Rightarrow> None) arr)"

lemma JSArrayToStringVector_StringVectorToJS:
  "StringVectorToJS items = JArray arr \<Longrightarrow> JSArrayToStringVector arr = Some items"
proof -
  have "those (map Some xs) = Some xs" for xs :: "string list" by (induction xs) simp_all
  then show "StringVectorToJS items = JArray arr \<Longrightarrow> ?thesis"
    by (auto simp: StringVectorToJS_def JSArrayToStringVector_def comp_def)
qed

definition js_uint :: "'a::len word \<Rightarrow> js" where
  "js_uint w = JNumber (Fin (of_nat (unat w)))"

text \<open>
  The conversion of a non-negative integer to a double, and the rounding of a product of two:
  to the nearest number of 53 significant bits, to an even one when there are two.
\<close>

function excess_bits :: "int \<Rightarrow> nat" where
  "excess_bits n = (if n < 2 ^ 53 then 0 else Suc (excess_bits (n div 2)))"
  by auto
termination
  by (relation "measure nat") auto

declare excess_bits.simps [simp del]

definition round_double :: "int \<Rightarrow> int" where
  "round_double n =
     (let m = 2 ^ excess_bits n; q = n div m; r = n mod m
      in (if 2 * r > m \<or> 2 * r = m \<and> odd q then q + 1 else q) * m)"

lemma round_double_exact: "n < 2 ^ 53 \<Longrightarrow> round_double n = n"
  by (simp add: round_double_def excess_bits.simps)

lemma handshake_time_exact: "n * 1000 < 2 ^ 53 \<Longrightarrow> 0 \<le> n \<Longrightarrow> round_double (round_double n * 1000) = n * 1000"
  by (simp add: round_double_exact)

text \<open>\<open>Napi::Date\<close> is given the time in milliseconds, computed in doubles from seconds.\<close>

definition PeerToJs :: "peer \<Rightarrow> js" where
  "PeerToJs p =
     (let psk = (case presharedKey p of
                   Some k \<Rightarrow> if \<not> IsZeroKey k then KeyToBase64 k else [] | None \<Rightarrow> [])
      in JObject
       [(''publicKey'', JString (KeyToBase64 (publicKey p))),
        (''presharedKey'', JString psk),
        (''endpoint'', case endpoint p of Some e \<Rightarrow> JString e | None \<Rightarrow> JUndefined),
        (''persistentKeepaliveInterval'', js_uint (persistentKeepaliveInterval p)),
        (''lastHandshakeTime'',
           if sint (lastHandshakeTimeSec p) > 0
           then JDate (of_int (round_double (round_double (sint (lastHandshakeTimeSec p)) * 1000))) else JNull),
        (''receiveBytes'', JBigInt (receiveBytes p)),
        (''transmitBytes'', JBigInt (transmitBytes p)),
        (''allowedIPs'', JArray (map (\<lambda>a. JString (FormatCIDR a)) (allowedIPs p))),
        (''protocolVersion'', js_uint (protocolVersion p))])"

definition key_js :: "key option \<Rightarrow> js" where
  "key_js k = JString (case k of Some k \<Rightarrow> KeyToBase64 k | None \<Rightarrow> [])"

definition DeviceToJs :: "device \<Rightarrow> js" where
  "DeviceToJs d =
     JObject
       [(''name'', JString (dev_name d)),
        (''type'', JString (if userspace d then ''userspace'' else ''linux-kernel'')),
        (''privateKey'', key_js (privateKey d)),
        (''publicKey'', key_js (dev_publicKey d)),
        (''listenPort'', js_uint (listenPort d)),
        (''firewallMark'', js_uint (firewallMark d)),
        (''peers'', JArray (map PeerToJs (peers d)))]"

section \<open>JavaScript to native\<close>

text \<open>\<open>obj.Has(key) && obj.Get(key).IsBoolean()\<close> and its kin, with the value.\<close>

definition get_bool :: "js \<Rightarrow> string \<Rightarrow> bool option" where
  "get_bool obj key = (if js_Has obj key then (case js_Get obj key of JBool b \<Rightarrow> Some b | _ \<Rightarrow> None) else None)"

definition get_number :: "js \<Rightarrow> string \<Rightarrow> double option" where
  "get_number obj key = (if js_Has obj key then (case js_Get obj key of JNumber d \<Rightarrow> Some d | _ \<Rightarrow> None) else None)"

definition get_string :: "js \<Rightarrow> string \<Rightarrow> string option" where
  "get_string obj key = (if js_Has obj key then (case js_Get obj key of JString s \<Rightarrow> Some s | _ \<Rightarrow> None) else None)"

definition get_array :: "js \<Rightarrow> string \<Rightarrow> js list option" where
  "get_array obj key = (if js_Has obj key then (case js_Get obj key of JArray a \<Rightarrow> Some a | _ \<Rightarrow> None) else None)"

text \<open>An optional field whose conversion may throw.\<close>

definition opt_res :: "('a \<Rightarrow> 'b res) \<Rightarrow> 'a option \<Rightarrow> 'b option res" where
  "opt_res f x = (case x of Some v \<Rightarrow> rbind (f v) (\<lambda>y. Inr (Some y)) | None \<Rightarrow> Inr None)"

definition allowed_ip_from_js :: "inet_lib \<Rightarrow> js \<Rightarrow> allowed_ip res" where
  "allowed_ip_from_js L item =
     (case item of
        JString s \<Rightarrow> ParseCIDR L s
      | _ \<Rightarrow> Inl (InvalidArgument ''allowedIPs entries must be strings''))"

definition PeerConfigFromJs :: "inet_lib \<Rightarrow> js \<Rightarrow> peer_config res" where
  "PeerConfigFromJs L obj =
     rbind (rbind (RequireString obj ''publicKey'') KeyFromBase64) (\<lambda>pk.
     let rm = (case get_bool obj ''remove'' of Some b \<Rightarrow> b | None \<Rightarrow> False);
         up = (case get_bool obj ''updateOnly'' of Some b \<Rightarrow> b | None \<Rightarrow> False) in
     rbind (opt_res KeyFromBase64 (get_string obj ''presharedKey'')) (\<lambda>psk.
     let ep = get_string obj ''endpoint'' in
     rbind (opt_res (\<lambda>d. RequireUint16 d ''persistentKeepaliveInterval'')
              (get_number obj ''persistentKeepaliveInterval'')) (\<lambda>ka.
     let ra = (case get_bool obj ''replaceAllowedIPs'' of Some b \<Rightarrow> b | None \<Rightarrow> False) in
     rbind (case get_array obj ''allowedIPs'' of
              Some arr \<Rightarrow> rmap (allowed_ip_from_js L) arr | None \<Rightarrow> Inr []) (\<lambda>ips.
     Inr \<lparr>pc_publicKey = pk, pc_remove = rm, pc_updateOnly = up, pc_presharedKey = psk,
          pc_endpoint = ep, pc_persistentKeepaliveInterval = ka, pc_replaceAllowedIPs = ra,
          pc_allowedIPs = ips\<rparr>))))"

definition peer_from_js :: "inet_lib \<Rightarrow> js \<Rightarrow> peer_config res" where
  "peer_from_js L item =
     (if \<not> IsObject item then Inl (InvalidArgument ''peers entries must be objects'')
      else PeerConfigFromJs L item)"

definition ConfigFromJs :: "inet_lib \<Rightarrow> js \<Rightarrow> config res" where
  "ConfigFromJs L obj =
     rbind (opt_res KeyFromBase64 (get_string obj ''privateKey'')) (\<lambda>pk.
     rbind (opt_res (\<lambda>d. RequireUint16 d ''listenPort'') (get_number obj ''listenPort'')) (\<lambda>lp.
     rbind (opt_res (\<lambda>d. RequireUint32 d ''firewallMark'') (get_number obj ''firewallMark'')) (\<lambda>fw.
     let rp = (case get_bool obj ''replacePeers'' of Some b \<Rightarrow> b | None \<Rightarrow> False) in
     rbind (case get_array obj ''peers'' of
              Some arr \<Rightarrow> rmap (peer_from_js L) arr | None \<Rightarrow> Inr []) (\<lambda>ps.
     Inr \<lparr>cfg_privateKey = pk, cfg_listenPort = lp, cfg_firewallMark = fw, cfg_replacePeers = rp,
          cfg_peers = ps\<rparr>))))"

section \<open>The key functions of the module\<close>

text \<open>
  A call returns a value or leaves a JavaScript exception pending. \<open>RAND_bytes\<close> failing in
  \<open>generatePrivateKey\<close> or \<open>generatePresharedKey\<close> is a C++ exception nothing catches: \<open>Terminate\<close>.
\<close>

datatype js_return = Returns js | ThrowsTypeError string | ThrowsError string | Terminate error

definition GeneratePrivateKeyJs :: "(nat \<Rightarrow> int \<times> bytes) \<Rightarrow> js_return" where
  "GeneratePrivateKeyJs RAND_bytes =
     (case GeneratePrivateKey RAND_bytes of
        Inr k \<Rightarrow> Returns (JString (KeyToBase64 k)) | Inl e \<Rightarrow> Terminate e)"

definition GeneratePresharedKeyJs :: "(nat \<Rightarrow> int \<times> bytes) \<Rightarrow> js_return" where
  "GeneratePresharedKeyJs RAND_bytes =
     (case GeneratePresharedKey RAND_bytes of
        Inr k \<Rightarrow> Returns (JString (KeyToBase64 k)) | Inl e \<Rightarrow> Terminate e)"

definition PublicKeyJs :: "'p openssl \<Rightarrow> js list \<Rightarrow> js_return" where
  "PublicKeyJs ssl info =
     (case GetStringArg info 0 of
        None \<Rightarrow> ThrowsTypeError ''publicKey(privateKey: string) expects a base64-encoded string''
      | Some s \<Rightarrow>
          (case rbind (KeyFromBase64 s) (\<lambda>priv. PublicKeyFromPrivate ssl priv) of
             Inr pub \<Rightarrow> Returns (JString (KeyToBase64 pub))
           | Inl e \<Rightarrow> ThrowsError (what e)))"

section \<open>What the conversions accept\<close>

lemma double_check:
  "\<not> (isnan d \<or> floor_double d \<noteq> d \<or> d < Fin 0 \<or> d > Fin mx) \<longleftrightarrow>
   (\<exists>v. d = Fin (of_int v) \<and> 0 \<le> v \<and> of_int v \<le> mx)"
proof (cases d)
  case (Fin q)
  have "of_int \<lfloor>q\<rfloor> = q \<longleftrightarrow> (\<exists>v. q = of_int v)" by (metis floor_of_int)
  then show ?thesis using Fin by (auto simp: isnan_def not_less)
qed (simp_all add: isnan_def)

lemma double_to_int_unat: "double_to_int (Fin (of_nat (unat w))) = uint (w :: 'a::len word)"
proof -
  have "(of_nat (unat w) :: rat) = of_int (uint w)" by simp
  then show ?thesis by (simp only: double_to_int.simps floor_of_int ceiling_of_int if_cancel)
qed

lemma RequireUint16_Inr_iff:
  "RequireUint16 d f = Inr w \<longleftrightarrow> d = Fin (of_nat (unat w))"
proof
  assume "RequireUint16 d f = Inr w"
  then obtain v where v: "d = Fin (of_int v)" "0 \<le> v" "(of_int v :: rat) \<le> 65535"
    and w: "w = word_of_int (double_to_int d)"
    using double_check [of d 65535] by (auto simp: RequireUint16_def split: if_splits)
  have "v \<le> 65535" using v(3) by linarith
  then have "int (unat w) = v" using v w by (simp add: uint_word_of_int unsigned_of_int take_bit_int_eq_self)
  then have "v = int (unat w)" by simp
  with v(1) show "d = Fin (of_nat (unat w))" by simp
next
  assume d: "d = Fin (of_nat (unat w))"
  have "(of_int (uint w) :: rat) \<le> 65535" using uint_u16_bound [of w] by linarith
  then have "\<exists>v. d = Fin (of_int v) \<and> 0 \<le> v \<and> (of_int v :: rat) \<le> 65535"
    using d by (intro exI [of _ "uint w"]) simp
  then have "\<not> (isnan d \<or> floor_double d \<noteq> d \<or> d < Fin 0 \<or> d > Fin 65535)"
    by (simp only: double_check)
  then show "RequireUint16 d f = Inr w"
    by (simp only: RequireUint16_def if_False) (simp only: d double_to_int_unat word_of_int_uint)
qed

lemma RequireUint32_Inr_iff:
  "RequireUint32 d f = Inr w \<longleftrightarrow> d = Fin (of_nat (unat w))"
proof
  assume "RequireUint32 d f = Inr w"
  then obtain v where v: "d = Fin (of_int v)" "0 \<le> v" "(of_int v :: rat) \<le> 4294967295"
    and w: "w = word_of_int (double_to_int d)"
    using double_check [of d 4294967295] by (auto simp: RequireUint32_def split: if_splits)
  have "v \<le> 4294967295" using v(3) by linarith
  then have "int (unat w) = v" using v w by (simp add: uint_word_of_int unsigned_of_int take_bit_int_eq_self)
  then have "v = int (unat w)" by simp
  with v(1) show "d = Fin (of_nat (unat w))" by simp
next
  assume d: "d = Fin (of_nat (unat w))"
  have "unat w < 2 ^ LENGTH(32)" by (rule unsigned_less)
  then have "uint w \<le> 4294967295" by (simp add: not_less [symmetric] numeral_less_uint)
  then have "(of_int (uint w) :: rat) \<le> 4294967295" by linarith
  then have "\<exists>v. d = Fin (of_int v) \<and> 0 \<le> v \<and> (of_int v :: rat) \<le> 4294967295"
    using d by (intro exI [of _ "uint w"]) simp
  then have "\<not> (isnan d \<or> floor_double d \<noteq> d \<or> d < Fin 0 \<or> d > Fin 4294967295)"
    by (simp only: double_check)
  then show "RequireUint32 d f = Inr w"
    by (simp only: RequireUint32_def if_False) (simp only: d double_to_int_unat word_of_int_uint)
qed

section \<open>Accepted configurations are well formed\<close>

lemma rmap_list_all: "rmap f xs = Inr ys \<Longrightarrow> (\<And>x y. f x = Inr y \<Longrightarrow> P y) \<Longrightarrow> list_all P ys"
  by (induction xs arbitrary: ys) (auto simp: rbind_Inr_iff)

lemma opt_res_Inr: "opt_res f x = Inr y \<longleftrightarrow> (case x of None \<Rightarrow> y = None | Some v \<Rightarrow> \<exists>z. f v = Inr z \<and> y = Some z)"
  by (cases x) (auto simp: opt_res_def rbind_Inr_iff)

definition parsed_ip :: "inet_lib \<Rightarrow> allowed_ip \<Rightarrow> bool" where
  "parsed_ip L a \<longleftrightarrow> cidr_ok L a \<and> CHR ''/'' \<notin> set (ip a)"

lemma allowed_ip_from_js_parsed: "allowed_ip_from_js L item = Inr a \<Longrightarrow> parsed_ip L a"
  using ParseCIDR_Inr by (fastforce simp: allowed_ip_from_js_def parsed_ip_def split: js.splits)

definition parsed_peer :: "inet_lib \<Rightarrow> peer_config \<Rightarrow> bool" where
  "parsed_peer L p \<longleftrightarrow> wf_peer_config p \<and> list_all (parsed_ip L) (pc_allowedIPs p)"

lemma PeerConfigFromJs_parsed:
  assumes "PeerConfigFromJs L obj = Inr p"
  shows "parsed_peer L p"
proof -
  from assms obtain s pk psk ka ips where "KeyFromBase64 s = Inr pk"
    and psk: "opt_res KeyFromBase64 (get_string obj ''presharedKey'') = Inr psk"
    and ips: "(case get_array obj ''allowedIPs'' of Some arr \<Rightarrow> rmap (allowed_ip_from_js L) arr | None \<Rightarrow> Inr []) = Inr ips"
    and p: "pc_publicKey p = pk" "pc_presharedKey p = psk" "pc_allowedIPs p = ips"
    unfolding PeerConfigFromJs_def Let_def rbind_Inr_iff by auto
  moreover have "pred_option is_key psk"
    using psk KeyFromBase64_Inr(3) by (auto simp: opt_res_Inr split: option.splits)
  moreover have "list_all (parsed_ip L) ips"
    using ips allowed_ip_from_js_parsed [of L] by (auto split: option.splits intro: rmap_list_all)
  ultimately show ?thesis
    using KeyFromBase64_Inr(3) by (simp add: parsed_peer_def wf_peer_config_def)
qed

lemma ConfigFromJs_parsed:
  assumes "ConfigFromJs L obj = Inr cfg"
  shows "wf_config cfg" and "list_all (parsed_peer L) (cfg_peers cfg)"
proof -
  from assms obtain pk ps where pk: "opt_res KeyFromBase64 (get_string obj ''privateKey'') = Inr pk"
    and ps: "(case get_array obj ''peers'' of Some arr \<Rightarrow> rmap (peer_from_js L) arr | None \<Rightarrow> Inr []) = Inr ps"
    and cfg: "cfg_privateKey cfg = pk" "cfg_peers cfg = ps"
    unfolding ConfigFromJs_def Let_def rbind_Inr_iff by auto
  have "peer_from_js L item = Inr p \<Longrightarrow> parsed_peer L p" for item p
    by (auto simp: peer_from_js_def dest: PeerConfigFromJs_parsed split: if_splits)
  then show peers: "list_all (parsed_peer L) (cfg_peers cfg)"
    using ps cfg by (auto split: option.splits intro: rmap_list_all)
  have "pred_option is_key pk" using pk KeyFromBase64_Inr(3) by (auto simp: opt_res_Inr split: option.splits)
  then show "wf_config cfg" using peers cfg by (auto simp: wf_config_def parsed_peer_def list_all_iff)
qed

section \<open>The object a configuration is written as\<close>

definition opt_prop :: "string \<Rightarrow> ('a \<Rightarrow> js) \<Rightarrow> 'a option \<Rightarrow> (string \<times> js) list" where
  "opt_prop k f x = (case x of Some v \<Rightarrow> [(k, f v)] | None \<Rightarrow> [])"

definition peer_config_js :: "peer_config \<Rightarrow> js" where
  "peer_config_js p = JObject
     ([(''publicKey'', JString (KeyToBase64 (pc_publicKey p))), (''remove'', JBool (pc_remove p)),
       (''updateOnly'', JBool (pc_updateOnly p))]
      @ opt_prop ''presharedKey'' (\<lambda>k. JString (KeyToBase64 k)) (pc_presharedKey p)
      @ opt_prop ''endpoint'' JString (pc_endpoint p)
      @ opt_prop ''persistentKeepaliveInterval'' js_uint (pc_persistentKeepaliveInterval p)
      @ [(''replaceAllowedIPs'', JBool (pc_replaceAllowedIPs p)),
         (''allowedIPs'', JArray (map (\<lambda>a. JString (FormatCIDR a)) (pc_allowedIPs p)))])"

definition config_js :: "config \<Rightarrow> js" where
  "config_js c = JObject
     (opt_prop ''privateKey'' (\<lambda>k. JString (KeyToBase64 k)) (cfg_privateKey c)
      @ opt_prop ''listenPort'' js_uint (cfg_listenPort c)
      @ opt_prop ''firewallMark'' js_uint (cfg_firewallMark c)
      @ [(''replacePeers'', JBool (cfg_replacePeers c)), (''peers'', JArray (map peer_config_js (cfg_peers c)))])"

lemma map_of_opt_prop:
  "map_of (opt_prop k f x @ ps) k' = (if k' = k \<and> x \<noteq> None then map_option f x else map_of ps k')"
  by (cases x) (simp_all add: opt_prop_def)

lemma rmap_allowed_ips_js:
  "list_all (parsed_ip L) as \<Longrightarrow> rmap (allowed_ip_from_js L) (map (\<lambda>a. JString (FormatCIDR a)) as) = Inr as"
  by (induction as) (simp_all add: allowed_ip_from_js_def parsed_ip_def ParseCIDR_FormatCIDR)

lemma Require_js_uint:
  "RequireUint16 (Fin (of_nat (unat (w :: u16)))) f = Inr w"
  "RequireUint32 (Fin (of_nat (unat (x :: u32)))) f = Inr x"
  by (simp_all only: RequireUint16_Inr_iff RequireUint32_Inr_iff)

lemmas js_get_defs = js_Has_def js_Get_def get_bool_def get_number_def get_string_def get_array_def

lemma peer_config_props:
  "js_Get (peer_config_js p) ''publicKey'' = JString (KeyToBase64 (pc_publicKey p))"
  "get_bool (peer_config_js p) ''remove'' = Some (pc_remove p)"
  "get_bool (peer_config_js p) ''updateOnly'' = Some (pc_updateOnly p)"
  "get_string (peer_config_js p) ''presharedKey'' = map_option KeyToBase64 (pc_presharedKey p)"
  "get_string (peer_config_js p) ''endpoint'' = pc_endpoint p"
  "get_number (peer_config_js p) ''persistentKeepaliveInterval'' =
     map_option (\<lambda>w. Fin (of_nat (unat w))) (pc_persistentKeepaliveInterval p)"
  "get_bool (peer_config_js p) ''replaceAllowedIPs'' = Some (pc_replaceAllowedIPs p)"
  "get_array (peer_config_js p) ''allowedIPs'' = Some (map (\<lambda>a. JString (FormatCIDR a)) (pc_allowedIPs p))"
  by (simp_all add: peer_config_js_def js_get_defs map_of_opt_prop js_uint_def del: map_of_append split: option.splits)

lemma PeerConfigFromJs_peer_config_js:
  assumes "parsed_peer L p"
  shows "PeerConfigFromJs L (peer_config_js p) = Inr p"
proof -
  have keys: "KeyFromBase64 (KeyToBase64 (pc_publicKey p)) = Inr (pc_publicKey p)"
    "\<And>k. pc_presharedKey p = Some k \<Longrightarrow> KeyFromBase64 (KeyToBase64 k) = Inr k"
    using assms by (auto simp: parsed_peer_def wf_peer_config_def KeyFromBase64_KeyToBase64)
  have ips: "rmap (allowed_ip_from_js L) (map (\<lambda>a. JString (FormatCIDR a)) (pc_allowedIPs p)) = Inr (pc_allowedIPs p)"
    using assms by (intro rmap_allowed_ips_js) (simp add: parsed_peer_def)
  show ?thesis
    by (cases "pc_presharedKey p"; cases "pc_persistentKeepaliveInterval p")
      (simp_all add: PeerConfigFromJs_def RequireString_def peer_config_props keys ips opt_res_def
        Require_js_uint [simplified] Let_def)
qed

lemma config_props:
  "get_string (config_js c) ''privateKey'' = map_option KeyToBase64 (cfg_privateKey c)"
  "get_number (config_js c) ''listenPort'' = map_option (\<lambda>w. Fin (of_nat (unat w))) (cfg_listenPort c)"
  "get_number (config_js c) ''firewallMark'' = map_option (\<lambda>w. Fin (of_nat (unat w))) (cfg_firewallMark c)"
  "get_bool (config_js c) ''replacePeers'' = Some (cfg_replacePeers c)"
  "get_array (config_js c) ''peers'' = Some (map peer_config_js (cfg_peers c))"
  by (simp_all add: config_js_def js_get_defs map_of_opt_prop js_uint_def del: map_of_append split: option.splits)

lemma rmap_peers_js:
  "list_all (parsed_peer L) ps \<Longrightarrow> rmap (peer_from_js L) (map peer_config_js ps) = Inr ps"
proof (induction ps)
  case (Cons p ps)
  have "IsObject (peer_config_js p)" by (simp add: peer_config_js_def)
  with Cons show ?case by (simp add: peer_from_js_def PeerConfigFromJs_peer_config_js)
qed simp

lemma ConfigFromJs_config_js:
  assumes "wf_config c" and "list_all (parsed_peer L) (cfg_peers c)"
  shows "ConfigFromJs L (config_js c) = Inr c"
proof -
  have "\<And>k. cfg_privateKey c = Some k \<Longrightarrow> KeyFromBase64 (KeyToBase64 k) = Inr k"
    using assms(1) by (auto simp: wf_config_def KeyFromBase64_KeyToBase64)
  then show ?thesis using rmap_peers_js [OF assms(2)]
    by (cases "cfg_privateKey c"; cases "cfg_listenPort c"; cases "cfg_firewallMark c")
      (simp_all add: ConfigFromJs_def config_props opt_res_def Require_js_uint [simplified] Let_def)
qed

section \<open>Properties\<close>

text \<open>
  A JavaScript number is taken for a 16-bit or 32-bit field exactly when it is the integer
  the field then holds: not-a-number, infinities, fractions, negative and larger numbers are
  rejected, never wrapped.
\<close>

theorem number_fields_exact:
  "(RequireUint16 d field = Inr v \<longleftrightarrow> d = Fin (of_nat (unat v))) \<and>
   (RequireUint32 d field = Inr w \<longleftrightarrow> d = Fin (of_nat (unat w)))"
  using RequireUint16_Inr_iff RequireUint32_Inr_iff by blast

text \<open>
  C27: the object a configuration is written as, keys in base64 and ranges in CIDR notation, is
  converted back to that configuration, field by field and peer by peer.
\<close>

theorem config_from_js_round_trip:
  assumes "wf_config c" and "list_all (parsed_peer L) (cfg_peers c)"
  shows "ConfigFromJs L (config_js c) = Inr c"
  using assms by (rule ConfigFromJs_config_js)

theorem config_from_js_round_trip_witness:
  "ConfigFromJs ref_inet (config_js (default_config\<lparr>cfg_listenPort := Some 51820, cfg_peers := [default_peer_config]\<rparr>)) =
   Inr (default_config\<lparr>cfg_listenPort := Some 51820, cfg_peers := [default_peer_config]\<rparr>)"
  by (rule config_from_js_round_trip)
    (simp_all add: wf_config_def parsed_peer_def wf_peer_config_def default_config_def default_peer_config_def)

text \<open>
  C28: whatever object is accepted, the native configuration has 32-byte keys, and every allowed
  range has the family its text parses as and a mask within that family's bound.
\<close>

theorem config_from_js_well_formed:
  assumes "ConfigFromJs L obj = Inr cfg"
  shows "wf_config cfg \<and> list_all (\<lambda>p. list_all (cidr_ok L) (pc_allowedIPs p)) (cfg_peers cfg)"
  using ConfigFromJs_parsed [OF assms] by (auto simp: parsed_peer_def parsed_ip_def list_all_iff)

theorem config_from_js_well_formed_witness:
  "\<exists>cfg. ConfigFromJs ref_inet (JObject [(''listenPort'', JNumber (Fin 51820))]) = Inr cfg \<and> wf_config cfg"
proof -
  have "\<exists>cfg. ConfigFromJs ref_inet (JObject [(''listenPort'', JNumber (Fin 51820))]) = Inr cfg"
    by (simp add: ConfigFromJs_def js_get_defs opt_res_def RequireUint16_def isnan_def)
  with config_from_js_well_formed show ?thesis by blast
qed

text \<open>
  C40: the JavaScript form of a peer without a preshared key cannot be fed back as a peer
  configuration: the key is reported as the empty string, which the converter rejects, although
  the configuration's documentation says that the empty string clears it.
\<close>

theorem empty_preshared_key_rejected:
  assumes "wf_peer p" and "case presharedKey p of Some k \<Rightarrow> IsZeroKey k | None \<Rightarrow> True"
  shows "js_Get (PeerToJs p) ''presharedKey'' = JString [] \<and>
    PeerConfigFromJs L (PeerToJs p) = Inl (b64_error [])"
proof -
  have "KeyFromBase64 (KeyToBase64 (publicKey p)) = Inr (publicKey p)"
    using assms(1) by (simp add: wf_peer_def KeyFromBase64_KeyToBase64)
  moreover have "KeyFromBase64 [] = Inl (b64_error [])" by (simp add: KeyFromBase64_def strip_pad_def)
  ultimately show ?thesis using assms(2)
    by (auto simp: PeerConfigFromJs_def RequireString_def js_get_defs PeerToJs_def opt_res_def split: option.splits)
qed

theorem empty_preshared_key_rejected_witness:
  "PeerConfigFromJs ref_inet (PeerToJs default_peer) = Inl (b64_error [])"
  using empty_preshared_key_rejected [OF wf_default_peer, of ref_inet] by (simp add: default_peer_def)

end
