(* ===== verification/Backends.thy ===== *)
theory Backends imports NlParse NlSocket RtLink UapiReply UapiSocket JsConvert begin

text \<open>
  The part of \<open>src/src/WireGuardClient.cpp\<close> that runs on worker threads: fetching and configuring
  devices over the kernel or the userspace backend, and the tasks the methods queue.
\<close>

text \<open>What is not in the repository, and the stack contents \<open>junk\<close>, as one record of parameters.\<close>

record 'p libs =
  l_inet :: inet_lib
  l_mnl :: mnl_lib
  l_ssl :: "'p openssl"
  l_os :: os_env
  l_junk :: "allowed_ip list \<Rightarrow> u8 \<times> u8"
  l_order :: "string list \<Rightarrow> string list"

text \<open>An operation on the shared socket and the world; \<open>None\<close>: it never returns.\<close>

type_synonym io_state = "nl_socket \<times> world"
type_synonym 'a io = "io_state \<Rightarrow> 'a res option \<times> io_state"

definition io_bind :: "'a io \<Rightarrow> ('a \<Rightarrow> 'b io) \<Rightarrow> 'b io" where
  "io_bind m f st =
     (case m st of
        (None, st') \<Rightarrow> (None, st')
      | (Some (Inl e), st') \<Rightarrow> (Some (Inl e), st')
      | (Some (Inr x), st') \<Rightarrow> f x st')"

definition io_res :: "'a res \<Rightarrow> 'a io" where
  "io_res r st = (Some r, st)"

text \<open>Operations on the world alone, on the socket alone, and on both.\<close>

definition io_world :: "(world \<Rightarrow> 'a res option \<times> world) \<Rightarrow> 'a io" where
  "io_world f st = (case f (snd st) of (r, w) \<Rightarrow> (r, (fst st, w)))"

definition io_read :: "(world \<Rightarrow> 'a res) \<Rightarrow> 'a io" where
  "io_read f st = (Some (f (snd st)), st)"

definition io_family :: "'p libs \<Rightarrow> u16 io" where
  "io_family P st = WireGuardFamilyId (l_os P) (l_mnl P) (fst st) (snd st)"

definition io_seq :: "u32 io" where
  "io_seq st = (case NextSeq (fst st) of (sq, s) \<Rightarrow> (Some (Inr sq), (s, snd st)))"

definition io_send :: "'p libs \<Rightarrow> nlmsg \<Rightarrow> ('s \<Rightarrow> nlreply \<Rightarrow> (bool \<times> 's) res) \<Rightarrow> 's \<Rightarrow> 's io" where
  "io_send P m h s st =
     (case SendAndReceive (l_os P) (l_mnl P) (fst st) m h s (snd st) of (r, w) \<Rightarrow> (r, (fst st, w)))"

section \<open>Fetching and configuring\<close>

definition device_handler :: "'p libs \<Rightarrow> device \<Rightarrow> nlreply \<Rightarrow> (bool \<times> device) res" where
  "device_handler P d reply =
     rbind (ParseDeviceMessage (l_inet P) (l_mnl P) (l_junk P) (rp_payload reply) d) (\<lambda>d'. Inr (True, d'))"

definition FetchDeviceKernel :: "'p libs \<Rightarrow> string \<Rightarrow> device io" where
  "FetchDeviceKernel P name =
     io_bind (io_family P) (\<lambda>familyId.
     io_bind io_seq (\<lambda>sq.
     io_bind (io_res (BuildGetDeviceMessage familyId sq name)) (\<lambda>nlh.
     io_send P nlh (device_handler P) (default_device\<lparr>dev_name := name\<rparr>))))"

definition FetchDevice :: "'p libs \<Rightarrow> string \<Rightarrow> device io" where
  "FetchDevice P name =
     io_bind (io_read (HasSocket (l_os P) name)) (\<lambda>has.
     if has then
       io_bind (io_world (Transact (l_os P) BuildGetRequest name)) (\<lambda>response.
       io_res (ParseGetResponse (l_inet P) (l_ssl P) name response))
     else FetchDeviceKernel P name)"

definition ApplyConfig :: "'p libs \<Rightarrow> string \<Rightarrow> config \<Rightarrow> unit io" where
  "ApplyConfig P name cfg =
     io_bind (io_read (HasSocket (l_os P) name)) (\<lambda>has.
     if has then
       io_bind (io_res (BuildSetRequest (l_inet P) cfg)) (\<lambda>request.
       io_bind (io_world (Transact (l_os P) request name)) (\<lambda>response.
       io_res (ParseSetResponse response)))
     else
       io_bind (io_family P) (\<lambda>familyId.
       io_bind io_seq (\<lambda>sq.
       io_bind (io_res (BuildSetDeviceMessage (l_inet P) familyId sq name cfg)) (\<lambda>nlh.
       io_send P nlh (\<lambda>u reply. Inr (True, u)) ()))))"

definition set_buffer_size :: "mnl_lib \<Rightarrow> config \<Rightarrow> nat" where
  "set_buffer_size M cfg = max (socket_buffer_size M) (EstimateSetDeviceMessageSize cfg)"

fun fetch_all :: "'p libs \<Rightarrow> string list \<Rightarrow> device list io" where
  "fetch_all P [] = io_res (Inr [])"
| "fetch_all P (n # ns) =
     io_bind (FetchDevice P n) (\<lambda>d. io_bind (fetch_all P ns) (\<lambda>ds. io_res (Inr (d # ds))))"

text \<open>
  The worker of \<open>devices()\<close>. The names go through an \<open>std::unordered_set\<close>: the order in which
  it yields the names inserted is the parameter \<open>l_order\<close>.
\<close>

definition FetchDevices :: "'p libs \<Rightarrow> device list io" where
  "FetchDevices P =
     io_bind (io_read (ListWireGuardInterfaceNames (l_os P))) (\<lambda>kernel_names.
     io_bind (io_read (\<lambda>w. Inr (ListInterfaceNames (l_os P) w))) (\<lambda>uapi_names.
     fetch_all P (l_order P (kernel_names @ uapi_names))))"

section \<open>Tasks\<close>

datatype task =
    TCreate string
  | TDelete string
  | TDevices
  | TDevice string
  | TConfigure string config
  | TSetUp string bool
  | TAddAddress string string
  | TDeleteAddress string string

text \<open>The lambdas that capture \<open>sock\<close>.\<close>

fun captures_sock :: "task \<Rightarrow> bool" where
  "captures_sock TDevices = True"
| "captures_sock (TDevice _) = True"
| "captures_sock (TConfigure _ _) = True"
| "captures_sock _ = False"

definition js_unit :: "unit \<Rightarrow> js" where
  "js_unit u = JUndefined"

definition io_map :: "('a \<Rightarrow> 'b) \<Rightarrow> 'a io \<Rightarrow> 'b io" where
  "io_map f m = io_bind m (\<lambda>x. io_res (Inr (f x)))"

fun run_task :: "'p libs \<Rightarrow> task \<Rightarrow> js io" where
  "run_task P (TCreate name) = io_map js_unit (io_world (CreateWireGuardLink (l_os P) (l_mnl P) name))"
| "run_task P (TDelete name) = io_map js_unit (io_world (DeleteLink (l_os P) (l_mnl P) name))"
| "run_task P TDevices = io_map (\<lambda>ds. JArray (map DeviceToJs ds)) (FetchDevices P)"
| "run_task P (TDevice name) = io_map DeviceToJs (FetchDevice P name)"
| "run_task P (TConfigure name cfg) = io_map js_unit (ApplyConfig P name cfg)"
| "run_task P (TSetUp name up) = io_map js_unit (io_world (SetLinkUp (l_os P) (l_mnl P) up name))"
| "run_task P (TAddAddress name cidr_s) =
     io_map js_unit (io_world (AddAddress (l_inet P) (l_os P) (l_mnl P) cidr_s name))"
| "run_task P (TDeleteAddress name cidr_s) =
     io_map js_unit (io_world (DeleteAddress (l_inet P) (l_os P) (l_mnl P) cidr_s name))"

section \<open>The name check comes first\<close>

lemma io_bind_throws [simp]: "m st = (Some (Inl e), st') \<Longrightarrow> io_bind m f st = (Some (Inl e), st')"
  by (simp add: io_bind_def)

lemma HasSocket_invalid: "ValidateIfName name = Inl e \<Longrightarrow> HasSocket E name w = Inl e"
  by (simp add: HasSocket_def SocketPath_def)

interpretation fetch: guarded_op "FetchDevice P" "\<lambda>e. Some (Inl e)"
  by unfold_locales (simp add: FetchDevice_def io_bind_def io_read_def HasSocket_invalid)

interpretation apply_cfg: guarded_op "\<lambda>name. ApplyConfig P name cfg" "\<lambda>e. Some (Inl e)"
  by unfold_locales (simp add: ApplyConfig_def io_bind_def io_read_def HasSocket_invalid)

fun task_name :: "task \<Rightarrow> string option" where
  "task_name (TCreate n) = Some n"
| "task_name (TDelete n) = Some n"
| "task_name TDevices = None"
| "task_name (TDevice n) = Some n"
| "task_name (TConfigure n c) = Some n"
| "task_name (TSetUp n b) = Some n"
| "task_name (TAddAddress n a) = Some n"
| "task_name (TDeleteAddress n a) = Some n"

lemma io_map_throws: "m st = (Some (Inl e), st') \<Longrightarrow> io_map f m st = (Some (Inl e), st')"
  by (simp add: io_map_def)

lemma io_world_throws: "f w = (Some (Inl e), w) \<Longrightarrow> io_world f (s, w) = (Some (Inl e), (s, w))"
  by (simp add: io_world_def)

lemma run_task_invalid:
  assumes "task_name t = Some name" and "\<not> valid_ifname name"
  shows "\<exists>msg. run_task P t st = (Some (Inl (InvalidArgument msg)), st)"
proof -
  obtain msg where "ValidateIfName name = Inl (InvalidArgument msg)"
    using assms(2) by (cases name rule: ValidateIfName_cases) auto
  note guards = create.guard [OF this] delete.guard [OF this] up.guard [OF this]
    add_addr.guard [OF this] del_addr.guard [OF this] fetch.guard [OF this] apply_cfg.guard [OF this]
  obtain s w where st: "st = (s, w)" by force
  show ?thesis using assms(1) guards
    by (cases t) (auto simp: st throws_def intro!: exI [of _ msg] io_map_throws io_world_throws)
qed

section \<open>What running a task keeps\<close>

definition keeps :: "io_state \<Rightarrow> io_state \<Rightarrow> bool" where
  "keeps st st' \<longleftrightarrow> open_socks (snd st') = open_socks (snd st) \<and> open_fds (snd st') = open_fds (snd st)
     \<and> sk_handle (fst st') = sk_handle (fst st) \<and> portid (fst st') = portid (fst st)"

definition io_keeps :: "'a io \<Rightarrow> bool" where
  "io_keeps m \<longleftrightarrow> (\<forall>st r st'. m st = (Some r, st') \<longrightarrow> keeps st st')"

lemma keeps_refl [simp]: "keeps st st"
  by (simp add: keeps_def)

lemma keeps_trans: "keeps a b \<Longrightarrow> keeps b c \<Longrightarrow> keeps a c"
  by (simp add: keeps_def)

named_theorems io_intros

lemma io_keeps_bind [io_intros]: "io_keeps m \<Longrightarrow> (\<And>x. io_keeps (f x)) \<Longrightarrow> io_keeps (io_bind m f)"
  unfolding io_keeps_def io_bind_def
  by (fastforce split: prod.splits option.splits sum.splits intro: keeps_trans)

lemma io_keeps_res [io_intros]: "io_keeps (io_res r)"
  by (simp add: io_keeps_def io_res_def)

lemma io_keeps_read [io_intros]: "io_keeps (io_read f)"
  by (simp add: io_keeps_def io_read_def)

lemma io_keeps_seq [io_intros]: "io_keeps io_seq"
  by (simp add: io_keeps_def io_seq_def NextSeq_def keeps_def)

lemma io_keeps_if [io_intros]: "io_keeps m \<Longrightarrow> io_keeps n \<Longrightarrow> io_keeps (if b then m else n)"
  by simp

lemma io_keeps_map [io_intros]: "io_keeps m \<Longrightarrow> io_keeps (io_map f m)"
  unfolding io_map_def by (intro io_intros)

lemma io_keeps_world:
  "(\<And>w r w'. f w = (Some r, w') \<Longrightarrow> open_socks w' = open_socks w \<and> open_fds w' = open_fds w) \<Longrightarrow>
   io_keeps (io_world f)"
  by (fastforce simp: io_keeps_def io_world_def keeps_def split: prod.splits)

lemma SendAndReceive_open_fds: "open_fds (snd (SendAndReceive E M sk m h s w)) = open_fds w"
  by (auto simp: SendAndReceive_def sk_send_def split: prod.splits option.splits sum.splits)

lemma io_keeps_send [io_intros]: "io_keeps (io_send P m h s)"
proof -
  have "open_socks w' = open_socks w \<and> open_fds w' = open_fds w"
    if "SendAndReceive E M sk m h s w = (r, w')" for E M sk w w' r
    using that SendAndReceive_open_socks [of E M sk m h s w] SendAndReceive_open_fds [of E M sk m h s w] by simp
  then show ?thesis by (fastforce simp: io_keeps_def io_send_def keeps_def split: prod.splits)
qed

lemma io_keeps_family [io_intros]: "io_keeps (io_family P)"
proof -
  have "keeps (s, w) (s', w')" if "WireGuardFamilyId E M s w = (r, s', w')" for E M s w r s' w'
    using WireGuardFamilyId_frame [OF that] that
      SendAndReceive_open_fds [of E M "s\<lparr>nl_seq := nl_seq s + 1\<rparr>" "family_request (nl_seq s + 1)" "family_handler M" 0 w]
    by (auto simp: keeps_def WireGuardFamilyId_def NextSeq_def split: if_splits prod.splits option.splits sum.splits)
  then show ?thesis by (auto simp: io_keeps_def io_family_def)
qed

lemma SendRt_keeps:
  "SendRtRequestAndWaitAck E M m w = (Some r, w') \<Longrightarrow> open_socks w' = open_socks w \<and> open_fds w' = open_fds w"
  by (auto simp: SendRtRequestAndWaitAck_def sk_open_def sk_send_def sk_recv_def sk_close_def
      split: sum.splits option.splits prod.splits list.splits)

lemma rt_ops_keep [io_intros]:
  "io_keeps (io_world (CreateWireGuardLink E M name))" "io_keeps (io_world (DeleteLink E M name))"
  "io_keeps (io_world (SetLinkUp E M up name))" "io_keeps (io_world (AddAddress L E M a name))"
  "io_keeps (io_world (DeleteAddress L E M a name))"
  by (rule io_keeps_world; auto simp: CreateWireGuardLink_def DeleteLink_def SetLinkUp_def AddAddress_def
      DeleteAddress_def address_op_def Let_def dest: SendRt_keeps split: sum.splits if_splits)+

lemma Transact_keeps: "writes_progress E \<Longrightarrow> io_keeps (io_world (Transact E request name))"
proof (rule io_keeps_world)
  fix w r w' assume "writes_progress E" and "Transact E request name w = (Some r, w')"
  with Transact_returns [of E request name w] show "open_socks w' = open_socks w \<and> open_fds w' = open_fds w"
    by auto
qed

lemma io_keeps_FetchDevice: "writes_progress (l_os P) \<Longrightarrow> io_keeps (FetchDevice P name)"
  unfolding FetchDevice_def FetchDeviceKernel_def by (intro io_intros Transact_keeps)

lemma io_keeps_ApplyConfig: "writes_progress (l_os P) \<Longrightarrow> io_keeps (ApplyConfig P name cfg)"
  unfolding ApplyConfig_def by (intro io_intros Transact_keeps)

lemma io_keeps_fetch_all: "writes_progress (l_os P) \<Longrightarrow> io_keeps (fetch_all P ns)"
  by (induction ns) (auto intro!: io_intros io_keeps_FetchDevice)

lemma io_keeps_run_task: "writes_progress (l_os P) \<Longrightarrow> io_keeps (run_task P t)"
  by (cases t)
    (auto simp: FetchDevices_def intro!: io_intros io_keeps_fetch_all io_keeps_FetchDevice io_keeps_ApplyConfig)

section \<open>Fetching and configuring, end to end\<close>

lemma io_bind_Inr:
  "io_bind m f st = (Some (Inr y), st'') \<longleftrightarrow> (\<exists>x st'. m st = (Some (Inr x), st') \<and> f x st' = (Some (Inr y), st''))"
  by (auto simp: io_bind_def split: prod.splits option.splits sum.splits)

lemma io_res_Inr [simp]: "io_res r st = (Some (Inr y), st') \<longleftrightarrow> r = Inr y \<and> st' = st"
  by (auto simp: io_res_def)

lemma io_seq_Inr: "io_seq st = (Some (Inr sq), st') \<longleftrightarrow> sq = nl_seq (fst st) + 1 \<and> st' = ((fst st)\<lparr>nl_seq := sq\<rparr>, snd st)"
  by (auto simp: io_seq_def NextSeq_def)

lemma io_world_Inr:
  "io_world f (s, w) = (Some (Inr y), (s', w')) \<longleftrightarrow> f w = (Some (Inr y), w') \<and> s' = s"
  by (auto simp: io_world_def split: prod.splits)

lemma io_send_sent:
  assumes "io_send P m h s st = (Some (Inr y), st')"
  shows "\<exists>xs. sent (snd st') = xs @ [(sk_handle (fst st), m)] \<and> fst st' = fst st"
proof -
  obtain w' where w': "SendAndReceive (l_os P) (l_mnl P) (fst st) m h s (snd st) = (Some (Inr y), w')" "st' = (fst st, w')"
    using assms by (auto simp: io_send_def split: prod.splits)
  then have "kernel (l_os P) (snd st) (sk_handle (fst st)) m \<noteq> Inl e" for e
    by (auto simp: SendAndReceive_def sk_send_def)
  then show ?thesis
    using SendAndReceive_sent [of "l_os P" "l_mnl P" "fst st" m h s "snd st"] w'
    by (auto split: sum.splits)
qed

lemma ApplyConfig_kernel:
  assumes "ApplyConfig P name cfg (s, w) = (Some (Inr ()), (s', w'))"
    and "HasSocket (l_os P) name w = Inr False"
  shows "\<exists>xs m. sent w' = xs @ [(sk_handle s, m)] \<and> wgFamilyId s' \<noteq> 0
    \<and> BuildSetDeviceMessage (l_inet P) (wgFamilyId s') (nl_seq s') name cfg = Inr m"
proof -
  from assms obtain f s1 w1 m where fam: "WireGuardFamilyId (l_os P) (l_mnl P) s w = (Some (Inr f), s1, w1)"
    and m: "BuildSetDeviceMessage (l_inet P) f (nl_seq s1 + 1) name cfg = Inr m"
    and send: "io_send P m (\<lambda>u reply. Inr (True, u)) () (s1\<lparr>nl_seq := nl_seq s1 + 1\<rparr>, w1) = (Some (Inr ()), (s', w'))"
    by (auto simp: ApplyConfig_def io_read_def io_bind_Inr io_family_def io_seq_Inr)
  from WireGuardFamilyId_Inr [OF fam] io_send_sent [OF send] m show ?thesis by auto
qed

lemma ApplyConfig_uapi:
  assumes "ApplyConfig P name cfg (s, w) = (Some (Inr ()), (s', w'))"
    and "HasSocket (l_os P) name w = Inr True" and "writes_progress (l_os P)"
  shows "\<exists>fd request. BuildSetRequest (l_inet P) cfg = Inr request \<and> written w' fd = request
    \<and> ParseSetResponse (got w' fd) = Inr ()"
proof -
  from assms obtain request response where req: "BuildSetRequest (l_inet P) cfg = Inr request"
    and tr: "Transact (l_os P) request name w = (Some (Inr response), w')"
    and resp: "ParseSetResponse response = Inr ()"
    by (auto simp: ApplyConfig_def io_read_def io_bind_Inr io_world_Inr)
  from Transact_Inr(3) [OF tr assms(3)] req resp show ?thesis by blast
qed

text \<open>A dump: the parse of the exchange's own messages, in order.\<close>

lemma FetchDeviceKernel_dump:
  assumes fam: "WireGuardFamilyId (l_os P) (l_mnl P) s w = (Some (Inr fam), s1, w1)"
    and sq: "sq = nl_seq s1 + 1" and m: "BuildGetDeviceMessage fam sq name = Inr m"
    and ker: "kernel (l_os P) w1 (sk_handle s) m = Inr evs"
    and str: "stream_msgs (l_mnl P) (inbox w1 (sk_handle s) @ evs) = rs @ fin # rest"
    and parts: "\<forall>r \<in> set rs. ours sq (portid s) r \<longrightarrow> dump_part r"
    and fin: "ours sq (portid s) fin" "rp_type fin = NLMSG_DONE"
  shows "fst (FetchDeviceKernel P name (s, w)) =
    Some (rfold (\<lambda>d r. ParseDeviceMessage (l_inet P) (l_mnl P) (l_junk P) (rp_payload r) d)
            (default_device\<lparr>dev_name := name\<rparr>) (filter (ours sq (portid s)) rs))"
proof -
  let ?s = "s1\<lparr>nl_seq := sq\<rparr>"
  let ?d = "default_device\<lparr>dev_name := name\<rparr>"
  have seq: "nlmsg_seq m = sq" using m by (auto simp: BuildGetDeviceMessage_def rbind_Inr_iff)
  have s1: "sk_handle s1 = sk_handle s" "portid s1 = portid s" using WireGuardFamilyId_Inr [OF fam] by simp_all
  have "fst (FetchDeviceKernel P name (s, w)) = fst (io_send P m (device_handler P) ?d (?s, w1))"
    using fam m by (simp add: FetchDeviceKernel_def io_bind_def io_family_def io_seq_def NextSeq_def io_res_def sq)
  also have "\<dots> = fst (recv_loop (l_os P) (l_mnl P) sq (portid s) (device_handler P) ?d
      (inbox w1 (sk_handle s) @ evs))"
    using ker seq s1 by (simp add: io_send_def SendAndReceive_def sk_send_def split: prod.splits)
  also have "\<dots> = Some (rfold (\<lambda>d r. ParseDeviceMessage (l_inet P) (l_mnl P) (l_junk P) (rp_payload r) d)
            ?d (filter (ours sq (portid s)) rs))" (is "_ = Some ?r")
  proof -
    have "walk_msgs (l_os P) sq (portid s) (device_handler P) ?d (rs @ fin # rest) =
        rbind ?r (\<lambda>s'. Inr (True, s'))"
      using walk_msgs_dump [OF parts fin, of "l_os P"
          "\<lambda>d r. ParseDeviceMessage (l_inet P) (l_mnl P) (l_junk P) (rp_payload r) d" ?d rest]
      by (simp add: device_handler_def [abs_def])
    then show ?thesis by (cases ?r) (simp_all add: recv_loop_stream str)
  qed
  finally show ?thesis .
qed

section \<open>Properties\<close>

text \<open>Concrete parameters for the examples.\<close>

definition example_libs :: "os_env \<Rightarrow> unit libs" where
  "example_libs E = \<lparr>l_inet = ref_inet, l_mnl = ref_mnl,
     l_ssl = \<lparr>new_raw_private_key = \<lambda>_. None, get_raw_public_key = \<lambda>_. (0, [], 0)\<rparr>,
     l_os = E, l_junk = (\<lambda>_. (0, 0)), l_order = remdups\<rparr>"

definition example_socket :: nl_socket where
  "example_socket = \<lparr>sk_handle = 3, portid = 42, nl_seq = 0, wgFamilyId = 27\<rparr>"

text \<open>
  Configuring a kernel interface, when it succeeds, has sent as its last message a SET
  request on the client's socket, to the resolved family, whose attribute tree is the one the
  configuration stands for; the message fits the buffer it was built in.
\<close>

theorem configure_kernel_sends_configuration:
  assumes "ApplyConfig P name cfg (s, w) = (Some (Inr ()), (s', w'))"
    and "HasSocket (l_os P) name w = Inr False"
    and "mnl_ok (l_mnl P)" and "inet_ok (l_inet P)" and "wf_config cfg"
  shows "\<exists>xs m. sent w' = xs @ [(sk_handle s, m)] \<and> valid_ifname name
    \<and> nlmsg_type m = wgFamilyId s' \<and> wgFamilyId s' \<noteq> 0
    \<and> nlmsg_extra m = Genl WG_CMD_SET_DEVICE WG_GENL_VERSION
    \<and> msg_attrs (nlmsg_calls m) = Some (set_device_attrs (l_inet P) name cfg)
    \<and> msg_len (l_mnl P) m \<le> set_buffer_size (l_mnl P) cfg"
proof -
  from ApplyConfig_kernel [OF assms(1,2)] obtain xs m where m: "sent w' = xs @ [(sk_handle s, m)]" "wgFamilyId s' \<noteq> 0"
    "BuildSetDeviceMessage (l_inet P) (wgFamilyId s') (nl_seq s') name cfg = Inr m" by blast
  have "msg_len (l_mnl P) m \<le> set_buffer_size (l_mnl P) cfg"
    using BuildSetDeviceMessage_len [OF m(3) assms(3-5)] by (simp add: set_buffer_size_def)
  with m BuildSetDeviceMessage_Inr [OF m(3)] show ?thesis by blast
qed

text \<open>An environment whose kernel answers with an empty read.\<close>

definition zero_env :: os_env where
  "zero_env = ack_env\<lparr>kernel := \<lambda>_ _ _. Inr [RecvZero]\<rparr>"

lemma zero_HasSocket: "HasSocket (l_os (example_libs zero_env)) ''wg0'' idle_world = Inr False"
proof -
  have "valid_ifname ''wg0''" by (simp add: valid_ifname_def code_def)
  then show ?thesis
    by (simp add: HasSocket_def SocketPath_def ValidateIfName_iff [symmetric] zero_env_def ack_env_def example_libs_def)
qed

lemma zero_run_config:
  assumes "endpoints_ok ref_inet cfg"
  shows "\<exists>s' w'. ApplyConfig (example_libs zero_env) ''wg0'' cfg (example_socket, idle_world) =
     (Some (Inr ()), (s', w')) \<and> length (sent w') = 1"
proof -
  have v: "valid_ifname ''wg0''" by (simp add: valid_ifname_def code_def)
  obtain m where "BuildSetDeviceMessage ref_inet 27 1 ''wg0'' cfg = Inr m"
    using BuildSetDeviceMessage_total [OF v assms] by blast
  moreover have "HasSocket zero_env ''wg0'' idle_world = Inr False"
    using zero_HasSocket by (simp add: example_libs_def)
  ultimately show ?thesis
    by (simp add: ApplyConfig_def io_bind_def io_read_def io_family_def WireGuardFamilyId_def
        io_seq_def NextSeq_def io_res_def io_send_def SendAndReceive_def sk_send_def example_libs_def
        example_socket_def zero_env_def idle_world_def)
qed

lemma zero_run:
  "\<exists>s' w'. ApplyConfig (example_libs zero_env) ''wg0'' default_config (example_socket, idle_world) =
     (Some (Inr ()), (s', w')) \<and> length (sent w') = 1"
  by (rule zero_run_config) (simp add: endpoints_ok_def default_config_def)

theorem configure_kernel_sends_configuration_witness:
  "\<exists>s' w' m. ApplyConfig (example_libs zero_env) ''wg0'' default_config (example_socket, idle_world) =
      (Some (Inr ()), (s', w')) \<and> sent w' = [(3, m)]
    \<and> msg_attrs (nlmsg_calls m) = Some (set_device_attrs ref_inet ''wg0'' default_config)"
proof -
  let ?P = "example_libs zero_env"
  obtain s' w' where run: "ApplyConfig ?P ''wg0'' default_config (example_socket, idle_world) = (Some (Inr ()), (s', w'))"
    and one: "length (sent w') = 1" using zero_run by blast
  have "\<exists>xs m. sent w' = xs @ [(sk_handle example_socket, m)] \<and> valid_ifname ''wg0''
    \<and> nlmsg_type m = wgFamilyId s' \<and> wgFamilyId s' \<noteq> 0
    \<and> nlmsg_extra m = Genl WG_CMD_SET_DEVICE WG_GENL_VERSION
    \<and> msg_attrs (nlmsg_calls m) = Some (set_device_attrs (l_inet ?P) ''wg0'' default_config)
    \<and> msg_len (l_mnl ?P) m \<le> set_buffer_size (l_mnl ?P) default_config"
    by (rule configure_kernel_sends_configuration [OF run zero_HasSocket])
      (simp_all add: example_libs_def mnl_ok_ref inet_ok_ref wf_config_def default_config_def)
  with one obtain m where "sent w' = [(3, m)]"
    "msg_attrs (nlmsg_calls m) = Some (set_device_attrs ref_inet ''wg0'' default_config)"
    by (auto simp: example_socket_def example_libs_def)
  with run show ?thesis by blast
qed

text \<open>
  Configuring a userspace interface, when it succeeds, has written to its control socket
  exactly the lines the configuration stands for and the closing empty line, after every
  endpoint was validated, and no \<open>errno\<close> line of the response was other than zero.
\<close>

theorem configure_uapi_writes_configuration:
  assumes "ApplyConfig P name cfg (s, w) = (Some (Inr ()), (s', w'))"
    and "HasSocket (l_os P) name w = Inr True" and "writes_progress (l_os P)"
  shows "\<exists>fd. written w' fd = unlines (set_lines cfg) @ [LF] \<and> endpoints_valid (l_inet P) cfg
    \<and> (\<forall>l \<in> set (getlines (got w' fd)). \<forall>v. errno_of l = Some v \<longrightarrow> (\<exists>n. stoi v = Inr (0, n)))"
  using ApplyConfig_uapi [OF assms] by (auto simp: BuildSetRequest_Inr_iff ParseSetResponse_Inr_iff)

text \<open>An environment with a control socket whose server closes without a word.\<close>

definition silent_env :: os_env where
  "silent_env = ack_env\<lparr>access_ok := \<lambda>_ _. True, ux_read := \<lambda>_ _. Inr []\<rparr>"

lemma silent_run:
  "\<exists>w'. ApplyConfig (example_libs silent_env) ''wg0'' default_config (example_socket, idle_world) =
     (Some (Inr ()), (example_socket, w'))"
  and silent_HasSocket: "HasSocket (l_os (example_libs silent_env)) ''wg0'' idle_world = Inr True"
  and writes_progress_silent: "writes_progress (l_os (example_libs silent_env))"
proof -
  let ?P = "example_libs silent_env"
  let ?r = "unlines (set_lines default_config) @ [LF]"
  have v: "valid_ifname ''wg0''" by (simp add: valid_ifname_def code_def)
  have path: "SocketPath ''wg0'' = Inr (kSocketDir @ ''/wg0.sock'')"
    using v by (simp add: SocketPath_Inr_iff)
  have sock: "HasSocket silent_env ''wg0'' idle_world = Inr True"
    by (simp add: HasSocket_def path silent_env_def)
  have wp: "writes_progress silent_env" by (simp add: writes_progress_def silent_env_def ack_env_def)
  have short: "\<not> sun_path_size \<le> length (kSocketDir @ ''/wg0.sock'')" by (simp add: sun_path_size_def kSocketDir_def)
  have req: "BuildSetRequest ref_inet default_config = Inr ?r"
    by (simp add: BuildSetRequest_Inr_iff endpoints_valid_def default_config_def)
  have "?r \<noteq> []" by simp
  then have wr: "write_all silent_env 3 ?r 0 w = Some (Inr (), log_write 3 ?r w)" for w
    by (subst write_all.simps, subst write_all.simps) (simp add: silent_env_def ack_env_def)
  have rd: "read_all silent_env 3 [] w = (Inr [], w)" for w
    by (subst read_all_step) (simp add: silent_env_def)
  have "ux_socket silent_env w = Inr 3" "ux_rcvtimeo silent_env w fd = None" "ux_sndtimeo silent_env w fd = None"
    "ux_connect silent_env w fd p = None" "ux_shutdown silent_env w fd = None" for w fd p
    by (simp_all add: silent_env_def ack_env_def)
  then obtain w1 where tr: "Transact silent_env ?r ''wg0'' idle_world = (Some (Inr []), w1)"
    using short by (simp add: Transact_def path wr rd Let_def)
  have run: "ApplyConfig ?P ''wg0'' default_config (example_socket, idle_world) = (Some (Inr ()), (example_socket, w1))"
    using sock req tr by (simp add: ApplyConfig_def io_bind_def io_read_def io_res_def io_world_def
        example_libs_def ParseSetResponse_def)
  then show "\<exists>w'. ApplyConfig ?P ''wg0'' default_config (example_socket, idle_world) =
     (Some (Inr ()), (example_socket, w'))" by blast
  show "HasSocket (l_os ?P) ''wg0'' idle_world = Inr True" "writes_progress (l_os ?P)"
    using sock wp by (simp_all add: example_libs_def)
qed

theorem configure_uapi_writes_configuration_witness:
  "\<exists>s' w' fd. ApplyConfig (example_libs silent_env) ''wg0'' default_config (example_socket, idle_world) =
      (Some (Inr ()), (s', w')) \<and> written w' fd = unlines (set_lines default_config) @ [LF]"
proof -
  obtain w' where run: "ApplyConfig (example_libs silent_env) ''wg0'' default_config (example_socket, idle_world) =
     (Some (Inr ()), (example_socket, w'))" using silent_run by blast
  from configure_uapi_writes_configuration [OF run silent_HasSocket writes_progress_silent] run show ?thesis by blast
qed

text \<open>
  A kernel that answers every request with one datagram, a part and the end of a dump: the
  family has id 27, and every interface has index 7 and listens on port 51820.
\<close>

definition index_attrs :: "nlmsg \<Rightarrow> attr list" where
  "index_attrs m = (if nlmsg_type m = GENL_ID_CTRL then [Leaf CTRL_ATTR_FAMILY_ID [27, 0]]
     else [Leaf WGDEVICE_A_IFINDEX (le_bytes 4 (7 :: u32)), Leaf WGDEVICE_A_LISTEN_PORT (le_bytes 2 (51820 :: u16))])"

definition index_reply :: "nlmsg \<Rightarrow> bytes" where
  "index_reply m = le_bytes 4 (nlmsg_seq m) @ [0, 1, 0, 0] @ enc_attrs (index_attrs m)"

definition index_libs :: "unit libs" where
  "index_libs = (example_libs (ack_env\<lparr>kernel := \<lambda>_ _ m. Inr [Datagram (index_reply m)]\<rparr>))
     \<lparr>l_mnl := ref_mnl\<lparr>next_msgs := \<lambda>b. map (\<lambda>t. \<lparr>rp_type = t, rp_flags = NLM_F_MULTI, rp_seq = le_word (take 4 b),
        rp_pid = 42, rp_payload = drop 4 b\<rparr>) [27, NLMSG_DONE]\<rparr>\<rparr>"

definition index_part :: "nlmsg \<Rightarrow> u16 \<Rightarrow> nlreply" where
  "index_part m t = \<lparr>rp_type = t, rp_flags = NLM_F_MULTI, rp_seq = nlmsg_seq m, rp_pid = 42,
     rp_payload = [0, 1, 0, 0] @ enc_attrs (index_attrs m)\<rparr>"

lemma index_kernel: "kernel (l_os index_libs) w h m = Inr [Datagram (index_reply m)]"
  by (simp add: index_libs_def example_libs_def)

lemma index_msgs: "next_msgs (l_mnl index_libs) (index_reply m) = [index_part m 27, index_part m NLMSG_DONE]"
  by (simp add: index_libs_def index_reply_def index_part_def le_word_le_bytes)

lemma index_parse: "parse_attrs (l_mnl index_libs) (enc_attrs (index_attrs m)) = map nlattr_of (index_attrs m)"
proof -
  have "list_all attr_fits (index_attrs m)"
    by (simp add: index_attrs_def CTRL_ATTR_FAMILY_ID_def wgdevice_attr_defs)
  then show ?thesis using mnl_parse_ok_ref by (simp add: mnl_parse_ok_def index_libs_def)
qed

lemma index_part_simps:
  "ours v 42 (index_part m t) \<longleftrightarrow> nlmsg_seq m = v" "dump_part (index_part m 27)"
  "rp_type (index_part m t) = t" "drop 4 (rp_payload (index_part m t)) = enc_attrs (index_attrs m)"
  by (simp_all add: index_part_def ours_def dump_part_def NLMSG_ERROR_def NLMSG_DONE_def NLM_F_MULTI_def)

text \<open>Resolving the family there.\<close>

lemma index_family:
  assumes "inbox w (sk_handle s) = []" and "portid s = 42"
  shows "\<exists>w1. SendAndReceive (l_os index_libs) (l_mnl index_libs) s (family_request v) (family_handler (l_mnl index_libs)) 0 w =
      (Some (Inr 27), w1) \<and> inbox w1 (sk_handle s) = []"
proof -
  let ?m = "family_request v"
  have m: "nlmsg_seq ?m = v" "nlmsg_type ?m = GENL_ID_CTRL" by (simp_all add: family_request_def)
  have "family_handler (l_mnl index_libs) 0 (index_part ?m 27) = Inr (True, 27)"
    by (simp add: family_handler_def FamilyIdMsgCallback_def index_part_simps index_parse)
      (simp add: index_attrs_def m FamilyIdAttrCallback_def attr_u16_def attr_uint_def peek_def)
  then have "walk_msgs E v 42 (family_handler (l_mnl index_libs)) 0 (next_msgs (l_mnl index_libs) (index_reply ?m)) = Inr (True, 27)" for E
    by (simp add: index_msgs) (simp add: index_part_def m NLMSG_ERROR_def NLMSG_DONE_def NLM_F_MULTI_def)
  then show ?thesis using assms by (simp add: SendAndReceive_def sk_send_def index_kernel m)
qed

text \<open>
  C5: fetching a kernel interface, whether the family id was cached or had to be resolved first
  (\<open>s1\<close> and \<open>w1\<close> are the socket object and the world after that), returns, for a dump (messages
  flagged as parts, then an end), the device parsed from the messages of this exchange alone, all of them and in
  order: what was left on the socket from earlier exchanges does not reach it.
\<close>

theorem fetch_kernel_device:
  assumes "WireGuardFamilyId (l_os P) (l_mnl P) s w = (Some (Inr fam), s1, w1)"
    and "sq = nl_seq s1 + 1" and "BuildGetDeviceMessage fam sq name = Inr m"
    and "kernel (l_os P) w1 (sk_handle s) m = Inr evs"
    and "stream_msgs (l_mnl P) (inbox w1 (sk_handle s) @ evs) = rs @ fin # rest"
    and "\<forall>r \<in> set rs. ours sq (portid s) r \<longrightarrow> dump_part r"
    and "ours sq (portid s) fin" and "rp_type fin = NLMSG_DONE"
  shows "fst (FetchDeviceKernel P name (s, w)) =
    Some (rfold (\<lambda>d r. ParseDeviceMessage (l_inet P) (l_mnl P) (l_junk P) (rp_payload r) d)
            (default_device\<lparr>dev_name := name\<rparr>) (filter (ours sq (portid s)) rs))"
  using assms by (rule FetchDeviceKernel_dump)

text \<open>The first fetch of a client: the family is resolved, and the dump has a message.\<close>

theorem fetch_kernel_device_witness:
  "fst (FetchDeviceKernel index_libs ''wg0'' (example_socket\<lparr>wgFamilyId := 0\<rparr>, idle_world)) =
   Some (Inr (default_device\<lparr>dev_name := ''wg0'', listenPort := 51820\<rparr>))"
proof -
  let ?P = index_libs and ?s = "example_socket\<lparr>wgFamilyId := 0\<rparr>"
  let ?s1 = "?s\<lparr>nl_seq := 1, wgFamilyId := 27\<rparr>"
  have v: "valid_ifname ''wg0''" by (simp add: valid_ifname_def code_def)
  obtain w1 where w1: "SendAndReceive (l_os ?P) (l_mnl ?P) (?s\<lparr>nl_seq := 1\<rparr>) (family_request 1) (family_handler (l_mnl ?P)) 0 idle_world =
      (Some (Inr 27), w1)" "inbox w1 3 = []"
    using index_family [of idle_world "?s\<lparr>nl_seq := 1\<rparr>" 1] by (auto simp: idle_world_def example_socket_def)
  have fam: "WireGuardFamilyId (l_os ?P) (l_mnl ?P) ?s idle_world = (Some (Inr 27), ?s1, w1)"
    using w1(1) by (simp add: WireGuardFamilyId_def NextSeq_def example_socket_def)
  obtain m where m: "BuildGetDeviceMessage 27 2 ''wg0'' = Inr m" "nlmsg_seq m = 2" "nlmsg_type m = 27"
    using v by (simp add: BuildGetDeviceMessage_def v [folded ValidateIfName_iff])
  have attrs: "index_attrs m = [Leaf WGDEVICE_A_IFINDEX (le_bytes 4 (7 :: u32)), Leaf WGDEVICE_A_LISTEN_PORT (le_bytes 2 (51820 :: u16))]"
    using m(3) by (simp add: index_attrs_def GENL_ID_CTRL_def)
  have "fst (FetchDeviceKernel ?P ''wg0'' (?s, idle_world)) =
    Some (rfold (\<lambda>d r. ParseDeviceMessage (l_inet ?P) (l_mnl ?P) (l_junk ?P) (rp_payload r) d)
            (default_device\<lparr>dev_name := ''wg0''\<rparr>) (filter (ours 2 (portid ?s)) [index_part m 27]))"
    by (rule fetch_kernel_device [OF fam _ m(1), where evs = "[Datagram (index_reply m)]" and
          fin = "index_part m NLMSG_DONE" and rest = "[]"])
      (use w1(2) m in \<open>simp_all add: example_socket_def index_kernel index_msgs index_part_simps\<close>)
  also have "\<dots> = Some (Inr (default_device\<lparr>dev_name := ''wg0'', listenPort := 51820\<rparr>))"
    using m by (simp add: example_socket_def index_part_simps ParseDeviceMessage_def index_parse)
      (simp add: attrs ParseDeviceAttr_def wgdevice_attr_defs attr_u16_def attr_uint_def peek_def le_word_le_bytes)
  finally show ?thesis .
qed

text \<open>
  C22: no method reaches the kernel, the file system or a control socket under an invalid
  interface name: the worker's task throws an invalid argument before it changes anything, and
  the promise is rejected with that message, up to its first NUL, and no error code.
\<close>

theorem invalid_name_has_no_effect:
  assumes "task_name t = Some name" and "\<not> valid_ifname name"
  shows "\<exists>msg. run_task P t st = (Some (Inl (InvalidArgument msg)), st)
    \<and> PromiseWorker f (Inl (InvalidArgument msg)) = Some (Rejected (plain_error (c_str msg)))"
  using run_task_invalid [OF assms, of P st] by (auto simp: PromiseWorker_other)

theorem invalid_name_has_no_effect_witness:
  "\<exists>msg. run_task (example_libs ack_env) (TDevice ''../x'') (example_socket, idle_world) =
     (Some (Inl (InvalidArgument msg)), (example_socket, idle_world))"
proof -
  have "\<not> valid_ifname ''../x''" by (simp add: valid_ifname_def)
  from invalid_name_has_no_effect [OF _ this, of "TDevice ''../x''" "example_libs ack_env"
      "(example_socket, idle_world)" "\<lambda>v. v :: js"] show ?thesis by auto
qed

text \<open>
  C31: the documented error codes: deleting or raising an interface that does not exist, or
  giving it an address, rejects with code \<open>ENODEV\<close>; creating one that exists rejects with
  \<open>EEXIST\<close>. In both cases nothing was sent.
\<close>

theorem documented_error_codes:
  assumes "valid_ifname name"
  shows "(name_to_index (l_os P) w name = 0 \<longrightarrow>
      (\<forall>t \<in> {TDelete name, TSetUp name b, TAddAddress name a, TDeleteAddress name a}.
         \<exists>r. run_task P t (s, w) = (Some r, (s, w)) \<and>
         PromiseWorker f r = Some (Rejected \<lparr>err_message = ''no such interface: '' @ name,
           err_code = Some ''ENODEV'', err_errno = Some 19\<rparr>))) \<and>
    (name_to_index (l_os P) w name \<noteq> 0 \<longrightarrow>
      (\<exists>r. run_task P (TCreate name) (s, w) = (Some r, (s, w)) \<and>
         PromiseWorker f r = Some (Rejected \<lparr>err_message = ''interface already exists: '' @ name,
           err_code = Some ''EEXIST'', err_errno = Some 17\<rparr>)))"
proof -
  have v: "ValidateIfName name = Inr ()" "c_str name = name"
    using assms by (simp_all add: ValidateIfName_iff valid_ifname_c_str)
  have msgs: "c_str (''no such interface: '' @ name) = ''no such interface: '' @ name"
    "c_str (''interface already exists: '' @ name) = ''interface already exists: '' @ name"
    using v(2) by (simp_all add: c_str_def)
  have world: "io_map js_unit (io_world g) (s, w) = (Some (Inl e), (s, w))" if "g w = (throws e, w)" for g e
    using that by (simp add: io_map_throws io_world_throws throws_def)
  have codes: "ErrnoName 19 = ''ENODEV''" "ErrnoName 17 = ''EEXIST''"
    by (simp_all add: ErrnoName_def errno_defs)
  have reject: "PromiseWorker f (Inl (no_such_interface name)) = Some (Rejected \<lparr>err_message = ''no such interface: '' @ name,
      err_code = Some ''ENODEV'', err_errno = Some 19\<rparr>)"
    "PromiseWorker f (Inl (SystemError EEXIST (''interface already exists: '' @ name))) =
      Some (Rejected \<lparr>err_message = ''interface already exists: '' @ name, err_code = Some ''EEXIST'', err_errno = Some 17\<rparr>)"
    by (simp_all add: no_such_interface_def PromiseWorker_SystemError msgs [simplified] codes errno_defs)
  show ?thesis using reject
    by (auto simp: v world DeleteLink_def SetLinkUp_def AddAddress_def DeleteAddress_def address_op_def
        CreateWireGuardLink_def)
qed

theorem documented_error_codes_witness:
  "\<exists>r. run_task (example_libs ack_env) (TCreate ''wg0'') (example_socket, idle_world) =
      (Some r, (example_socket, idle_world))
    \<and> PromiseWorker (\<lambda>v. v) r = Some (Rejected \<lparr>err_message = ''interface already exists: wg0'',
        err_code = Some ''EEXIST'', err_errno = Some 17\<rparr>)"
proof -
  have v: "valid_ifname ''wg0''" by (simp add: valid_ifname_def code_def)
  have "name_to_index (l_os (example_libs ack_env)) idle_world ''wg0'' \<noteq> 0"
    by (simp add: example_libs_def ack_env_def)
  with documented_error_codes [OF v, of "example_libs ack_env" idle_world False "[]" example_socket "\<lambda>v. v"]
  show ?thesis by simp
qed

end
