(* ===== verification/Overlap.thy ===== *)
theory Overlap imports Systems Exchange Backends begin

text \<open>
  Workers of one client whose exchanges overlap, as calls made on the native class without the
  wrapper's queue can. Replies may be lost (theory \<open>Exchange\<close>); here is what still holds, that
  they are never mixed up, and what that rests on: sequence numbers that differ, which the
  unsynchronised counter of \<open>NlSocket::NextSeq\<close> does not guarantee.
\<close>

section \<open>What a result is computed from\<close>

text \<open>The handler's state after it was given the messages \<open>rs\<close>.\<close>

definition handled :: "('s \<Rightarrow> nlreply \<Rightarrow> (bool \<times> 's) res) \<Rightarrow> 's \<Rightarrow> nlreply list \<Rightarrow> 's res" where
  "handled h s rs = rfold (\<lambda>s r. rbind (h s r) (\<lambda>(_, s'). Inr s')) s rs"

lemma handled_append: "handled h s (xs @ ys) = rbind (handled h s xs) (\<lambda>s'. handled h s' ys)"
  by (simp add: handled_def rfold_append)

lemma walk_msgs_handled:
  "walk_msgs E sq pid h s rs = Inr (d, s') \<Longrightarrow>
   \<exists>ys. set ys \<subseteq> {r \<in> set rs. ours sq pid r} \<and> handled h s ys = Inr s'"
proof (induction rs arbitrary: s)
  case Nil
  then show ?case by (auto intro: exI [of _ "[]"] simp: handled_def)
next
  case (Cons r rs)
  show ?case
  proof (cases "ours sq pid r")
    case False
    then have "walk_msgs E sq pid h s rs = Inr (d, s')" using Cons.prems by (auto simp: ours_def)
    from Cons.IH [OF this] obtain ys where "set ys \<subseteq> {r \<in> set rs. ours sq pid r}" "handled h s ys = Inr s'" by blast
    then show ?thesis by (intro exI [of _ ys]) auto
  next
    case True
    then consider "s' = s" | b s1 where "h s r = Inr (b, s1)" "s' = s1"
      | b s1 where "h s r = Inr (b, s1)" "walk_msgs E sq pid h s1 rs = Inr (d, s')"
      using Cons.prems by (auto simp: ours_def rbind_Inr_iff split: if_splits)
    then show ?thesis
    proof cases
      case 1
      then show ?thesis by (intro exI [of _ "[]"]) (simp add: handled_def)
    next
      case 2
      then show ?thesis using True by (intro exI [of _ "[r]"]) (simp add: handled_def)
    next
      case 3
      from Cons.IH [OF 3(2)] obtain ys where "set ys \<subseteq> {r \<in> set rs. ours sq pid r}" "handled h s1 ys = Inr s'" by blast
      then show ?thesis using True 3(1) by (intro exI [of _ "r # ys"]) (auto simp: handled_def)
    qed
  qed
qed

text \<open>The messages the kernel can answer a request on the socket \<open>h\<close> with.\<close>

definition answers :: "os_env \<Rightarrow> mnl_lib \<Rightarrow> nat \<Rightarrow> nlmsg \<Rightarrow> nlreply set" where
  "answers E M h m = {r. \<exists>w evs b. kernel E w h m = Inr evs \<and> Datagram b \<in> set evs \<and> r \<in> set (next_msgs M b)}"

text \<open>Netlink's rule for answers: they carry the sequence number of their request.\<close>

definition kernel_echoes :: "os_env \<Rightarrow> mnl_lib \<Rightarrow> nat \<Rightarrow> bool" where
  "kernel_echoes E M h \<longleftrightarrow> (\<forall>m. \<forall>r \<in> answers E M h m. rp_seq r = nlmsg_seq m)"

definition ex_seq :: "'s exchange \<Rightarrow> u32" where
  "ex_seq x = nlmsg_seq (ex_msg x)"

text \<open>A state of the handler of \<open>x\<close> that only answers to the request of \<open>x\<close> have gone into.\<close>

definition computed :: "os_env \<Rightarrow> mnl_lib \<Rightarrow> nat \<Rightarrow> 's exchange \<Rightarrow> 's \<Rightarrow> bool" where
  "computed E M h x s \<longleftrightarrow>
     (\<exists>rs. set rs \<subseteq> answers E M h (ex_msg x) \<and> handled (ex_handler x) (ex_init x) rs = Inr s)"

fun phase_ok :: "os_env \<Rightarrow> mnl_lib \<Rightarrow> nat \<Rightarrow> 's exchange \<Rightarrow> 's phase \<Rightarrow> bool" where
  "phase_ok E M h x (Waiting s) \<longleftrightarrow> computed E M h x s"
| "phase_ok E M h x (Left (Inr s)) \<longleftrightarrow> computed E M h x s"
| "phase_ok E M h x _ \<longleftrightarrow> True"

text \<open>All that waits on the socket are answers to requests of the workers.\<close>

definition answered :: "os_env \<Rightarrow> mnl_lib \<Rightarrow> nat \<Rightarrow> 's exchange list \<Rightarrow> recv list \<Rightarrow> bool" where
  "answered E M h xs q \<longleftrightarrow>
     (\<forall>b. Datagram b \<in> set q \<longrightarrow> (\<forall>r \<in> set (next_msgs M b). \<exists>x \<in> set xs. r \<in> answers E M h (ex_msg x)))"

definition overlap_inv :: "os_env \<Rightarrow> mnl_lib \<Rightarrow> nat \<Rightarrow> 's exchange list \<Rightarrow> 's phase list \<times> world \<Rightarrow> bool" where
  "overlap_inv E M h xs c \<longleftrightarrow> kernel_echoes E M h \<and> distinct (map ex_seq xs) \<and> length (fst c) = length xs
     \<and> answered E M h xs (inbox (snd c) h) \<and> (\<forall>i < length xs. phase_ok E M h (xs ! i) (fst c ! i))"

lemma own_answers:
  assumes "kernel_echoes E M h" and "distinct (map ex_seq xs)" and "i < length xs"
    and "x \<in> set xs" and "r \<in> answers E M h (ex_msg x)" and "ours (ex_seq (xs ! i)) pid r"
  shows "r \<in> answers E M h (ex_msg (xs ! i))"
proof -
  have "ex_seq x = ex_seq (xs ! i)"
    using assms(1,5,6) by (auto simp: kernel_echoes_def ours_def ex_seq_def)
  then have "x = xs ! i" using assms(2-4) by (auto simp: distinct_map dest: inj_onD)
  with assms(5) show ?thesis by simp
qed

lemma on_recv_ok:
  assumes "kernel_echoes E M h" and "distinct (map ex_seq xs)" and "i < length xs"
    and "\<And>b r. ev = Datagram b \<Longrightarrow> r \<in> set (next_msgs M b) \<Longrightarrow> \<exists>x \<in> set xs. r \<in> answers E M h (ex_msg x)"
    and "computed E M h (xs ! i) s"
  shows "phase_ok E M h (xs ! i) (on_recv E M pid (xs ! i) s ev)"
proof (cases ev)
  case (Datagram b)
  have "computed E M h (xs ! i) s'"
    if walk: "walk_msgs E (nlmsg_seq (ex_msg (xs ! i))) pid (ex_handler (xs ! i)) s (next_msgs M b) = Inr (d, s')" for d s'
  proof -
    obtain rs where rs: "set rs \<subseteq> answers E M h (ex_msg (xs ! i))" "handled (ex_handler (xs ! i)) (ex_init (xs ! i)) rs = Inr s"
      using assms(5) by (auto simp: computed_def)
    obtain ys where ys: "set ys \<subseteq> {r \<in> set (next_msgs M b). ours (ex_seq (xs ! i)) pid r}" "handled (ex_handler (xs ! i)) s ys = Inr s'"
      using walk_msgs_handled [OF walk] by (auto simp: ex_seq_def)
    have "set ys \<subseteq> answers E M h (ex_msg (xs ! i))"
      using ys(1) assms(4) [OF Datagram] own_answers [OF assms(1-3)] by blast
    with rs ys(2) show ?thesis by (auto simp: computed_def handled_append intro!: exI [of _ "rs @ ys"])
  qed
  then show ?thesis by (auto simp: Datagram split: sum.split prod.split)
qed (use assms(5) in auto)

lemma ex_step_overlap_inv:
  assumes "overlap_inv E M (sk_handle sk) xs c" and "ex_step E M sk xs c c'"
  shows "overlap_inv E M (sk_handle sk) xs c'"
  using assms(2)
proof (cases rule: ex_step.cases)
  case (step_send i ps w r w')
  have "phase_ok E M (sk_handle sk) (xs ! i) (on_send E (xs ! i) r)"
    by (cases r) (auto simp: computed_def handled_def intro!: exI [of _ "[]"])
  moreover have "answered E M (sk_handle sk) xs (inbox w' (sk_handle sk))"
    using assms(1) step_send by (auto simp: overlap_inv_def answered_def sk_send_def answers_def split: sum.splits)
      (metis nth_mem)+
  ultimately show ?thesis using assms(1) step_send by (auto simp: overlap_inv_def nth_list_update)
next
  case (step_recv i ps s w ev w')
  have q: "inbox w (sk_handle sk) = ev # inbox w' (sk_handle sk)"
    using step_recv by (auto simp: sk_recv_def split: list.splits)
  have inv: "overlap_inv E M (sk_handle sk) xs (ps, w)" using assms(1) step_recv by simp
  have "phase_ok E M (sk_handle sk) (xs ! i) (on_recv E M (portid sk) (xs ! i) s ev)"
  proof (rule on_recv_ok)
    show "computed E M (sk_handle sk) (xs ! i) s"
      using inv step_recv by (auto simp: overlap_inv_def dest!: spec [of _ i])
  qed (use inv q step_recv in \<open>auto simp: overlap_inv_def answered_def\<close>)
  moreover have "answered E M (sk_handle sk) xs (inbox w' (sk_handle sk))"
    using inv q by (auto simp: overlap_inv_def answered_def)
  ultimately show ?thesis using inv step_recv by (auto simp: overlap_inv_def nth_list_update)
qed

interpretation overlap: preserved "ex_step E M sk xs" "overlap_inv E M (sk_handle sk) xs"
  by unfold_locales (rule ex_step_overlap_inv)

lemma ex_run_steps: "ex_run E M sk xs c c' \<Longrightarrow> steps (ex_step E M sk xs) c c'"
  by (induction rule: ex_run.induct) (auto intro: steps_trans steps_single)

section \<open>The counter of sequence numbers\<close>

text \<open>
  \<open>return ++seq_\<close> on a member that several threads share: a load and a store, which the code
  does not make one step. A thread has not begun, has loaded the counter, or has its number and
  is in its exchange.
\<close>

datatype 's thread = Fresh | Loaded u32 | Numbered u32 "'s phase"

inductive race_step ::
  "os_env \<Rightarrow> mnl_lib \<Rightarrow> nl_socket \<Rightarrow> (u32 \<Rightarrow> 's exchange) list \<Rightarrow>
   's thread list \<times> u32 \<times> world \<Rightarrow> 's thread list \<times> u32 \<times> world \<Rightarrow> bool"
  for E M sk xs where
  race_load: "i < length ts \<Longrightarrow> ts ! i = Fresh \<Longrightarrow> race_step E M sk xs (ts, n, w) (ts[i := Loaded n], n, w)"
| race_store: "i < length ts \<Longrightarrow> ts ! i = Loaded v \<Longrightarrow>
     race_step E M sk xs (ts, n, w) (ts[i := Numbered (v + 1) ToSend], v + 1, w)"
| race_exchange: "i < length ts \<Longrightarrow> ts ! i = Numbered v p \<Longrightarrow> ex_step E M sk [(xs ! i) v] ([p], w) ([p'], w') \<Longrightarrow>
     race_step E M sk xs (ts, n, w) (ts[i := Numbered v p'], n, w')"

text \<open>As one step it would be \<open>NextSeq\<close>; numbers given that way differ until the counter wraps.\<close>

fun take_seqs :: "nat \<Rightarrow> nl_socket \<Rightarrow> u32 list" where
  "take_seqs 0 s = []"
| "take_seqs (Suc k) s = (case NextSeq s of (sq, s') \<Rightarrow> sq # take_seqs k s')"

lemma take_seqs_eq: "take_seqs k s = map (\<lambda>i. nl_seq s + of_nat (Suc i)) [0..<k]"
proof (induction k arbitrary: s)
  case (Suc k)
  then show ?case by (simp add: NextSeq_def map_upt_Suc ac_simps del: upt_Suc)
qed simp

lemma take_seqs_distinct:
  assumes "k \<le> 2 ^ 32"
  shows "distinct (take_seqs k s)"
proof -
  have "inj_on (\<lambda>i. nl_seq s + of_nat (Suc i)) {0..<k}"
  proof (rule inj_onI)
    fix i j assume ij: "i \<in> {0..<k}" "j \<in> {0..<k}" and "nl_seq s + of_nat (Suc i) = nl_seq s + of_nat (Suc j)"
    then have "(of_nat i :: u32) = of_nat j" by simp
    then have "unat (of_nat i :: u32) = unat (of_nat j :: u32)" by simp
    moreover have "i < 2 ^ 32" "j < 2 ^ 32" using ij assms by auto
    ultimately show "i = j" by (simp add: unat_of_nat take_bit_nat_eq_self)
  qed
  then show ?thesis by (simp add: take_seqs_eq distinct_map)
qed

lemma race_exchange_run:
  assumes "ex_run E M sk [(xs ! i) v] c c'" and "c = ([p], w)" and "c' = ([p'], w')"
    and "i < length ts" and "ts ! i = Numbered v p"
  shows "steps (race_step E M sk xs) (ts, n, w) (ts[i := Numbered v p'], n, w')"
  using assms
proof (induction arbitrary: p w ts rule: ex_run.induct)
  case (run_refl c)
  then show ?case by (metis Pair_inject list.inject list_update_id steps_refl)
next
  case (run_step c c1 c2)
  obtain q u where c1: "c1 = ([q], u)"
    using run_step.hyps(1) run_step.prems(1) by (auto elim!: ex_stepE)
  then have "race_step E M sk xs (ts, n, w) (ts[i := Numbered v q], n, u)"
    using run_step.hyps(1) run_step.prems by (intro race_exchange) auto
  moreover have "steps (race_step E M sk xs) (ts[i := Numbered v q], n, u) (ts[i := Numbered v p'], n, w')"
    using run_step.IH [OF c1 run_step.prems(2), of "ts[i := Numbered v q]"] run_step.prems by simp
  ultimately show ?case by (blast intro: steps_trans steps_single)
qed

lemma recv_loop_append:
  "recv_loop E M sq pid h s q = (Some r, q') \<Longrightarrow> recv_loop E M sq pid h s (q @ rest) = (Some r, q' @ rest)"
proof (induction E M sq pid h s q rule: recv_loop.induct)
  case (4 E M sq pid h s b q)
  then show ?case by (auto split: sum.splits bool.splits prod.splits)
qed auto

section \<open>Two devices fetched at once\<close>

text \<open>The exchange at the end of \<open>FetchDeviceKernel\<close>, with the sequence number it was given.\<close>

definition get_exchange :: "'p libs \<Rightarrow> u16 \<Rightarrow> string \<Rightarrow> u32 \<Rightarrow> device exchange" where
  "get_exchange P fam name sq =
     \<lparr>ex_msg = projr (BuildGetDeviceMessage fam sq name), ex_handler = device_handler P,
      ex_init = default_device\<lparr>dev_name := name\<rparr>\<rparr>"

lemma get_exchange_msg:
  assumes "valid_ifname name"
  shows "ex_msg (get_exchange P fam name sq) =
    \<lparr>nlmsg_type = fam, nlmsg_flags = NLM_F_REQUEST OR NLM_F_ACK OR NLM_F_DUMP, nlmsg_seq = sq,
     nlmsg_extra = Genl WG_CMD_GET_DEVICE WG_GENL_VERSION, nlmsg_calls = [AttrPutStrz WGDEVICE_A_IFNAME name]\<rparr>"
proof -
  have "ValidateIfName name = Inr ()" using assms by (simp add: ValidateIfName_iff)
  then show ?thesis using valid_ifname_c_str [OF assms] by (simp add: get_exchange_def BuildGetDeviceMessage_def put_def)
qed

lemma FetchDeviceKernel_exchange:
  assumes "wgFamilyId s \<noteq> 0" and "valid_ifname name"
  shows "FetchDeviceKernel P name (s, w) =
    (case SendAndReceive (l_os P) (l_mnl P) (snd (NextSeq s))
        (ex_msg (get_exchange P (wgFamilyId s) name (nl_seq s + 1)))
        (device_handler P) (default_device\<lparr>dev_name := name\<rparr>) w of (r, w') \<Rightarrow> (r, (snd (NextSeq s), w')))"
proof -
  have "ValidateIfName name = Inr ()" using assms(2) by (simp add: ValidateIfName_iff)
  then show ?thesis using assms(1)
    by (simp add: FetchDeviceKernel_def io_bind_def io_family_def WireGuardFamilyId_def io_seq_def NextSeq_def
        io_res_def io_send_def get_exchange_def BuildGetDeviceMessage_def)
qed

section \<open>Properties\<close>

text \<open>
  C16: exchanges that overlap on one socket never mix up their replies, however their system calls
  interleave, as long as their sequence numbers differ: what a worker returns was computed from
  answers to its own request alone, though perhaps not from all of them.
\<close>

theorem replies_never_mixed:
  assumes "kernel_echoes E M (sk_handle sk)" and "distinct (map ex_seq xs)" and "inbox w (sk_handle sk) = []"
    and "ex_run E M sk xs (replicate (length xs) ToSend, w) (ps, w')"
    and "i < length xs" and "ps ! i = Left (Inr s)"
  shows "\<exists>rs. set rs \<subseteq> answers E M (sk_handle sk) (ex_msg (xs ! i))
    \<and> handled (ex_handler (xs ! i)) (ex_init (xs ! i)) rs = Inr s"
proof -
  have "overlap_inv E M (sk_handle sk) xs (replicate (length xs) ToSend, w)"
    using assms(1-3) by (simp add: overlap_inv_def answered_def)
  from overlap.steps_keep [OF ex_run_steps [OF assms(4)] this] assms(5,6) show ?thesis
    by (auto simp: overlap_inv_def computed_def dest!: spec [of _ i])
qed

text \<open>
  C18: the counter of sequence numbers is not safe for threads. When two workers that fetch the
  interfaces \<open>a\<close> and \<open>b\<close> both load it before either stores, both send the same number, and
  there is a run in which the worker asked for \<open>b\<close> returns what the kernel answered about \<open>a\<close>,
  while the worker asked for \<open>a\<close> still waits. Only the wrapper's queue keeps this from
  happening.
\<close>

theorem raced_counter_swaps_devices:
  assumes "valid_ifname a" and "valid_ifname b" and "inbox w (sk_handle sk) = []"
    and "kernel (l_os P) w (sk_handle sk) (ex_msg (get_exchange P fam a (n + 1))) = Inr evs"
    and "sk_send (l_os P) (sk_handle sk) (ex_msg (get_exchange P fam a (n + 1))) w = (None, w1)"
    and "kernel (l_os P) w1 (sk_handle sk) (ex_msg (get_exchange P fam b (n + 1))) = Inr evs'"
    and "recv_loop (l_os P) (l_mnl P) (n + 1) (portid sk) (device_handler P) (default_device\<lparr>dev_name := b\<rparr>) evs =
      (Some (Inr d), q)"
  shows "\<exists>w'. steps (race_step (l_os P) (l_mnl P) sk [get_exchange P fam a, get_exchange P fam b])
      ([Fresh, Fresh], n, w)
      ([Numbered (n + 1) (Waiting (default_device\<lparr>dev_name := a\<rparr>)), Numbered (n + 1) (Left (Inr d))], n + 1, w')"
proof -
  let ?xs = "[get_exchange P fam a, get_exchange P fam b]"
  let ?step = "race_step (l_os P) (l_mnl P) sk ?xs"
  let ?a = "Numbered (n + 1) (Waiting (default_device\<lparr>dev_name := a\<rparr>))"
  let ?x = "get_exchange P fam b (n + 1)"
  let ?s = "Numbered (n + 1) ToSend :: device thread"
  have "?step ([Fresh, Fresh], n, w) ([Fresh, Fresh][0 := Loaded n], n, w)" by (rule race_load) simp_all
  then have a: "steps ?step ([Fresh, Fresh], n, w) ([Loaded n, Fresh], n, w)" by (simp add: steps_single)
  have "?step ([Loaded n, Fresh], n, w) ([Loaded n, Fresh][1 := Loaded n], n, w)" by (rule race_load) simp_all
  with a have b: "steps ?step ([Fresh, Fresh], n, w) ([Loaded n, Loaded n], n, w)" by (auto intro: steps_snoc)
  have "?step ([Loaded n, Loaded n], n, w) ([Loaded n, Loaded n][0 := ?s], n + 1, w)" by (rule race_store) simp_all
  with b have c: "steps ?step ([Fresh, Fresh], n, w) ([?s, Loaded n], n + 1, w)" by (auto intro: steps_snoc)
  have "?step ([?s, Loaded n], n + 1, w) ([?s, Loaded n][1 := ?s], n + 1, w)" by (rule race_store) simp_all
  with c have 1: "steps ?step ([Fresh, Fresh], n, w) ([?s, ?s], n + 1, w)" by (auto intro: steps_snoc)
  have "ex_step (l_os P) (l_mnl P) sk [(?xs ! 0) (n + 1)] ([ToSend], w)
      ([ToSend][0 := on_send (l_os P) ([(?xs ! 0) (n + 1)] ! 0) None], w1)"
    by (rule step_send) (use assms(5) in simp_all)
  then have "?step ([Numbered (n + 1) ToSend, Numbered (n + 1) ToSend], n + 1, w)
      ([Numbered (n + 1) ToSend, Numbered (n + 1) ToSend][0 := ?a], n + 1, w1)"
    by (intro race_exchange) (auto simp: get_exchange_def)
  then have 2: "?step ([Numbered (n + 1) ToSend, Numbered (n + 1) ToSend], n + 1, w) ([?a, Numbered (n + 1) ToSend], n + 1, w1)"
    by simp
  have seq: "nlmsg_seq (ex_msg ?x) = n + 1"
    by (simp add: get_exchange_msg [OF assms(2)])
  have "inbox w1 (sk_handle sk) = evs" using assms(3-5) by (auto simp: sk_send_def)
  then have "\<exists>w'. SendAndReceive (l_os P) (l_mnl P) sk (ex_msg ?x) (ex_handler ?x) (ex_init ?x) w1 = (Some (Inr d), w')"
    using recv_loop_append [OF assms(7), of evs'] assms(6) seq
    by (simp add: SendAndReceive_def sk_send_def) (simp add: get_exchange_def)
  then obtain w' where "SendAndReceive (l_os P) (l_mnl P) sk (ex_msg ?x) (ex_handler ?x) (ex_init ?x) w1 = (Some (Inr d), w')"
    by blast
  then have "ex_run (l_os P) (l_mnl P) sk [(?xs ! 1) (n + 1)] ([ToSend], w1) ([Left (Inr d)], w')"
    by (simp add: exchange_alone)
  from race_exchange_run [OF this refl refl, of "[?a, Numbered (n + 1) ToSend]" "n + 1"]
  have "steps ?step ([?a, Numbered (n + 1) ToSend], n + 1, w1) ([?a, Numbered (n + 1) (Left (Inr d))], n + 1, w')" by simp
  with 1 2 show ?thesis by (blast intro: steps_trans steps_single)
qed

text \<open>Two acknowledged requests with different numbers; the first worker runs to its end.\<close>

theorem replies_never_mixed_witness:
  "\<exists>w' rs. ex_run seq_env ack_mnl example_sk [example_exchange 1, example_exchange 2] ([ToSend, ToSend], idle_world)
      ([Left (Inr 0), ToSend], w')
    \<and> handled (ex_handler (example_exchange 1)) (ex_init (example_exchange 1)) rs = Inr 0"
proof -
  let ?xs = "[example_exchange 1, example_exchange 2]"
  have "kernel_echoes seq_env ack_mnl h" for h
    by (auto simp: kernel_echoes_def answers_def seq_env_def ack_mnl_def le_word_le_bytes)
  moreover have "distinct (map ex_seq ?xs)" by (simp add: ex_seq_def example_exchange_def family_request_def)
  moreover have "inbox idle_world (sk_handle example_sk) = []" by (simp add: idle_world_def)
  moreover have "\<exists>w'. SendAndReceive seq_env ack_mnl example_sk (ex_msg (?xs ! 0)) (ex_handler (?xs ! 0))
      (ex_init (?xs ! 0)) idle_world = (Some (Inr 0), w')"
    using example_recv(1) by (simp add: SendAndReceive_def sk_send_def seq_env_def example_exchange_def example_sk_def
        family_request_def idle_world_def)
  then obtain w' where "ex_run seq_env ack_mnl example_sk ?xs ([ToSend, ToSend], idle_world) ([Left (Inr 0), ToSend], w')"
    using SendAndReceive_run [of seq_env ack_mnl example_sk ?xs 0 idle_world _ _ "[ToSend, ToSend]"] by fastforce
  ultimately show ?thesis
    using replies_never_mixed [of seq_env ack_mnl example_sk ?xs idle_world "[Left (Inr 0), ToSend]" w' 0 0]
    by (auto simp: numeral_2_eq_2)
qed

text \<open>A kernel that reports, under the number of the request, the name of the interface asked for.\<close>

definition name_reply :: "nlmsg \<Rightarrow> bytes" where
  "name_reply m = (case nlmsg_calls m of
     [AttrPutStrz t s] \<Rightarrow> [0, 1, 0, 0] @ enc_attrs [Leaf t (str_bytes s @ [0])] | _ \<Rightarrow> [])"

definition name_libs :: "unit libs" where
  "name_libs = (example_libs (ack_env\<lparr>kernel := \<lambda>_ _ m. Inr [Datagram (name_reply m)]\<rparr>))
     \<lparr>l_mnl := ref_mnl\<lparr>next_msgs := \<lambda>b. [\<lparr>rp_type = 27, rp_flags = 0, rp_seq = 1, rp_pid = 42, rp_payload = b\<rparr>]\<rparr>\<rparr>"

theorem raced_counter_swaps_devices_witness:
  "\<exists>w'. steps (race_step (l_os name_libs) (l_mnl name_libs) example_sk
        [get_exchange name_libs 27 ''wg0'', get_exchange name_libs 27 ''wg1''])
      ([Fresh, Fresh], 0, idle_world)
      ([Numbered 1 (Waiting (default_device\<lparr>dev_name := ''wg0''\<rparr>)),
        Numbered 1 (Left (Inr (default_device\<lparr>dev_name := ''wg0''\<rparr>)))], 1, w')"
proof -
  have v: "valid_ifname ''wg0''" "valid_ifname ''wg1''" by (simp_all add: valid_ifname_def code_def)
  have k: "kernel (l_os name_libs) w h m = Inr [Datagram (name_reply m)]" for w h m
    by (simp add: name_libs_def example_libs_def)
  have parse: "parse_attrs (l_mnl name_libs) (enc_attrs ts) = map nlattr_of ts" if "list_all attr_fits ts" for ts
    using mnl_parse_ok_ref that by (simp add: mnl_parse_ok_def name_libs_def)
  have "ParseDeviceMessage (l_inet name_libs) (l_mnl name_libs) (l_junk name_libs)
      (name_reply (ex_msg (get_exchange name_libs 27 ''wg0'' 1))) d = Inr (d\<lparr>dev_name := ''wg0''\<rparr>)" for d
    using attr_str_bytes [of "''wg0''" WGDEVICE_A_IFNAME] parse [of "[Leaf WGDEVICE_A_IFNAME (str_bytes ''wg0'' @ [0])]"]
    by (simp add: get_exchange_msg [OF v(1)] name_reply_def ParseDeviceMessage_def)
      (simp add: ParseDeviceAttr_def wgdevice_attr_defs str_bytes_def)
  then have h: "device_handler name_libs d
      \<lparr>rp_type = 27, rp_flags = 0, rp_seq = 1, rp_pid = 42, rp_payload = name_reply (ex_msg (get_exchange name_libs 27 ''wg0'' 1))\<rparr>
      = Inr (True, d\<lparr>dev_name := ''wg0''\<rparr>)" for d by (simp add: device_handler_def)
  have nm: "next_msgs (l_mnl name_libs) b = [\<lparr>rp_type = 27, rp_flags = 0, rp_seq = 1, rp_pid = 42, rp_payload = b\<rparr>]" for b
    by (simp add: name_libs_def)
  have pid: "portid example_sk = 42" by (simp add: example_sk_def)
  have r: "recv_loop (l_os name_libs) (l_mnl name_libs) (0 + 1) (portid example_sk) (device_handler name_libs)
      (default_device\<lparr>dev_name := ''wg1''\<rparr>) [Datagram (name_reply (ex_msg (get_exchange name_libs 27 ''wg0'' (0 + 1))))] =
      (Some (Inr (default_device\<lparr>dev_name := ''wg0''\<rparr>)), [])"
    by (simp add: h nm pid NLMSG_ERROR_def NLMSG_DONE_def)
  obtain w1 where "sk_send (l_os name_libs) (sk_handle example_sk) (ex_msg (get_exchange name_libs 27 ''wg0'' (0 + 1))) idle_world
      = (None, w1)" by (simp add: sk_send_def k)
  from raced_counter_swaps_devices [OF v _ k this k r] show ?thesis by (simp add: idle_world_def)
qed

end
