(* ===== verification/Client.thy ===== *)
theory Client imports "HOL-Library.Multiset" Systems Backends begin

text \<open>
  The part of \<open>src/src/WireGuardClient.cpp\<close> that runs on the JavaScript thread: the methods, their
  registration, and the life of a client: its shared netlink socket, its queued workers and
  their promises.
\<close>

section \<open>The methods\<close>

text \<open>A method either rejects its promise at once or queues a worker.\<close>

datatype call_result = RejectPromise string | Queue task

definition closed_rejection :: call_result where
  "closed_rejection = RejectPromise ''client is closed''"

definition name_rejection :: call_result where
  "name_rejection = RejectPromise ''expected interface name (string) as argument 0''"

definition method_CreateDevice :: "bool \<Rightarrow> js list \<Rightarrow> call_result" where
  "method_CreateDevice sock info =
     (if \<not> sock then closed_rejection
      else (case GetStringArg info 0 of None \<Rightarrow> name_rejection | Some name \<Rightarrow> Queue (TCreate name)))"

definition method_DeleteDevice :: "bool \<Rightarrow> js list \<Rightarrow> call_result" where
  "method_DeleteDevice sock info =
     (if \<not> sock then closed_rejection
      else (case GetStringArg info 0 of None \<Rightarrow> name_rejection | Some name \<Rightarrow> Queue (TDelete name)))"

definition method_Devices :: "bool \<Rightarrow> js list \<Rightarrow> call_result" where
  "method_Devices sock info = (if \<not> sock then closed_rejection else Queue TDevices)"

definition method_Device :: "bool \<Rightarrow> js list \<Rightarrow> call_result" where
  "method_Device sock info =
     (if \<not> sock then closed_rejection
      else (case GetStringArg info 0 of None \<Rightarrow> name_rejection | Some name \<Rightarrow> Queue (TDevice name)))"

definition method_ConfigureDevice :: "inet_lib \<Rightarrow> bool \<Rightarrow> js list \<Rightarrow> call_result" where
  "method_ConfigureDevice L sock info =
     (if \<not> sock then closed_rejection
      else (case GetStringArg info 0 of
          None \<Rightarrow> name_rejection
        | Some name \<Rightarrow>
            if length info \<le> 1 \<or> \<not> IsObject (info ! 1)
            then RejectPromise ''expected config (object) as argument 1''
            else (case ConfigFromJs L (info ! 1) of
                    Inl e \<Rightarrow> RejectPromise (what e)
                  | Inr cfg \<Rightarrow> Queue (TConfigure name cfg))))"

definition method_SetUp :: "bool \<Rightarrow> js list \<Rightarrow> call_result" where
  "method_SetUp sock info =
     (if \<not> sock then closed_rejection
      else (case GetStringArg info 0 of None \<Rightarrow> name_rejection | Some name \<Rightarrow> Queue (TSetUp name True)))"

definition method_SetDown :: "bool \<Rightarrow> js list \<Rightarrow> call_result" where
  "method_SetDown sock info =
     (if \<not> sock then closed_rejection
      else (case GetStringArg info 0 of None \<Rightarrow> name_rejection | Some name \<Rightarrow> Queue (TSetUp name False)))"

definition address_rejection :: call_result where
  "address_rejection = RejectPromise ''expected interface name and cidr (strings)''"

definition method_SetAddress :: "bool \<Rightarrow> js list \<Rightarrow> call_result" where
  "method_SetAddress sock info =
     (if \<not> sock then closed_rejection
      else (case (GetStringArg info 0, GetStringArg info 1) of
          (Some name, Some cidr_s) \<Rightarrow> Queue (TAddAddress name cidr_s)
        | _ \<Rightarrow> address_rejection))"

definition method_DeleteAddress :: "bool \<Rightarrow> js list \<Rightarrow> call_result" where
  "method_DeleteAddress sock info =
     (if \<not> sock then closed_rejection
      else (case (GetStringArg info 0, GetStringArg info 1) of
          (Some name, Some cidr_s) \<Rightarrow> Queue (TDeleteAddress name cidr_s)
        | _ \<Rightarrow> address_rejection))"

text \<open>The methods \<open>Init\<close> registers; \<open>close\<close> is an event of its own.\<close>

datatype method_name =
    M_createDevice | M_deleteDevice | M_devices | M_device | M_configureDevice
  | M_setUp | M_setDown | M_setAddress | M_deleteAddress

fun call_method :: "inet_lib \<Rightarrow> method_name \<Rightarrow> bool \<Rightarrow> js list \<Rightarrow> call_result" where
  "call_method L M_createDevice sock info = method_CreateDevice sock info"
| "call_method L M_deleteDevice sock info = method_DeleteDevice sock info"
| "call_method L M_devices sock info = method_Devices sock info"
| "call_method L M_device sock info = method_Device sock info"
| "call_method L M_configureDevice sock info = method_ConfigureDevice L sock info"
| "call_method L M_setUp sock info = method_SetUp sock info"
| "call_method L M_setDown sock info = method_SetDown sock info"
| "call_method L M_setAddress sock info = method_SetAddress sock info"
| "call_method L M_deleteAddress sock info = method_DeleteAddress sock info"

text \<open>What the module exports: the three key functions and the class with its instance methods.\<close>

datatype native_method = Method method_name | Close

definition InstanceMethods :: "(string \<times> native_method) list" where
  "InstanceMethods =
     [(''createDevice'', Method M_createDevice), (''deleteDevice'', Method M_deleteDevice),
      (''devices'', Method M_devices), (''device'', Method M_device),
      (''configureDevice'', Method M_configureDevice), (''setUp'', Method M_setUp),
      (''setDown'', Method M_setDown), (''setAddress'', Method M_setAddress),
      (''deleteAddress'', Method M_deleteAddress), (''close'', Close)]"

datatype export = GeneratePrivateKeyFn | GeneratePresharedKeyFn | PublicKeyFn
  | WireGuardClientClass "(string \<times> native_method) list"

definition WireGuardClient_Init :: "(string \<times> export) list \<Rightarrow> (string \<times> export) list" where
  "WireGuardClient_Init exports = exports @ [(''WireGuardClient'', WireGuardClientClass InstanceMethods)]"

definition Init :: "(string \<times> export) list \<Rightarrow> (string \<times> export) list" where
  "Init exports = WireGuardClient_Init
     (exports @ [(''generatePrivateKey'', GeneratePrivateKeyFn),
                 (''generatePresharedKey'', GeneratePresharedKeyFn), (''publicKey'', PublicKeyFn)])"

lemma Init_complete:
  "distinct (map fst (Init []))" "distinct (map fst InstanceMethods)"
  "\<exists>name. map_of InstanceMethods name = Some (Method m)"
proof -
  show "distinct (map fst (Init []))" "distinct (map fst InstanceMethods)"
    by (simp_all add: Init_def WireGuardClient_Init_def InstanceMethods_def)
  then have "(name, Method m) \<in> set InstanceMethods \<Longrightarrow> map_of InstanceMethods name = Some (Method m)" for name
    by simp
  moreover have "\<exists>name. (name, Method m) \<in> set InstanceMethods" by (cases m) (auto simp: InstanceMethods_def)
  ultimately show "\<exists>name. map_of InstanceMethods name = Some (Method m)" by blast
qed

section \<open>The life of a client\<close>

text \<open>
  \<open>cl_holds\<close>: \<open>sock_\<close> is not null. \<open>cl_shared\<close>: the \<open>NlSocket\<close> object, while a reference to it is
  left. Workers run one at a time here, each as one step, in any order; a worker whose
  execution never returns takes no step.
\<close>

record client =
  cl_holds :: bool
  cl_shared :: "nl_socket option"
  cl_workers :: "(nat \<times> task) list"
  cl_settled :: "(nat \<times> js settlement) list"
  cl_next :: nat
  cl_world :: world

definition client_new :: "os_env \<Rightarrow> world \<Rightarrow> string option \<times> client" where
  "client_new E w =
     (case NlSocket_new E w of
        (Inr s, w') \<Rightarrow> (None, \<lparr>cl_holds = True, cl_shared = Some s, cl_workers = [], cl_settled = [],
                          cl_next = 0, cl_world = w'\<rparr>)
      | (Inl e, w') \<Rightarrow> (Some (what e), \<lparr>cl_holds = False, cl_shared = None, cl_workers = [], cl_settled = [],
                          cl_next = 0, cl_world = w'\<rparr>))"

definition referenced :: "client \<Rightarrow> bool" where
  "referenced c \<longleftrightarrow> cl_holds c \<or> list_ex (\<lambda>(i, t). captures_sock t) (cl_workers c)"

text \<open>The destructor of the last \<open>shared_ptr\<close> closes the socket.\<close>

definition release :: "client \<Rightarrow> client" where
  "release c =
     (case cl_shared c of
        Some s \<Rightarrow> if referenced c then c
                  else c\<lparr>cl_shared := None, cl_world := NlSocket_delete s (cl_world c)\<rparr>
      | None \<Rightarrow> c)"

definition client_call :: "'p libs \<Rightarrow> method_name \<Rightarrow> js list \<Rightarrow> client \<Rightarrow> client" where
  "client_call P m info c =
     (case call_method (l_inet P) m (cl_holds c) info of
        RejectPromise msg \<Rightarrow>
          c\<lparr>cl_settled := cl_settled c @ [(cl_next c, Rejected (plain_error msg))], cl_next := Suc (cl_next c)\<rparr>
      | Queue t \<Rightarrow>
          c\<lparr>cl_workers := cl_workers c @ [(cl_next c, t)], cl_next := Suc (cl_next c)\<rparr>)"

definition no_socket :: nl_socket where
  "no_socket = \<lparr>sk_handle = 0, portid = 0, nl_seq = 0, wgFamilyId = 0\<rparr>"

definition client_run :: "'p libs \<Rightarrow> nat \<Rightarrow> client \<Rightarrow> client option" where
  "client_run P i c =
     (case cl_workers c ! i of (ident, t) \<Rightarrow>
        (case run_task P t (case cl_shared c of Some s \<Rightarrow> s | None \<Rightarrow> no_socket, cl_world c) of
           (None, _) \<Rightarrow> None
         | (Some r, (s', w')) \<Rightarrow>
             (case PromiseWorker (\<lambda>v. v) r of
                None \<Rightarrow> None
              | Some outcome \<Rightarrow>
                  Some (release (c\<lparr>cl_workers := take i (cl_workers c) @ drop (Suc i) (cl_workers c),
                                  cl_settled := cl_settled c @ [(ident, outcome)],
                                  cl_shared := map_option (\<lambda>_. s') (cl_shared c),
                                  cl_world := w'\<rparr>)))))"

definition client_close :: "client \<Rightarrow> client" where
  "client_close c = release (c\<lparr>cl_holds := False\<rparr>)"

inductive client_step :: "'p libs \<Rightarrow> client \<Rightarrow> client \<Rightarrow> bool" for P where
  step_call: "client_step P c (client_call P m info c)"
| step_run: "i < length (cl_workers c) \<Longrightarrow> client_run P i c = Some c' \<Longrightarrow> client_step P c c'"
| step_close: "client_step P c (client_close c)"

inductive client_reachable :: "'p libs \<Rightarrow> client \<Rightarrow> client \<Rightarrow> bool" for P c0 where
  reach_start: "client_reachable P c0 c0"
| reach_step: "client_reachable P c0 c \<Longrightarrow> client_step P c c' \<Longrightarrow> client_reachable P c0 c'"

inductive_cases client_stepE: "client_step P c c'"

section \<open>The invariant of a client\<close>

text \<open>
  \<open>B\<close> and \<open>F\<close> are the sockets and descriptors that were open before the client existed.
  The client's own socket is open exactly while its object exists, which is while the client
  or a queued worker refers to it; every promise is pending or settled, once.
\<close>

definition client_inv :: "nat list \<Rightarrow> nat list \<Rightarrow> client \<Rightarrow> bool" where
  "client_inv B F c \<longleftrightarrow>
     (cl_shared c \<noteq> None \<longleftrightarrow> referenced c)
     \<and> open_socks (cl_world c) = (case cl_shared c of Some s \<Rightarrow> sk_handle s # B | None \<Rightarrow> B)
     \<and> open_fds (cl_world c) = F
     \<and> distinct (map fst (cl_workers c) @ map fst (cl_settled c))
     \<and> set (map fst (cl_workers c) @ map fst (cl_settled c)) = {..<cl_next c}"

lemma call_method_closed: "call_method L m False info = RejectPromise ''client is closed''"
  by (cases m) (simp_all add: method_CreateDevice_def method_DeleteDevice_def method_Devices_def
      method_Device_def method_ConfigureDevice_def method_SetUp_def method_SetDown_def
      method_SetAddress_def method_DeleteAddress_def closed_rejection_def)

lemma client_new_inv:
  "client_new E w = (err, c) \<Longrightarrow> client_inv (open_socks w) (open_fds w) c"
  by (auto simp: client_new_def NlSocket_new_def sk_open_def sk_close_def client_inv_def referenced_def
      split: sum.splits option.splits prod.splits)

text \<open>\<open>release\<close> restores the invariant when at most a reference was dropped.\<close>

lemma release_inv:
  assumes "referenced c \<Longrightarrow> cl_shared c \<noteq> None"
    and "open_socks (cl_world c) = (case cl_shared c of Some s \<Rightarrow> sk_handle s # B | None \<Rightarrow> B)"
    and "open_fds (cl_world c) = F" and "distinct (map fst (cl_workers c) @ map fst (cl_settled c))"
    and "set (map fst (cl_workers c) @ map fst (cl_settled c)) = {..<cl_next c}"
  shows "client_inv B F (release c)"
  using assms
  by (auto simp: release_def client_inv_def NlSocket_delete_def sk_close_def referenced_def split: option.splits)

lemma release_frame [simp]:
  "cl_holds (release c) = cl_holds c" "cl_workers (release c) = cl_workers c"
  "cl_settled (release c) = cl_settled c" "cl_next (release c) = cl_next c"
  by (auto simp: release_def split: option.splits)

lemma client_call_inv:
  assumes "client_inv B F c"
  shows "client_inv B F (client_call P m info c)"
proof (cases "cl_holds c")
  case False
  then show ?thesis using assms
    by (auto simp: client_call_def call_method_closed client_inv_def referenced_def lessThan_Suc)
next
  case True
  then show ?thesis using assms
    by (auto simp: client_call_def client_inv_def referenced_def lessThan_Suc split: call_result.split)
qed

lemma client_close_inv: "client_inv B F c \<Longrightarrow> client_inv B F (client_close c)"
  unfolding client_close_def
  by (rule release_inv) (auto simp: client_inv_def referenced_def split: option.splits)

lemma remove_nth_split:
  "i < length xs \<Longrightarrow> xs = take i xs @ xs ! i # drop (Suc i) xs"
  by (rule id_take_nth_drop)

lemma client_run_inv:
  assumes "client_inv B F c" and "i < length (cl_workers c)" and "client_run P i c = Some c'"
    and "writes_progress (l_os P)"
  shows "client_inv B F c'"
proof -
  let ?s = "case cl_shared c of Some s \<Rightarrow> s | None \<Rightarrow> no_socket"
  obtain ident t where it: "cl_workers c ! i = (ident, t)" by force
  from assms(3) it obtain r s' w' out where run: "run_task P t (?s, cl_world c) = (Some r, (s', w'))"
    and c': "c' = release (c\<lparr>cl_workers := take i (cl_workers c) @ drop (Suc i) (cl_workers c),
      cl_settled := cl_settled c @ [(ident, out)], cl_shared := map_option (\<lambda>_. s') (cl_shared c),
      cl_world := w'\<rparr>)"
    by (auto simp: client_run_def split: option.splits prod.splits)
  have k: "keeps (?s, cl_world c) (s', w')"
    using io_keeps_run_task [OF assms(4), of t] run by (auto simp: io_keeps_def)
  have ws: "cl_workers c = take i (cl_workers c) @ (ident, t) # drop (Suc i) (cl_workers c)"
    using remove_nth_split [OF assms(2)] it by simp
  have inv: "cl_shared c \<noteq> None \<longleftrightarrow> referenced c"
    "open_socks (cl_world c) = (case cl_shared c of Some s \<Rightarrow> sk_handle s # B | None \<Rightarrow> B)"
    "open_fds (cl_world c) = F"
    using assms(1) by (simp_all add: client_inv_def)
  have ids: "mset (map fst (take i (cl_workers c) @ drop (Suc i) (cl_workers c)) @
        map fst (cl_settled c @ [(ident, out)])) = mset (map fst (cl_workers c) @ map fst (cl_settled c))"
    by (subst (3) ws) simp
  show ?thesis unfolding c'
  proof (rule release_inv, goal_cases)
    case 1
    then have "referenced c"
      by (subst (asm) referenced_def, subst referenced_def, subst ws) auto
    then show ?case using inv(1) by auto
  next
    case 2
    then show ?case using inv(2) k by (auto simp: keeps_def split: option.splits)
  next
    case 3
    then show ?case using inv(3) k by (simp add: keeps_def)
  next
    case 4
    then show ?case using mset_eq_imp_distinct_iff [OF ids] assms(1) by (simp add: client_inv_def)
  next
    case 5
    then show ?case using mset_eq_setD [OF ids] assms(1) by (simp add: client_inv_def)
  qed
qed

lemma client_step_inv:
  "client_step P c c' \<Longrightarrow> writes_progress (l_os P) \<Longrightarrow> client_inv B F c \<Longrightarrow> client_inv B F c'"
  by (erule client_stepE) (auto intro: client_call_inv client_close_inv client_run_inv)

lemma client_reachable_steps: "client_reachable P c0 c \<longleftrightarrow> steps (client_step P) c0 c"
proof
  show "client_reachable P c0 c \<Longrightarrow> steps (client_step P) c0 c"
    by (induction rule: client_reachable.induct) (auto intro: steps_snoc)
  show "steps (client_step P) c0 c \<Longrightarrow> client_reachable P c0 c"
    by (induction rule: steps.induct) (auto intro: client_reachable.intros)
qed

interpretation life: preserved "client_step P" "\<lambda>c. writes_progress (l_os P) \<longrightarrow> client_inv B F c"
  by unfold_locales (blast intro: client_step_inv)

lemma client_reachable_inv:
  "client_reachable P c0 c \<Longrightarrow> writes_progress (l_os P) \<Longrightarrow> client_inv B F c0 \<Longrightarrow> client_inv B F c"
  using life.steps_keep [where P = P and s = c0 and t = c and B = B and F = F]
  by (simp add: client_reachable_steps)

section \<open>Closed stays closed, settled stays settled\<close>

lemma client_run_holds: "client_run P i c = Some c' \<Longrightarrow> cl_holds c' = cl_holds c \<and> (\<exists>x. cl_settled c' = cl_settled c @ [x])"
  by (auto simp: client_run_def split: prod.splits option.splits)

lemma client_step_holds: "client_step P c c' \<Longrightarrow> \<not> cl_holds c \<Longrightarrow> \<not> cl_holds c'"
  by (erule client_stepE)
    (auto simp: client_call_def client_close_def client_run_holds split: call_result.splits)

interpretation closed: preserved "client_step P" "\<lambda>c. \<not> cl_holds c"
  by unfold_locales (rule client_step_holds)

lemma client_reachable_closed: "client_reachable P c c' \<Longrightarrow> \<not> cl_holds c \<Longrightarrow> \<not> cl_holds c'"
  unfolding client_reachable_steps by (rule closed.steps_keep)

lemma client_step_settled: "client_step P c c' \<Longrightarrow> \<exists>xs. cl_settled c' = cl_settled c @ xs"
  by (erule client_stepE)
    (auto simp: client_call_def client_close_def dest: client_run_holds split: call_result.splits)

lemma client_reachable_settled: "client_reachable P c c' \<Longrightarrow> \<exists>xs. cl_settled c' = cl_settled c @ xs"
proof (induction rule: client_reachable.induct)
  case (reach_step c' c'')
  then show ?case using client_step_settled [OF reach_step.hyps(2)] by auto
qed simp

section \<open>Properties\<close>

text \<open>
  C9: along every life of a client, whatever methods are called, workers run and closes happen
  in whatever order: its netlink socket is open exactly while its object exists, which is while
  the client or a queued worker refers to it; no other socket or descriptor is left open; and
  every promise handed out is either pending or settled, never both and never twice.
\<close>

theorem client_life:
  assumes "client_new (l_os P) w = (err, c0)" and "client_reachable P c0 c" and "writes_progress (l_os P)"
  shows "client_inv (open_socks w) (open_fds w) c"
  using client_reachable_inv [OF assms(2,3) client_new_inv [OF assms(1)]] .

theorem client_life_witness:
  "\<exists>c. client_reachable (example_libs ack_env) (snd (client_new ack_env idle_world)) c \<and> client_inv [] [] c
    \<and> open_socks (cl_world c) = []"
proof -
  let ?P = "example_libs ack_env"
  obtain err c0 where new: "client_new ack_env idle_world = (err, c0)" by (cases "client_new ack_env idle_world")
  have reach: "client_reachable ?P c0 (client_close c0)" by (rule reach_step [OF reach_start step_close])
  have "client_inv (open_socks idle_world) (open_fds idle_world) (client_close c0)"
    by (rule client_life [OF _ reach]) (simp_all add: example_libs_def new writes_progress_ack)
  then have inv: "client_inv [] [] (client_close c0)" by (simp add: idle_world_def)
  have "cl_workers c0 = []" using new
    by (auto simp: client_new_def NlSocket_new_def split: sum.splits prod.splits option.splits)
  then have "\<not> referenced (client_close c0)" by (simp add: referenced_def client_close_def)
  then have "cl_shared (client_close c0) = None" using inv by (simp add: client_inv_def)
  then have "open_socks (cl_world (client_close c0)) = []" using inv by (simp add: client_inv_def)
  then show ?thesis using reach inv new by auto
qed

text \<open>
  Once a client is closed it stays closed: every method called at any later time gets a
  promise that is rejected at once with \<open>client is closed\<close>, and queues nothing.
\<close>

theorem closed_client_rejects:
  assumes "client_reachable P (client_close c) c'"
  shows "client_call P m info c' =
    c'\<lparr>cl_settled := cl_settled c' @ [(cl_next c', Rejected (plain_error ''client is closed''))],
       cl_next := Suc (cl_next c')\<rparr>"
proof -
  have "\<not> cl_holds (client_close c)" by (simp add: client_close_def)
  then have "\<not> cl_holds c'" using client_reachable_closed [OF assms] by simp
  then show ?thesis by (simp add: client_call_def call_method_closed)
qed

theorem closed_client_rejects_witness:
  "cl_settled (client_call (example_libs ack_env) M_devices [] (client_close (snd (client_new ack_env idle_world)))) =
   [(0, Rejected (plain_error ''client is closed''))]"
proof -
  let ?c = "snd (client_new ack_env idle_world)"
  have "cl_settled ?c = [] \<and> cl_next ?c = 0"
    by (auto simp: client_new_def split: sum.splits prod.splits)
  then show ?thesis
    using closed_client_rejects [OF reach_start, where P = "example_libs ack_env" and c = ?c and m = M_devices and info = "[]"]
    by (simp add: client_close_def)
qed

end
