(* ===== verification/Worker.thy ===== *)
theory Worker imports Overlap Client begin

text \<open>
  A kernel worker, \<open>FetchDeviceKernel\<close> or the kernel branch of \<open>ApplyConfig\<close>, one access to the
  shared \<open>NlSocket\<close> or system call at a time: the cache of the family id, the counter of sequence
  numbers, the exchanges. Alone on the socket it computes what the functions of \<open>Backends\<close> say;
  whatever JavaScript does meanwhile, it is the one step that \<open>Client\<close> makes of it.
\<close>

section \<open>The steps of a kernel worker\<close>

text \<open>What the two functions differ in: the request they build and the handler of its replies.\<close>

record 's kernel_job =
  kj_build :: "u16 \<Rightarrow> u32 \<Rightarrow> nlmsg res"
  kj_handler :: "'s \<Rightarrow> nlreply \<Rightarrow> (bool \<times> 's) res"
  kj_init :: 's

definition fetch_job :: "'p libs \<Rightarrow> string \<Rightarrow> device kernel_job" where
  "fetch_job P name =
     \<lparr>kj_build = (\<lambda>familyId sq. BuildGetDeviceMessage familyId sq name), kj_handler = device_handler P,
      kj_init = default_device\<lparr>dev_name := name\<rparr>\<rparr>"

definition apply_job :: "'p libs \<Rightarrow> string \<Rightarrow> config \<Rightarrow> unit kernel_job" where
  "apply_job P name cfg =
     \<lparr>kj_build = (\<lambda>familyId sq. BuildSetDeviceMessage (l_inet P) familyId sq name cfg),
      kj_handler = (\<lambda>u reply. Inr (True, u)), kj_init = ()\<rparr>"

text \<open>
  Where a worker stands: at \<open>if (wgFamilyId_ != 0)\<close>, at \<open>return wgFamilyId_\<close>, before the load and
  the store of \<open>++seq_\<close> for the family request, in its exchange, at \<open>wgFamilyId_ = familyId\<close>; before
  the load and the store of \<open>++seq_\<close> for its own request, in its exchange; finished.
\<close>

datatype 's kworker =
    CheckCache
  | ReadCache
  | CountFamily
  | StoreFamily u32
  | FamilyExchange u32 "u16 phase"
  | WriteCache u16
  | CountRequest u16
  | StoreRequest u16 u32
  | RequestExchange nlmsg "'s phase"
  | Finished "'s res"

definition family_exchange :: "mnl_lib \<Rightarrow> u32 \<Rightarrow> u16 exchange" where
  "family_exchange M sq = \<lparr>ex_msg = family_request sq, ex_handler = family_handler M, ex_init = 0\<rparr>"

definition job_exchange :: "'s kernel_job \<Rightarrow> nlmsg \<Rightarrow> 's exchange" where
  "job_exchange j m = \<lparr>ex_msg = m, ex_handler = kj_handler j, ex_init = kj_init j\<rparr>"

definition no_family :: error where
  "no_family = SystemError ENODEV
     ''wireguard genetlink family not found (is the wireguard kernel module loaded?)''"

text \<open>The next system call of an exchange; \<open>None\<close>: it has ended, or waits for a datagram.\<close>

fun ex_next :: "os_env \<Rightarrow> mnl_lib \<Rightarrow> nl_socket \<Rightarrow> 's exchange \<Rightarrow> 's phase \<Rightarrow> world \<Rightarrow> ('s phase \<times> world) option" where
  "ex_next E M sk x ToSend w =
     (case sk_send E (sk_handle sk) (ex_msg x) w of (r, w') \<Rightarrow> Some (on_send E x r, w'))"
| "ex_next E M sk x (Waiting s) w =
     (case sk_recv (sk_handle sk) w of
        (None, _) \<Rightarrow> None
      | (Some ev, w') \<Rightarrow> Some (on_recv E M (portid sk) x s ev, w'))"
| "ex_next E M sk x (Left r) w = None"

fun after_family :: "u32 \<Rightarrow> u16 phase \<Rightarrow> 's kworker" where
  "after_family v (Left (Inl e)) = Finished (Inl e)"
| "after_family v (Left (Inr familyId)) = (if familyId = 0 then Finished (Inl no_family) else WriteCache familyId)"
| "after_family v p = FamilyExchange v p"

fun after_request :: "nlmsg \<Rightarrow> 's phase \<Rightarrow> 's kworker" where
  "after_request m (Left r) = Finished r"
| "after_request m p = RequestExchange m p"

fun worker_step ::
  "'p libs \<Rightarrow> 's kernel_job \<Rightarrow> 's kworker \<Rightarrow> io_state \<Rightarrow> ('s kworker \<times> io_state) option" where
  "worker_step P j CheckCache (s, w) = Some (if wgFamilyId s \<noteq> 0 then ReadCache else CountFamily, (s, w))"
| "worker_step P j ReadCache (s, w) = Some (CountRequest (wgFamilyId s), (s, w))"
| "worker_step P j CountFamily (s, w) = Some (StoreFamily (nl_seq s + 1), (s, w))"
| "worker_step P j (StoreFamily v) (s, w) = Some (FamilyExchange v ToSend, (s\<lparr>nl_seq := v\<rparr>, w))"
| "worker_step P j (FamilyExchange v p) (s, w) =
     map_option (\<lambda>(p', w'). (after_family v p', (s, w')))
       (ex_next (l_os P) (l_mnl P) s (family_exchange (l_mnl P) v) p w)"
| "worker_step P j (WriteCache familyId) (s, w) = Some (ReadCache, (s\<lparr>wgFamilyId := familyId\<rparr>, w))"
| "worker_step P j (CountRequest familyId) (s, w) = Some (StoreRequest familyId (nl_seq s + 1), (s, w))"
| "worker_step P j (StoreRequest familyId v) (s, w) =
     Some (case kj_build j familyId v of Inl e \<Rightarrow> Finished (Inl e) | Inr m \<Rightarrow> RequestExchange m ToSend,
           (s\<lparr>nl_seq := v\<rparr>, w))"
| "worker_step P j (RequestExchange m p) (s, w) =
     map_option (\<lambda>(p', w'). (after_request m p', (s, w')))
       (ex_next (l_os P) (l_mnl P) s (job_exchange j m) p w)"
| "worker_step P j (Finished r) st = None"

text \<open>A pool of workers on one socket: one of them makes its next step.\<close>

inductive pool_step :: "'p libs \<Rightarrow> 's kernel_job list \<Rightarrow> 's kworker list \<times> io_state \<Rightarrow> 's kworker list \<times> io_state \<Rightarrow> bool"
  for P js where
  pool_worker: "i < length ts \<Longrightarrow> worker_step P (js ! i) (ts ! i) st = Some (t, st') \<Longrightarrow>
     pool_step P js (ts, st) (ts[i := t], st')"

inductive_cases pool_stepE: "pool_step P js c c'"

lemma ex_next_step:
  "ex_step E M sk [x] ([p], w) ([p'], w') \<longleftrightarrow> ex_next E M sk x p w = Some (p', w')"
proof
  show "ex_next E M sk x p w = Some (p', w')" if "ex_step E M sk [x] ([p], w) ([p'], w')"
    using that by (rule ex_stepE) auto
  show "ex_step E M sk [x] ([p], w) ([p'], w')" if "ex_next E M sk x p w = Some (p', w')"
  proof (cases p)
    case ToSend
    then show ?thesis using that step_send [of 0 "[p]" E sk "[x]" w] by (auto split: prod.splits)
  next
    case (Waiting s)
    then show ?thesis using that step_recv [of 0 "[p]" s sk w _ _ E M "[x]"]
      by (auto split: prod.splits option.splits)
  qed (use that in simp)
qed

lemma remaining_next:
  "ex_next E M sk x p w = Some (p', w') \<Longrightarrow> remaining E M sk x p' w' = remaining E M sk x p w"
  using ex_step_alone [of E M sk x p w "([p'], w')"] by (simp add: ex_next_step)

section \<open>What is left to compute\<close>

text \<open>A kernel worker as one operation; both functions of \<open>Backends\<close> are instances.\<close>

definition request_io :: "'p libs \<Rightarrow> 's kernel_job \<Rightarrow> u16 \<Rightarrow> 's io" where
  "request_io P j familyId =
     io_bind io_seq (\<lambda>sq. io_bind (io_res (kj_build j familyId sq)) (\<lambda>m. io_send P m (kj_handler j) (kj_init j)))"

definition kernel_io :: "'p libs \<Rightarrow> 's kernel_job \<Rightarrow> 's io" where
  "kernel_io P j = io_bind (io_family P) (request_io P j)"

lemma FetchDeviceKernel_io: "FetchDeviceKernel P name = kernel_io P (fetch_job P name)"
  by (simp add: FetchDeviceKernel_def kernel_io_def request_io_def [abs_def] fetch_job_def)

lemma ApplyConfig_io:
  "HasSocket (l_os P) name w = Inr False \<Longrightarrow> ApplyConfig P name cfg (s, w) = kernel_io P (apply_job P name cfg) (s, w)"
  by (simp add: ApplyConfig_def kernel_io_def request_io_def [abs_def] apply_job_def io_read_def io_bind_def)

lemma FetchDevice_io:
  "HasSocket (l_os P) name w = Inr False \<Longrightarrow> FetchDevice P name (s, w) = kernel_io P (fetch_job P name) (s, w)"
  by (simp add: FetchDevice_def io_read_def io_bind_def FetchDeviceKernel_io)

text \<open>What is left of an exchange, as an operation.\<close>

definition exchange_io :: "'p libs \<Rightarrow> 'a exchange \<Rightarrow> 'a phase \<Rightarrow> 'a io" where
  "exchange_io P x p st =
     (case remaining (l_os P) (l_mnl P) (fst st) x p (snd st) of (r, w) \<Rightarrow> (r, (fst st, w)))"

lemma exchange_io_send: "exchange_io P (job_exchange j m) ToSend = io_send P m (kj_handler j) (kj_init j)"
  by (rule ext) (simp add: exchange_io_def job_exchange_def io_send_def)

lemma exchange_io_left: "exchange_io P x (Left r) st = (Some r, st)"
  by (simp add: exchange_io_def)

lemma exchange_io_next:
  "ex_next (l_os P) (l_mnl P) s x p w = Some (p', w') \<Longrightarrow> exchange_io P x p' (s, w') = exchange_io P x p (s, w)"
  by (simp add: exchange_io_def remaining_next)

definition cache_family :: "u16 \<Rightarrow> unit io" where
  "cache_family familyId st = (Some (Inr ()), ((fst st)\<lparr>wgFamilyId := familyId\<rparr>, snd st))"

definition cached_family :: "u16 io" where
  "cached_family st = (Some (Inr (wgFamilyId (fst st))), st)"

definition write_seq :: "u32 \<Rightarrow> unit io" where
  "write_seq v st = (Some (Inr ()), ((fst st)\<lparr>nl_seq := v\<rparr>, snd st))"

definition found_family :: "'p libs \<Rightarrow> 's kernel_job \<Rightarrow> u16 \<Rightarrow> 's io" where
  "found_family P j familyId =
     (if familyId = 0 then io_res (Inl no_family)
      else io_bind (cache_family familyId) (\<lambda>_. io_bind cached_family (request_io P j)))"

definition build_io :: "'p libs \<Rightarrow> 's kernel_job \<Rightarrow> u16 \<Rightarrow> u32 \<Rightarrow> 's io" where
  "build_io P j familyId v =
     io_bind (write_seq v) (\<lambda>_. io_bind (io_res (kj_build j familyId v)) (\<lambda>m. exchange_io P (job_exchange j m) ToSend))"

definition resolve_io :: "'p libs \<Rightarrow> 's kernel_job \<Rightarrow> u32 \<Rightarrow> 's io" where
  "resolve_io P j v =
     io_bind (write_seq v) (\<lambda>_. io_bind (exchange_io P (family_exchange (l_mnl P) v) ToSend) (found_family P j))"

fun rest :: "'p libs \<Rightarrow> 's kernel_job \<Rightarrow> 's kworker \<Rightarrow> 's io" where
  "rest P j CheckCache st = kernel_io P j st"
| "rest P j ReadCache st = io_bind cached_family (request_io P j) st"
| "rest P j CountFamily st = resolve_io P j (nl_seq (fst st) + 1) st"
| "rest P j (StoreFamily v) st = resolve_io P j v st"
| "rest P j (FamilyExchange v p) st = io_bind (exchange_io P (family_exchange (l_mnl P) v) p) (found_family P j) st"
| "rest P j (WriteCache familyId) st = io_bind (cache_family familyId) (\<lambda>_. io_bind cached_family (request_io P j)) st"
| "rest P j (CountRequest familyId) st = request_io P j familyId st"
| "rest P j (StoreRequest familyId v) st = build_io P j familyId v st"
| "rest P j (RequestExchange m p) st = exchange_io P (job_exchange j m) p st"
| "rest P j (Finished r) st = (Some r, st)"

lemma io_bind_assoc: "io_bind (io_bind m f) g = io_bind m (\<lambda>x. io_bind (f x) g)"
  by (rule ext) (auto simp: io_bind_def split: prod.split option.split sum.split)

lemma io_bind_simps:
  "io_bind (io_res (Inl e)) f st = (Some (Inl e), st)" "io_bind (io_res (Inr x)) f st = f x st"
  "io_bind (write_seq v) g (s, w) = g () (s\<lparr>nl_seq := v\<rparr>, w)"
  "io_bind (cache_family i) g (s, w) = g () (s\<lparr>wgFamilyId := i\<rparr>, w)"
  "io_bind cached_family h (s, w) = h (wgFamilyId s) (s, w)"
  "io_bind io_seq k (s, w) = k (nl_seq s + 1) (s\<lparr>nl_seq := nl_seq s + 1\<rparr>, w)"
  by (simp_all add: io_bind_def io_res_def write_seq_def cache_family_def cached_family_def io_seq_def NextSeq_def)

lemma rest_check_cache:
  "kernel_io P j (s, w) =
   (if wgFamilyId s \<noteq> 0 then request_io P j (wgFamilyId s) (s, w) else resolve_io P j (nl_seq s + 1) (s, w))"
proof (cases "wgFamilyId s = 0")
  case True
  then show ?thesis
    by (auto simp: kernel_io_def io_bind_def io_family_def WireGuardFamilyId_def NextSeq_def resolve_io_def write_seq_def
        exchange_io_def family_exchange_def found_family_def cache_family_def cached_family_def io_res_def no_family_def
        split: prod.splits option.splits sum.splits)
qed (simp add: kernel_io_def io_bind_def io_family_def WireGuardFamilyId_cached)

lemma rest_step:
  assumes "worker_step P j t st = Some (t', st')"
  shows "rest P j t' st' = rest P j t st"
proof -
  obtain s w where st: "st = (s, w)" by force
  show ?thesis
  proof (cases t)
    case (FamilyExchange v p)
    then obtain p' w' where n: "ex_next (l_os P) (l_mnl P) s (family_exchange (l_mnl P) v) p w = Some (p', w')"
      and t': "t' = after_family v p'" "st' = (s, w')" using assms st by auto
    have "rest P j t' st' = io_bind (exchange_io P (family_exchange (l_mnl P) v) p') (found_family P j) (s, w')"
      unfolding t' by (cases "(v, p')" rule: after_family.cases)
        (auto simp: io_bind_def exchange_io_left found_family_def io_res_def)
    then show ?thesis using exchange_io_next [OF n] FamilyExchange st by (simp add: io_bind_def)
  next
    case (RequestExchange m p)
    then obtain p' w' where n: "ex_next (l_os P) (l_mnl P) s (job_exchange j m) p w = Some (p', w')"
      and t': "t' = after_request m p'" "st' = (s, w')" using assms st by auto
    have "rest P j t' st' = exchange_io P (job_exchange j m) p' (s, w')"
      unfolding t' by (cases p') (simp_all add: exchange_io_left)
    then show ?thesis using exchange_io_next [OF n] RequestExchange st by simp
  next
    case CheckCache
    then show ?thesis using assms st by (auto simp: rest_check_cache io_bind_simps)
  next
    case (StoreRequest f v)
    then show ?thesis using assms st
      by (auto simp: build_io_def io_bind_simps exchange_io_send split: sum.splits)
  qed (use assms st in \<open>auto simp: io_bind_simps resolve_io_def request_io_def build_io_def exchange_io_send\<close>)
qed

section \<open>A worker alone ends as the function says\<close>

text \<open>How far a worker is: its stage, and what it may still receive before it needs another reply.\<close>

fun phase_rank :: "'a phase \<Rightarrow> nat" where
  "phase_rank ToSend = 2" | "phase_rank (Waiting s) = 1" | "phase_rank (Left r) = 0"

fun rank :: "'s kworker \<Rightarrow> nat" where
  "rank CheckCache = 20"
| "rank CountFamily = 19"
| "rank (StoreFamily v) = 18"
| "rank (FamilyExchange v p) = 12 + phase_rank p"
| "rank (WriteCache i) = 11"
| "rank ReadCache = 10"
| "rank (CountRequest i) = 9"
| "rank (StoreRequest i v) = 8"
| "rank (RequestExchange m p) = 2 + phase_rank p"
| "rank (Finished r) = 0"

lemma ex_next_decreases:
  assumes "ex_next E M sk x p w = Some (p', w')"
  shows "phase_rank p' < phase_rank p \<or> phase_rank p' = phase_rank p \<and>
    length (inbox w' (sk_handle sk)) < length (inbox w (sk_handle sk))"
proof (cases p)
  case ToSend
  moreover have "phase_rank (on_send E x r) < 2" for r by (cases r) simp_all
  ultimately show ?thesis using assms by (auto split: prod.splits)
next
  case (Waiting s)
  then obtain ev where ev: "sk_recv (sk_handle sk) w = (Some ev, w')" "p' = on_recv E M (portid sk) x s ev"
    using assms by (auto split: prod.splits option.splits)
  have "phase_rank p' \<le> 1" unfolding ev(2) by (cases ev) (auto split: sum.split prod.split)
  moreover have "length (inbox w' (sk_handle sk)) < length (inbox w (sk_handle sk))"
    using ev(1) by (auto simp: sk_recv_def split: list.splits)
  ultimately show ?thesis using Waiting by auto
qed (use assms in simp)

text \<open>Every step of a worker brings this down; a new reply can only come with a new request.\<close>

definition progress :: "'s kworker \<times> io_state \<Rightarrow> nat \<times> nat" where
  "progress c = (case c of (t, s, w) \<Rightarrow> (rank t, length (inbox w (sk_handle s))))"

lemma worker_progress:
  assumes "worker_step P j t st = Some (t', st')"
  shows "(progress (t', st'), progress (t, st)) \<in> less_than <*lex*> less_than"
proof -
  obtain s w where st: "st = (s, w)" by force
  have fam: "rank (after_family v p) < 12 + phase_rank p \<or> rank (after_family v p) = 12 + phase_rank p" for v p
    by (cases "(v, p)" rule: after_family.cases) auto
  have req: "rank (after_request m p) \<le> 2 + phase_rank p" for m p
    by (cases p) auto
  show ?thesis
  proof (cases t)
    case (FamilyExchange v p)
    then obtain p' w' where n: "ex_next (l_os P) (l_mnl P) s (family_exchange (l_mnl P) v) p w = Some (p', w')"
      and t': "t' = after_family v p'" "st' = (s, w')" using assms st by auto
    show ?thesis using ex_next_decreases [OF n] fam [of v p'] t' st FamilyExchange by (auto simp: progress_def)
  next
    case (RequestExchange m p)
    then obtain p' w' where n: "ex_next (l_os P) (l_mnl P) s (job_exchange j m) p w = Some (p', w')"
      and t': "t' = after_request m p'" "st' = (s, w')" using assms st by auto
    show ?thesis using ex_next_decreases [OF n] req [of m p'] t' st RequestExchange by (auto simp: progress_def)
  qed (use assms st in \<open>auto simp: progress_def split: sum.splits\<close>)
qed

text \<open>A worker does not stay in an exchange it has left.\<close>

fun coherent :: "'s kworker \<Rightarrow> bool" where
  "coherent (FamilyExchange v (Left r)) \<longleftrightarrow> False"
| "coherent (RequestExchange m (Left r)) \<longleftrightarrow> False"
| "coherent t \<longleftrightarrow> True"

lemma coherent_after [simp]: "coherent (after_family v p)" "coherent (after_request m q)"
  by (cases "(v, p)" rule: after_family.cases; simp) (cases q; simp)

lemma worker_step_coherent: "worker_step P j t st = Some (t', st') \<Longrightarrow> coherent t'"
  by (cases "(P, j, t, st)" rule: worker_step.cases) (auto split: sum.splits)

lemma exchange_io_stuck:
  "ex_next (l_os P) (l_mnl P) s x p w = None \<Longrightarrow> (\<exists>r. p = Left r) \<or> fst (exchange_io P x p (s, w)) = None"
  by (cases p) (auto simp: exchange_io_def sk_recv_def split: prod.splits list.splits)

lemma worker_stuck:
  assumes "worker_step P j t st = None" and "coherent t"
  shows "(\<exists>r. t = Finished r) \<or> fst (rest P j t st) = None"
proof -
  obtain s w where st: "st = (s, w)" by force
  show ?thesis
  proof (cases t)
    case (FamilyExchange v p)
    then have "fst (exchange_io P (family_exchange (l_mnl P) v) p (s, w)) = None"
      using assms st exchange_io_stuck [of P s "family_exchange (l_mnl P) v" p w] by auto
    then show ?thesis using FamilyExchange st by (auto simp: io_bind_def split: prod.splits)
  next
    case (RequestExchange m p)
    then show ?thesis using assms st exchange_io_stuck [of P s "job_exchange j m" p w] by auto
  qed (use assms st in auto)
qed

lemma alone_step:
  "pool_step P [j] ([t], st) c \<longleftrightarrow> (\<exists>t' st'. c = ([t'], st') \<and> worker_step P j t st = Some (t', st'))"
  using pool_worker [of 0 "[t]" P "[j]" st] by (auto elim!: pool_stepE)

lemma alone_rest:
  "steps (pool_step P [j]) a c \<Longrightarrow> a = ([t], st) \<Longrightarrow> \<exists>t' st'. c = ([t'], st') \<and> rest P j t' st' = rest P j t st"
proof (induction rule: steps.induct)
  case (steps_snoc a b c)
  then obtain u su where u: "b = ([u], su)" "rest P j u su = rest P j t st" by blast
  with steps_snoc.hyps(2) show ?case using rest_step [of P j u su] by (auto simp: alone_step)
qed auto

lemma alone_ends:
  "rest P j t st = (Some r, st') \<Longrightarrow> coherent t \<Longrightarrow> steps (pool_step P [j]) ([t], st) ([Finished r], st')"
proof (induction "(t, st)" arbitrary: t st rule: wf_induct_rule [OF wf_inv_image [of "less_than <*lex*> less_than" progress]])
  case 2
  show ?case
  proof (cases "worker_step P j t st")
    case None
    from worker_stuck [OF None 2(3)] 2(2) show ?thesis by auto
  next
    case (Some c)
    obtain t1 st1 where c: "c = (t1, st1)" by (cases c) blast
    with Some have s: "worker_step P j t st = Some (t1, st1)" by simp
    have "steps (pool_step P [j]) ([t1], st1) ([Finished r], st')"
      using 2(1) [of t1 st1] worker_progress [OF s] rest_step [OF s] worker_step_coherent [OF s] 2(2) by simp
    moreover have "pool_step P [j] ([t], st) ([t1], st1)" using s by (simp add: alone_step)
    ultimately show ?thesis by (blast intro: steps_trans steps_single)
  qed
qed auto

lemma alone_iff:
  "steps (pool_step P [j]) ([CheckCache], st) ([Finished r], st') \<longleftrightarrow> kernel_io P j st = (Some r, st')"
  using alone_rest [of P j "([CheckCache], st)" "([Finished r], st')" CheckCache st] alone_ends [of P j CheckCache st r st']
  by auto

section \<open>A worker while JavaScript runs\<close>

text \<open>What happens on the JavaScript thread: calls and closes.\<close>

inductive js_step :: "'p libs \<Rightarrow> client \<Rightarrow> client \<Rightarrow> bool" for P where
  js_call: "js_step P c (client_call P m info c)"
| js_close: "js_step P c (client_close c)"

text \<open>A client one of whose workers is at \<open>t\<close>: that worker's next step, or one of JavaScript's.\<close>

inductive live_step :: "'p libs \<Rightarrow> 's kernel_job \<Rightarrow> client \<times> 's kworker \<Rightarrow> client \<times> 's kworker \<Rightarrow> bool" for P j where
  live_js: "js_step P c c' \<Longrightarrow> live_step P j (c, t) (c', t)"
| live_worker: "cl_shared c = Some s \<Longrightarrow> worker_step P j t (s, cl_world c) = Some (t', (s', w')) \<Longrightarrow>
     live_step P j (c, t) (c\<lparr>cl_shared := Some s', cl_world := w'\<rparr>, t')"

text \<open>The end of the \<open>i\<close>-th worker: it is gone, its promise is settled, its reference dropped.\<close>

definition worker_end :: "nat \<Rightarrow> js settlement \<Rightarrow> client \<Rightarrow> client" where
  "worker_end i outcome c =
     release (c\<lparr>cl_workers := take i (cl_workers c) @ drop (Suc i) (cl_workers c),
                cl_settled := cl_settled c @ [(fst (cl_workers c ! i), outcome)]\<rparr>)"

text \<open>While a worker refers to the socket, JavaScript changes neither the socket nor the system.\<close>

definition held :: "nat \<Rightarrow> nat \<times> task \<Rightarrow> client \<Rightarrow> bool" where
  "held i x c \<longleftrightarrow> i < length (cl_workers c) \<and> cl_workers c ! i = x \<and> captures_sock (snd x)"

lemma held_referenced: "held i x c \<Longrightarrow> referenced (c\<lparr>cl_holds := b\<rparr>)"
  by (auto simp: held_def referenced_def list_ex_iff dest!: nth_mem bspec [of "set (cl_workers c)" _ "cl_workers c ! i"]
      split: prod.splits)

lemma held_close: "held i x c \<Longrightarrow> client_close c = c\<lparr>cl_holds := False\<rparr>"
  using held_referenced [of i x c False] by (auto simp: client_close_def release_def split: option.split)

lemma js_step_held:
  assumes "js_step P c c'" and "held i x c"
  shows "held i x c' \<and> cl_shared c' = cl_shared c \<and> cl_world c' = cl_world c
    \<and> js_step P (c\<lparr>cl_shared := a, cl_world := w\<rparr>) (c'\<lparr>cl_shared := a, cl_world := w\<rparr>)"
  using assms(1)
proof (cases rule: js_step.cases)
  case (js_call m info)
  have "client_call P m info (c\<lparr>cl_shared := a, cl_world := w\<rparr>) = c'\<lparr>cl_shared := a, cl_world := w\<rparr>"
    using js_call by (simp add: client_call_def split: call_result.split)
  then have "js_step P (c\<lparr>cl_shared := a, cl_world := w\<rparr>) (c'\<lparr>cl_shared := a, cl_world := w\<rparr>)"
    using js_step.js_call [of P "c\<lparr>cl_shared := a, cl_world := w\<rparr>" m info] by simp
  then show ?thesis using js_call assms(2) by (auto simp: client_call_def held_def nth_append split: call_result.split)
next
  case js_close
  have "held i x (c\<lparr>cl_shared := a, cl_world := w\<rparr>)" using assms(2) by (simp add: held_def)
  from held_close [OF this] have "js_step P (c\<lparr>cl_shared := a, cl_world := w\<rparr>) (c\<lparr>cl_shared := a, cl_world := w, cl_holds := False\<rparr>)"
    using js_step.js_close [of P "c\<lparr>cl_shared := a, cl_world := w\<rparr>"] by simp
  moreover have "c\<lparr>cl_shared := a, cl_world := w, cl_holds := False\<rparr> = c\<lparr>cl_holds := False, cl_shared := a, cl_world := w\<rparr>"
    by (cases c) simp
  ultimately show ?thesis using js_close assms(2) by (simp add: held_close held_def)
qed

text \<open>The steps of JavaScript can all be made first.\<close>

lemma live_split:
  assumes "steps (live_step P j) a b" and "a = (c, t)" and "held i x c" and "cl_shared c = Some s"
  shows "\<exists>c1 s' w' u. steps (js_step P) c c1 \<and> held i x c1 \<and> cl_shared c1 = Some s \<and> cl_world c1 = cl_world c
    \<and> b = (c1\<lparr>cl_shared := Some s', cl_world := w'\<rparr>, u) \<and> rest P j u (s', w') = rest P j t (s, cl_world c)"
  using assms
proof (induction rule: steps.induct)
  case (steps_refl a)
  then show ?case by (intro exI [of _ c] exI [of _ s] exI [of _ "cl_world c"] exI [of _ t]) simp
next
  case (steps_snoc a b d)
  then obtain c1 s' w' u where IH: "steps (js_step P) c c1" "held i x c1" "cl_shared c1 = Some s" "cl_world c1 = cl_world c"
    "b = (c1\<lparr>cl_shared := Some s', cl_world := w'\<rparr>, u)" "rest P j u (s', w') = rest P j t (s, cl_world c)" by blast
  from steps_snoc.hyps(2) show ?case unfolding IH(5)
  proof (cases rule: live_step.cases)
    case (live_js c2)
    have "held i x (c1\<lparr>cl_shared := Some s', cl_world := w'\<rparr>)" using IH(2) by (simp add: held_def)
    note later = js_step_held [OF live_js(2) this, where a = "Some s" and w = "cl_world c"]
    have c1: "c1\<lparr>cl_shared := Some s, cl_world := cl_world c\<rparr> = c1" using IH(3,4) by (cases c1) simp
    have js: "js_step P c1 (c2\<lparr>cl_shared := Some s, cl_world := cl_world c\<rparr>)" "held i x c2"
      "cl_shared c2 = Some s'" "cl_world c2 = w'"
      using later by (simp_all add: c1)
    show ?thesis
    proof (intro exI conjI)
      show "steps (js_step P) c (c2\<lparr>cl_shared := Some s, cl_world := cl_world c\<rparr>)"
        using IH(1) js(1) by (rule steps.steps_snoc)
      show "held i x (c2\<lparr>cl_shared := Some s, cl_world := cl_world c\<rparr>)" using js(2) by (simp add: held_def)
      show "d = (c2\<lparr>cl_shared := Some s, cl_world := cl_world c\<rparr>\<lparr>cl_shared := Some s', cl_world := w'\<rparr>, u)"
        using live_js(1) js(3,4) by (simp add: client.equality)
      show "rest P j u (s', w') = rest P j t (s, cl_world c)" by (rule IH(6))
    qed simp_all
  next
    case (live_worker s2 t' s3 w3)
    then have "worker_step P j u (s', w') = Some (t', (s3, w3))" by simp
    from rest_step [OF this] IH live_worker(1) show ?thesis
      by (intro exI [of _ c1] exI [of _ s3] exI [of _ w3] exI [of _ t']) simp
  qed
qed

lemma PromiseWorker_map: "PromiseWorker (\<lambda>v. v) (map_sum id f r) = PromiseWorker f r"
proof (cases r)
  case (Inl e)
  then show ?thesis by (cases e) (simp_all add: PromiseWorker_def)
qed simp

lemma io_map_result: "m st = (Some r, st') \<Longrightarrow> io_map f m st = (Some (map_sum id f r), st')"
  by (cases r) (simp_all add: io_map_def io_bind_def io_res_def)

text \<open>The common part of the two cases: the worker's task runs \<open>kernel_io\<close>.\<close>

lemma live_atomic:
  assumes "steps (live_step P j) (c, CheckCache) (c', Finished r)" and "held i (ident, task) c" and "cl_shared c = Some s"
    and "run_task P task (s, cl_world c) = io_map f (kernel_io P j) (s, cl_world c)"
  shows "\<exists>c1. steps (js_step P) c c1 \<and>
    client_run P i c1 = map_option (\<lambda>v. worker_end i v c') (PromiseWorker f r)"
proof -
  from live_split [OF assms(1) refl assms(2,3)] obtain c1 s' w' where
    c1: "steps (js_step P) c c1" "held i (ident, task) c1" "cl_shared c1 = Some s" "cl_world c1 = cl_world c"
    and c': "c' = c1\<lparr>cl_shared := Some s', cl_world := w'\<rparr>" and k: "kernel_io P j (s, cl_world c) = (Some r, (s', w'))"
    by auto
  from io_map_result [of "kernel_io P j" "(s, cl_world c)" r "(s', w')" f, OF k] have "run_task P task (s, cl_world c1) = (Some (map_sum id f r), (s', w'))"
    using assms(4) c1(4) by simp
  then have "client_run P i c1 = map_option (\<lambda>v. worker_end i v c') (PromiseWorker f r)"
    using c1(2,3) by (cases c1) (auto simp: client_run_def held_def worker_end_def c' PromiseWorker_map split: option.split)
  with c1(1) show ?thesis by blast
qed

text \<open>Of a worker nobody disturbs, the steps alone are steps of the live client.\<close>

lemma live_of_alone:
  "steps (pool_step P [j]) a b \<Longrightarrow> a = ([t], (s, w)) \<Longrightarrow> cl_shared c = Some s \<Longrightarrow> cl_world c = w \<Longrightarrow>
   \<exists>u s' w'. b = ([u], (s', w')) \<and> steps (live_step P j) (c, t) (c\<lparr>cl_shared := Some s', cl_world := w'\<rparr>, u)"
proof (induction rule: steps.induct)
  case (steps_refl a)
  then have e: "c\<lparr>cl_shared := Some s, cl_world := w\<rparr> = c" by (cases c) simp
  show ?case
  proof (intro exI conjI)
    show "a = ([t], (s, w))" by (rule steps_refl(1))
    show "steps (live_step P j) (c, t) (c\<lparr>cl_shared := Some s, cl_world := w\<rparr>, t)" by (simp only: e steps.steps_refl)
  qed
next
  case (steps_snoc a b d)
  then obtain u s' w' where IH: "b = ([u], (s', w'))"
    "steps (live_step P j) (c, t) (c\<lparr>cl_shared := Some s', cl_world := w'\<rparr>, u)" by blast
  with steps_snoc.hyps(2) obtain u' s'' w'' where d: "d = ([u'], (s'', w''))" "worker_step P j u (s', w') = Some (u', (s'', w''))"
    by (auto simp: alone_step)
  have "live_step P j (c\<lparr>cl_shared := Some s', cl_world := w'\<rparr>, u) (c\<lparr>cl_shared := Some s'', cl_world := w''\<rparr>, u')"
    using live_worker [of "c\<lparr>cl_shared := Some s', cl_world := w'\<rparr>" s' P j u u' s'' w''] d(2) by simp
  with IH(2) d(1) show ?case by (blast intro: steps.steps_snoc)
qed

section \<open>Properties\<close>

text \<open>
  C15: run alone on the client's socket, one access to a shared variable or system call at a time, a
  worker that fetches or configures a kernel interface ends exactly as the function says: with
  the same result or exception, in the same state of the socket and the system, the cached
  family and the counter included; and the function returns nothing exactly when no run of the
  worker ends.
\<close>

theorem worker_alone:
  assumes "HasSocket (l_os P) name w = Inr False"
  shows "(steps (pool_step P [fetch_job P name]) ([CheckCache], (s, w)) ([Finished d], (s', w')) \<longleftrightarrow>
      FetchDevice P name (s, w) = (Some d, (s', w')))
    \<and> (steps (pool_step P [apply_job P name cfg]) ([CheckCache], (s, w)) ([Finished u], (s', w')) \<longleftrightarrow>
      ApplyConfig P name cfg (s, w) = (Some u, (s', w')))"
  by (simp only: alone_iff FetchDevice_io [OF assms] ApplyConfig_io [OF assms])

theorem worker_alone_witness:
  "\<exists>s' w'. steps (pool_step (example_libs zero_env) [apply_job (example_libs zero_env) ''wg0'' default_config])
      ([CheckCache], (example_socket, idle_world)) ([Finished (Inr ())], (s', w')) \<and> length (sent w') = 1"
  using zero_run worker_alone [OF zero_HasSocket] by blast

text \<open>
  C10: a worker that fetches or configures a kernel interface is one step as far as JavaScript can
  tell. Whatever methods are called and whenever the client is closed between its accesses and
  system calls, the outcome is that of the calls and closes first and then the whole worker in
  one step, as \<open>client_run\<close> has it: the same promise outcome, the same socket and system. A close
  in the middle takes nothing away from the worker; the socket goes when the worker has ended.
\<close>

theorem worker_is_atomic:
  assumes "cl_shared c = Some s" and "HasSocket (l_os P) name (cl_world c) = Inr False" and "i < length (cl_workers c)"
  shows "(cl_workers c ! i = (ident, TDevice name) \<and> steps (live_step P (fetch_job P name)) (c, CheckCache) (c', Finished d) \<longrightarrow>
      (\<exists>c1. steps (js_step P) c c1 \<and> client_run P i c1 = map_option (\<lambda>v. worker_end i v c') (PromiseWorker DeviceToJs d)))
    \<and> (cl_workers c ! i = (ident, TConfigure name cfg) \<and> steps (live_step P (apply_job P name cfg)) (c, CheckCache) (c', Finished u) \<longrightarrow>
      (\<exists>c1. steps (js_step P) c c1 \<and> client_run P i c1 = map_option (\<lambda>v. worker_end i v c') (PromiseWorker js_unit u)))"
proof (intro conjI impI; elim conjE)
  assume x: "cl_workers c ! i = (ident, TDevice name)" and run: "steps (live_step P (fetch_job P name)) (c, CheckCache) (c', Finished d)"
  have "held i (ident, TDevice name) c" using x assms(3) by (simp add: held_def)
  from live_atomic [OF run this assms(1), of DeviceToJs]
  show "\<exists>c1. steps (js_step P) c c1 \<and> client_run P i c1 = map_option (\<lambda>v. worker_end i v c') (PromiseWorker DeviceToJs d)"
    by (simp add: io_map_def io_bind_def FetchDevice_io [OF assms(2)])
next
  assume x: "cl_workers c ! i = (ident, TConfigure name cfg)"
    and run: "steps (live_step P (apply_job P name cfg)) (c, CheckCache) (c', Finished u)"
  have "held i (ident, TConfigure name cfg) c" using x assms(3) by (simp add: held_def)
  from live_atomic [OF run this assms(1), of js_unit]
  show "\<exists>c1. steps (js_step P) c c1 \<and> client_run P i c1 = map_option (\<lambda>v. worker_end i v c') (PromiseWorker js_unit u)"
    by (simp add: io_map_def io_bind_def ApplyConfig_io [OF assms(2)])
qed

text \<open>The client is closed before its worker takes its first step.\<close>

definition busy_client :: client where
  "busy_client = \<lparr>cl_holds = True, cl_shared = Some example_socket, cl_workers = [(0, TConfigure ''wg0'' default_config)],
     cl_settled = [], cl_next = 1, cl_world = idle_world\<rparr>"

theorem worker_is_atomic_witness:
  "\<exists>c' c1. steps (live_step (example_libs zero_env) (apply_job (example_libs zero_env) ''wg0'' default_config))
      (busy_client, CheckCache) (c', Finished (Inr ())) \<and> \<not> cl_holds c'
    \<and> client_run (example_libs zero_env) 0 c1 = Some (worker_end 0 (Resolved JUndefined) c')"
proof -
  let ?P = "example_libs zero_env" and ?c = "client_close busy_client"
  let ?step = "live_step ?P (apply_job ?P ''wg0'' default_config)"
  have close: "?c = busy_client\<lparr>cl_holds := False\<rparr>"
    by (rule held_close [of 0 "(0, TConfigure ''wg0'' default_config)"]) (simp add: held_def busy_client_def)
  obtain s' w' where "steps (pool_step ?P [apply_job ?P ''wg0'' default_config])
      ([CheckCache], (example_socket, idle_world)) ([Finished (Inr ())], (s', w'))"
    using zero_run alone_iff ApplyConfig_io [OF zero_HasSocket] by metis
  from live_of_alone [OF this refl, of ?c] close obtain c' where
    c': "steps ?step (?c, CheckCache) (c', Finished (Inr ()))" "\<not> cl_holds c'"
    by (auto simp: busy_client_def)
  have "?step (busy_client, CheckCache) (?c, CheckCache)" by (intro live_js js_close)
  with c'(1) have run: "steps ?step (busy_client, CheckCache) (c', Finished (Inr ()))"
    by (blast intro: steps_trans steps_single)
  have "cl_workers busy_client ! 0 = (0, TConfigure ''wg0'' default_config)" "cl_shared busy_client = Some example_socket"
    "HasSocket (l_os ?P) ''wg0'' (cl_world busy_client) = Inr False" "0 < length (cl_workers busy_client)"
    using zero_HasSocket by (simp_all add: busy_client_def)
  with worker_is_atomic [of busy_client example_socket ?P "''wg0''" 0 0 c' undefined default_config "Inr ()"] run
  obtain c1 where "client_run ?P 0 c1 = Some (worker_end 0 (Resolved JUndefined) c')"
    by (auto simp: js_unit_def)
  with run c'(2) show ?thesis by blast
qed

end
