(* ===== verification/FamilyRace.thy ===== *)
theory FamilyRace imports Worker begin

text \<open>
  What the race on the counter of sequence numbers can do to the cache of the family id, when
  workers of one client overlap because they were not queued by the wrapper.
\<close>

section \<open>Schedules\<close>

text \<open>A schedule says which worker of a pool moves next; running it is a function.\<close>

fun pool_run :: "'p libs \<Rightarrow> 's kernel_job list \<Rightarrow> nat list \<Rightarrow> 's kworker list \<times> io_state \<Rightarrow> ('s kworker list \<times> io_state) option" where
  "pool_run P js [] c = Some c"
| "pool_run P js (i # is) (ts, st) =
     (if i < length ts then
        (case worker_step P (js ! i) (ts ! i) st of
           None \<Rightarrow> None
         | Some (t, st') \<Rightarrow> pool_run P js is (ts[i := t], st'))
      else None)"

lemma pool_run_steps: "pool_run P js is c = Some c' \<Longrightarrow> steps (pool_step P js) c c'"
proof (induction P js "is" c rule: pool_run.induct)
  case (2 P js i "is" ts st)
  then obtain t st' where t: "i < length ts" "worker_step P (js ! i) (ts ! i) st = Some (t, st')"
    "pool_run P js is (ts[i := t], st') = Some c'" by (auto split: if_splits option.splits)
  from t(1,2) have "pool_step P js (ts, st) (ts[i := t], st')" by (rule pool_worker)
  with 2(1) [OF t(1,2) refl t(3)] show ?case by (blast intro: steps_trans steps_single)
qed simp

text \<open>A worker of a pool that resolves the family without being disturbed.\<close>

lemma resolve_run:
  assumes "ex_run (l_os P) (l_mnl P) s [family_exchange (l_mnl P) v] c c'" and "c = ([p], w)" and "c' = ([Left r], w')"
    and "\<forall>r. p \<noteq> Left r" and "i < length ts" and "ts ! i = FamilyExchange v p"
  shows "steps (pool_step P js) (ts, (s, w)) (ts[i := after_family v (Left r)], (s, w'))"
  using assms
proof (induction arbitrary: p w ts rule: ex_run.induct)
  case (run_refl c)
  then show ?case by auto
next
  case (run_step c c1 c2)
  obtain q u where c1: "c1 = ([q], u)" using run_step.hyps(1) run_step.prems(1) by (auto elim!: ex_stepE)
  then have n: "ex_next (l_os P) (l_mnl P) s (family_exchange (l_mnl P) v) p w = Some (q, u)"
    using run_step.hyps(1) run_step.prems(1) by (simp add: ex_next_step)
  have step: "pool_step P js (ts, (s, w)) (ts[i := after_family v q], (s, u))"
    using n run_step.prems(4,5) by (intro pool_worker) simp_all
  show ?case
  proof (cases "\<exists>r. q = Left r")
    case True
    with run_step.hyps(2) c1 run_step.prems(2) have "q = Left r \<and> u = w'"
      using ex_run_alone [OF run_step.hyps(2) c1] by auto
    with step show ?thesis by (simp add: steps_single)
  next
    case False
    then have next_phase: "after_family v q = FamilyExchange v q" by (cases q) auto
    have "steps (pool_step P js) (ts[i := FamilyExchange v q], (s, u)) (ts[i := after_family v (Left r)], (s, w'))"
      using run_step.IH [OF c1 run_step.prems(2), of "ts[i := FamilyExchange v q]"] run_step.prems(4) False by simp
    with step show ?thesis unfolding next_phase by (blast intro: steps_trans steps_single)
  qed
qed

section \<open>The wrong reply as a family id\<close>

text \<open>
  The handler of the family request looks at attributes of type 1 only, \<open>CTRL_ATTR_FAMILY_ID\<close>, and
  at the first two bytes of each. In a device dump the type 1 is \<open>WGDEVICE_A_IFINDEX\<close>, four bytes.
\<close>

lemma le_word_low: "le_word (take 2 (le_bytes 4 (ix :: u32))) = (ucast ix :: u16)"
proof (rule bit_word_eqI)
  fix i assume "i < LENGTH(16)"
  then have "i div 8 < 2" by simp
  moreover have "8 * (i div 8) + i mod 8 = i" by simp
  ultimately show "bit (le_word (take 2 (le_bytes 4 ix)) :: u16) i = bit (ucast ix :: u16) i"
    using \<open>i < LENGTH(16)\<close> by (simp add: bit_le_word le_bytes_def bit_simps)
qed

lemma FamilyIdAttrCallback_filter:
  "rfold FamilyIdAttrCallback out as = rfold FamilyIdAttrCallback out (filter (\<lambda>a. nla_type a = CTRL_ATTR_FAMILY_ID) as)"
  by (induction as arbitrary: out) (auto simp: FamilyIdAttrCallback_def intro!: rbind_cong)

definition shows_index :: "mnl_lib \<Rightarrow> nlreply \<Rightarrow> u32 \<Rightarrow> bool" where
  "shows_index M r ix \<longleftrightarrow> filter (\<lambda>a. nla_type a = WGDEVICE_A_IFINDEX) (parse_attrs M (drop 4 (rp_payload r))) =
     [\<lparr>nla_type = WGDEVICE_A_IFINDEX, nla_payload = le_bytes 4 ix\<rparr>]"

lemma family_from_index: "shows_index M r ix \<Longrightarrow> family_handler M f r = Inr (True, ucast ix)"
  using FamilyIdAttrCallback_filter [of f "parse_attrs M (drop 4 (rp_payload r))"]
  by (simp add: shows_index_def family_handler_def FamilyIdMsgCallback_def FamilyIdAttrCallback_def attr_u16_def
      attr_uint_def peek_def le_word_low CTRL_ATTR_FAMILY_ID_def WGDEVICE_A_IFINDEX_def)

text \<open>The family's worker receives the dump: its exchange ends with the index.\<close>

lemma dump_read_as_family:
  assumes "\<forall>d \<in> set ds. \<forall>r \<in> set (next_msgs M d). \<not> ours sq pid r"
    and "next_msgs M d = part # fin # rs" and "ours sq pid part" and "dump_part part" and "shows_index M part ix"
    and "ours sq pid fin" and "rp_type fin = NLMSG_DONE"
  shows "recv_loop E M sq pid (family_handler M) 0 (map Datagram ds @ Datagram d # evs) = (Some (Inr (ucast ix)), evs)"
proof -
  have "walk_msgs E sq pid (family_handler M) 0 (next_msgs M d) = Inr (True, ucast ix)"
    using assms(2-7) family_from_index by (simp add: ours_def dump_part_def NLMSG_DONE_def NLMSG_ERROR_def)
  then show ?thesis by (simp add: recv_loop_foreign [OF assms(1)])
qed

section \<open>Properties\<close>

lemma raced_counter_run:
  assumes "wgFamilyId s = 0" and "nl_seq s = n" and "valid_ifname b"
    and "SendAndReceive (l_os P) (l_mnl P) (s\<lparr>nl_seq := n + 1\<rparr>) (family_request (n + 1)) (family_handler (l_mnl P)) 0 w =
      (Some (Inr fam), w1)" and "fam \<noteq> 0"
    and "sk_send (l_os P) (sk_handle s) (ex_msg (get_exchange P fam b (n + 2))) w1 = (None, w2)"
    and "sk_send (l_os P) (sk_handle s) (family_request (n + 2)) w2 = (None, w3)"
    and "recv_loop (l_os P) (l_mnl P) (n + 2) (portid s) (family_handler (l_mnl P)) 0 (inbox w3 (sk_handle s)) =
      (Some (Inr i), q)" and "i \<noteq> 0"
  shows "\<exists>w'. steps (pool_step P [fetch_job P a, fetch_job P b]) ([CheckCache, CheckCache], (s, w))
      ([CountRequest i, RequestExchange (ex_msg (get_exchange P fam b (n + 2))) (Waiting (default_device\<lparr>dev_name := b\<rparr>))],
       (s\<lparr>nl_seq := n + 2, wgFamilyId := i\<rparr>, w'))"
proof -
  obtain k where k: "n + 2 = k" by blast
  then have k_simps: "n + 1 + 1 = k" "2 + n = k" by (simp_all add: add.commute)
  note assms = assms [unfolded k]
  let ?js = "[fetch_job P a, fetch_job P b]" and ?m = "ex_msg (get_exchange P fam b k)"
  let ?F = "family_exchange (l_mnl P)" and ?s1 = "s\<lparr>nl_seq := n + 1\<rparr>" and ?s2 = "s\<lparr>nl_seq := k, wgFamilyId := fam\<rparr>"
  let ?wait = "RequestExchange ?m (Waiting (default_device\<lparr>dev_name := b\<rparr>))"
  let ?steps = "steps (pool_step P ?js)"
  have m: "kj_build (fetch_job P b) fam k = Inr ?m"
    using iffD2 [OF ValidateIfName_iff assms(3)] by (simp add: fetch_job_def get_exchange_def BuildGetDeviceMessage_def)
  have "pool_run P ?js [0, 1, 1, 1] ([CheckCache, CheckCache], (s, w)) =
      Some ([CountFamily, FamilyExchange (n + 1) ToSend], (?s1, w))"
    using assms(1,2) by simp
  then have 1: "?steps ([CheckCache, CheckCache], (s, w)) ([CountFamily, FamilyExchange (n + 1) ToSend], (?s1, w))"
    by (rule pool_run_steps)
  have seq: "nlmsg_seq (family_request v) = v" for v by (simp add: family_request_def)
  have "ex_run (l_os P) (l_mnl P) ?s1 [?F (n + 1)] ([ToSend], w) ([Left (Inr fam)], w1)"
    using assms(4) by (simp add: exchange_alone family_exchange_def)
  from resolve_run [OF this refl refl, where i = 1 and ts = "[CountFamily, FamilyExchange (n + 1) ToSend]"] assms(5)
  have 2: "?steps ([CountFamily, FamilyExchange (n + 1) ToSend], (?s1, w)) ([CountFamily, WriteCache fam], (?s1, w1))" by simp
  have "pool_run P ?js [1, 1, 0, 1, 0, 1, 1, 0] ([CountFamily, WriteCache fam], (?s1, w1)) =
      Some ([FamilyExchange k (Waiting 0), ?wait], (?s2, w3))"
    using assms(6,7) m k k_simps by (simp add: family_exchange_def job_exchange_def fetch_job_def)
  then have 3: "?steps ([CountFamily, WriteCache fam], (?s1, w1)) ([FamilyExchange k (Waiting 0), ?wait], (?s2, w3))"
    by (rule pool_run_steps)
  have "ex_run (l_os P) (l_mnl P) ?s2 [?F k] ([Waiting 0], w3)
      ([Waiting 0][0 := Left (Inr i)], w3\<lparr>inbox := (inbox w3)(sk_handle ?s2 := q)\<rparr>)"
    by (rule recv_loop_run) (use assms(8) seq in \<open>simp_all add: family_exchange_def\<close>)
  then have "ex_run (l_os P) (l_mnl P) ?s2 [?F k] ([Waiting 0], w3) ([Left (Inr i)], w3\<lparr>inbox := (inbox w3)(sk_handle ?s2 := q)\<rparr>)"
    by simp
  from resolve_run [OF this refl refl, where i = 0 and ts = "[FamilyExchange k (Waiting 0), ?wait]"] assms(9)
  obtain w' where 4: "?steps ([FamilyExchange k (Waiting 0), ?wait], (?s2, w3)) ([WriteCache i, ?wait], (?s2, w'))"
    by auto
  have "pool_run P ?js [0, 0] ([WriteCache i, ?wait], (?s2, w')) =
      Some ([CountRequest i, ?wait], (s\<lparr>nl_seq := k, wgFamilyId := i\<rparr>, w'))" by simp
  then have 5: "?steps ([WriteCache i, ?wait], (?s2, w')) ([CountRequest i, ?wait], (s\<lparr>nl_seq := k, wgFamilyId := i\<rparr>, w'))"
    by (rule pool_run_steps)
  from steps_trans [OF 1 2] steps_trans [OF 3 4] 5 show ?thesis unfolding k by (blast intro: steps_trans)
qed

text \<open>
  C19: the race on the counter can spoil the client for good. A worker that fetches \<open>a\<close> finds no
  cached family; one that fetches \<open>b\<close> resolves it, as \<open>fam\<close>; then both load the counter before
  either stores, so that the first resolves the family under the number \<open>n + 2\<close> of the second's
  request. Suppose nothing unread on the socket carries that number, and the kernel answers the
  second's request with a datagram that holds a part of its dump, in which the one attribute of type
  1 is the interface's index \<open>ix\<close>, and its end. Then some interleaving of the two workers ends with
  the low 16 bits of that index cached as the family id, if they are neither zero nor \<open>fam\<close>: the
  first worker takes the index, an attribute of the same type, for the id. From then on every
  lookup of the family, with which each kernel request of the client begins, yields that number
  and asks the kernel no more.
\<close>

theorem raced_counter_spoils_family:
  assumes "wgFamilyId s = 0" and "nl_seq s = n" and "valid_ifname b"
    and "SendAndReceive (l_os P) (l_mnl P) (s\<lparr>nl_seq := n + 1\<rparr>) (family_request (n + 1)) (family_handler (l_mnl P)) 0 w =
      (Some (Inr fam), w1)" and "fam \<noteq> 0"
    and "inbox w1 (sk_handle s) = map Datagram ds"
    and "\<forall>d \<in> set ds. \<forall>r \<in> set (next_msgs (l_mnl P) d). \<not> ours (n + 2) (portid s) r"
    and "kernel (l_os P) w1 (sk_handle s) (ex_msg (get_exchange P fam b (n + 2))) = Inr (Datagram d # evs)"
    and "next_msgs (l_mnl P) d = part # fin # rs" and "ours (n + 2) (portid s) part" and "dump_part part"
    and "shows_index (l_mnl P) part ix" and "ours (n + 2) (portid s) fin" and "rp_type fin = NLMSG_DONE"
    and "\<forall>w2. \<exists>evs'. kernel (l_os P) w2 (sk_handle s) (family_request (n + 2)) = Inr evs'"
    and "(ucast ix :: u16) \<notin> {0, fam}"
  shows "(\<exists>w'. steps (pool_step P [fetch_job P a, fetch_job P b]) ([CheckCache, CheckCache], (s, w))
      ([CountRequest (ucast ix),
        RequestExchange (ex_msg (get_exchange P fam b (n + 2))) (Waiting (default_device\<lparr>dev_name := b\<rparr>))],
       (s\<lparr>nl_seq := n + 2, wgFamilyId := ucast ix\<rparr>, w')))
    \<and> (\<forall>sq w''. WireGuardFamilyId (l_os P) (l_mnl P) (s\<lparr>nl_seq := sq, wgFamilyId := ucast ix\<rparr>) w'' =
         (Some (Inr (ucast ix)), s\<lparr>nl_seq := sq, wgFamilyId := ucast ix\<rparr>, w''))"
proof -
  let ?h = "sk_handle s" and ?get = "ex_msg (get_exchange P fam b (n + 2))" and ?i = "ucast ix :: u16"
  obtain w2 where w2: "sk_send (l_os P) ?h ?get w1 = (None, w2)" "inbox w2 ?h = map Datagram ds @ Datagram d # evs"
    using assms(6,8) by (simp add: sk_send_def)
  obtain evs' where evs': "kernel (l_os P) w2 ?h (family_request (n + 2)) = Inr evs'" using assms(15) by blast
  obtain w3 where w3: "sk_send (l_os P) ?h (family_request (n + 2)) w2 = (None, w3)"
    "inbox w3 ?h = map Datagram ds @ Datagram d # evs @ evs'"
    using evs' w2(2) by (simp add: sk_send_def)
  have "recv_loop (l_os P) (l_mnl P) (n + 2) (portid s) (family_handler (l_mnl P)) 0 (inbox w3 ?h) = (Some (Inr ?i), evs @ evs')"
    unfolding w3(2) by (rule dump_read_as_family [OF assms(7,9-14)])
  from raced_counter_run [OF assms(1-5) w2(1) w3(1) this] assms(16) show ?thesis by (simp add: WireGuardFamilyId_def)
qed

text \<open>In the kernel of \<open>index_libs\<close> the family has id 27 and the interface index 7.\<close>

theorem raced_counter_spoils_family_witness:
  "\<exists>ts s' w'. steps (pool_step index_libs [fetch_job index_libs ''wg0'', fetch_job index_libs ''wg1''])
      ([CheckCache, CheckCache], (example_socket\<lparr>wgFamilyId := 0\<rparr>, idle_world)) (ts, (s', w')) \<and> wgFamilyId s' = 7"
proof -
  let ?P = index_libs and ?s = "example_socket\<lparr>wgFamilyId := 0\<rparr>"
  let ?M = "l_mnl ?P" and ?get = "ex_msg (get_exchange ?P 27 ''wg1'' 2)"
  have v: "valid_ifname ''wg1''" by (simp add: valid_ifname_def code_def)
  have get: "nlmsg_seq ?get = 2" "nlmsg_type ?get \<noteq> GENL_ID_CTRL"
    by (simp_all add: get_exchange_msg [OF v] GENL_ID_CTRL_def)
  obtain w1 where w1: "SendAndReceive (l_os ?P) ?M (?s\<lparr>nl_seq := 1\<rparr>) (family_request 1) (family_handler ?M) 0 idle_world =
      (Some (Inr 27), w1)" "inbox w1 3 = []"
    using index_family [of idle_world "?s\<lparr>nl_seq := 1\<rparr>" 1] by (auto simp: idle_world_def example_socket_def)
  have ix: "shows_index ?M (index_part ?get 27) 7"
    using get by (simp add: shows_index_def index_part_simps index_parse)
      (simp add: index_attrs_def wgdevice_attr_defs)
  have "(\<exists>w'. steps (pool_step ?P [fetch_job ?P ''wg0'', fetch_job ?P ''wg1'']) ([CheckCache, CheckCache], (?s, idle_world))
      ([CountRequest (ucast (7 :: u32)),
        RequestExchange (ex_msg (get_exchange ?P 27 ''wg1'' (0 + 2))) (Waiting (default_device\<lparr>dev_name := ''wg1''\<rparr>))],
       (?s\<lparr>nl_seq := 0 + 2, wgFamilyId := ucast (7 :: u32)\<rparr>, w')))
    \<and> (\<forall>sq w''. WireGuardFamilyId (l_os ?P) ?M (?s\<lparr>nl_seq := sq, wgFamilyId := ucast (7 :: u32)\<rparr>) w'' =
         (Some (Inr (ucast (7 :: u32))), ?s\<lparr>nl_seq := sq, wgFamilyId := ucast (7 :: u32)\<rparr>, w''))"
    by (rule raced_counter_spoils_family [where n = 0 and ds = "[]" and d = "index_reply ?get" and fin = "index_part ?get NLMSG_DONE" and rs = "[]"
          and evs = "[]" and b = "''wg1''", OF _ _ v _ _ _ _ _ _ _ _ ix])
      (use w1 get in \<open>simp_all add: example_socket_def index_kernel index_msgs index_part_simps\<close>)
  then obtain w' where "steps (pool_step ?P [fetch_job ?P ''wg0'', fetch_job ?P ''wg1'']) ([CheckCache, CheckCache], (?s, idle_world))
      ([CountRequest (ucast (7 :: u32)),
        RequestExchange (ex_msg (get_exchange ?P 27 ''wg1'' (0 + 2))) (Waiting (default_device\<lparr>dev_name := ''wg1''\<rparr>))],
       (?s\<lparr>nl_seq := 0 + 2, wgFamilyId := ucast (7 :: u32)\<rparr>, w'))" by blast
  then show ?thesis by - (intro exI, rule conjI, assumption, simp)
qed

end
