(* ===== verification/NlEcho.thy ===== *)
theory NlEcho imports NlBuild NlParse begin

text \<open>
  Writing against reading: the attributes \<open>BuildSetDeviceMessage\<close> sends for a peer, laid out as
  bytes, are read back by the reply parser as that peer. The addresses must be in the form
  \<open>inet_ntop\<close> prints, and every attribute must fit its 16-bit length.
\<close>

definition canonical_ip :: "inet_lib \<Rightarrow> allowed_ip \<Rightarrow> bool" where
  "canonical_ip L a \<longleftrightarrow>
     (\<exists>b. family a = of_nat AF_INET \<and> length b = 4 \<and> ip a = ntop4 L b) \<or>
     (\<exists>b. family a = of_nat AF_INET6 \<and> length b = 16 \<and> ip a = ntop6 L b)"

definition canonical_endpoint :: "inet_lib \<Rightarrow> string \<Rightarrow> bool" where
  "canonical_endpoint L e \<longleftrightarrow>
     (\<exists>b (port :: u16). length b = 4 \<and> e = ntop4 L b @ '':'' @ to_string (unat port)) \<or>
     (\<exists>b (port :: u16). length b = 16 \<and> e = ''['' @ ntop6 L b @ '']:'' @ to_string (unat port))"

definition echo_peer :: "peer_config \<Rightarrow> peer" where
  "echo_peer p = default_peer\<lparr>publicKey := pc_publicKey p, presharedKey := pc_presharedKey p,
     endpoint := pc_endpoint p,
     persistentKeepaliveInterval := (case pc_persistentKeepaliveInterval p of Some v \<Rightarrow> v | None \<Rightarrow> 0),
     allowedIPs := pc_allowedIPs p\<rparr>"

lemma attr_reads:
  "attr_u8 \<lparr>nla_type = t, nla_payload = [v]\<rparr> = Inr v"
  "attr_u16 \<lparr>nla_type = t, nla_payload = le_bytes 2 w\<rparr> = Inr w"
  "attr_u32 \<lparr>nla_type = t, nla_payload = le_bytes 4 x\<rparr> = Inr x"
  "is_key k \<Longrightarrow> attr_key \<lparr>nla_type = t, nla_payload = k\<rparr> = Inr k"
  by (simp_all add: attr_u8_def attr_u16_def attr_u32_def attr_uint_def attr_key_def peek_def le_word_le_bytes
      is_key_def)

lemma af_families: "(of_nat AF_INET :: u8) = 2" "(of_nat AF_INET6 :: u8) = 10"
  by (simp_all add: AF_INET_def AF_INET6_def)

lemma parse_allowed_ip_echo:
  assumes "inet_ok L" and "mnl_parse_ok M" and "list_all attr_fits (allowed_ip_attrs L a)" and "canonical_ip L a"
  shows "ParseAllowedIPEntry L M junk acc \<lparr>nla_type = t, nla_payload = enc_attrs (allowed_ip_attrs L a)\<rparr> =
    Inr (acc @ [a])"
proof -
  have "parse_attrs M (enc_attrs (allowed_ip_attrs L a)) = map nlattr_of (allowed_ip_attrs L a)"
    using assms(2,3) by (simp add: mnl_parse_ok_def)
  moreover have "rfold (ParseAllowedIPAttr L) (fresh_allowed_ip (junk acc)) (map nlattr_of (allowed_ip_attrs L a)) = Inr a"
    using assms(4) unfolding canonical_ip_def
  proof (elim disjE exE conjE)
    fix b assume "family a = of_nat AF_INET" "length b = 4" "ip a = ntop4 L b"
    moreover from this have "pton4 L (c_str (ip a)) = Some b"
      using inet_ok_ntop4 [OF assms(1)] ntop_host(1) [OF assms(1)] by simp
    ultimately show ?thesis
      by (cases a) (simp add: allowed_ip_attrs_def ParseAllowedIPAttr_def attr_reads addr_bytes_def peek_def
          fresh_allowed_ip_def wgallowedip_attr_defs af_families)
  next
    fix b assume "family a = of_nat AF_INET6" "length b = 16" "ip a = ntop6 L b"
    moreover from this have "pton6 L (c_str (ip a)) = Some b"
      using inet_ok_ntop6 [OF assms(1)] ntop_host(3) [OF assms(1), of b] by simp
    ultimately show ?thesis
      by (cases a) (simp add: allowed_ip_attrs_def ParseAllowedIPAttr_def attr_reads addr_bytes_def peek_def
          fresh_allowed_ip_def wgallowedip_attr_defs af_families)
  qed
  ultimately show ?thesis by (simp add: ParseAllowedIPEntry_def)
qed

lemma parse_allowed_ips_echo:
  assumes "inet_ok L" and "mnl_parse_ok M" and "list_all (canonical_ip L) ips"
    and "list_all attr_fits (map (\<lambda>(i, a). Nest (of_nat i) (allowed_ip_attrs L a)) (enumerate n ips))"
  shows "rfold (ParseAllowedIPEntry L M junk) acc
      (map nlattr_of (map (\<lambda>(i, a). Nest (of_nat i) (allowed_ip_attrs L a)) (enumerate n ips))) = Inr (acc @ ips)"
  using assms(3,4)
proof (induction ips arbitrary: n acc)
  case (Cons a ips)
  then show ?case by (simp add: parse_allowed_ip_echo [OF assms(1,2)])
qed simp

lemma family_bytes_differ: "le_bytes 2 (of_nat AF_INET :: u16) \<noteq> le_bytes 2 (of_nat AF_INET6 :: u16)"
proof
  assume "le_bytes 2 (of_nat AF_INET :: u16) = le_bytes 2 (of_nat AF_INET6 :: u16)"
  then have "(le_word (le_bytes 2 (of_nat AF_INET :: u16)) :: u16) = le_word (le_bytes 2 (of_nat AF_INET6 :: u16))"
    by simp
  then show False by (simp add: le_word_le_bytes AF_INET_def AF_INET6_def)
qed

lemma endpoint_echo:
  assumes "inet_ok L" and "canonical_endpoint L e"
  shows "FormatEndpoint L (endpoint_payload (projr (ParseEndpoint L e))) = Inr e"
  using assms(2) unfolding canonical_endpoint_def
proof (elim disjE exE conjE)
  fix b and port :: u16 assume b: "length b = 4" and e: "e = ntop4 L b @ '':'' @ to_string (unat port)"
  have "endpoint_payload (storage (sockaddr_in port b)) = sockaddr_in port b"
    using b family_bytes_differ by (simp add: endpoint_payload_def storage_def sockaddr_in_def)
  then show ?thesis using ParseEndpoint_printed_in [OF assms(1) b, of port] FormatEndpoint_in [OF b, of L port]
    by (simp add: e)
next
  fix b and port :: u16 assume b: "length b = 16" and e: "e = ''['' @ ntop6 L b @ '']:'' @ to_string (unat port)"
  have "endpoint_payload (storage (sockaddr_in6 port b)) = sockaddr_in6 port b"
    using b by (simp add: endpoint_payload_def storage_def sockaddr_in6_def)
  then show ?thesis using ParseEndpoint_printed_in6 [OF assms(1) b, of port] FormatEndpoint_in6 [OF b, of L port]
    by (simp add: e)
qed

lemma rfold_opt_attr:
  assumes "\<And>v. x = Some v \<Longrightarrow> f s (nlattr_of (g v)) = Inr (h v)" and "x = None \<Longrightarrow> s = s'"
    and "\<And>v. x = Some v \<Longrightarrow> h v = s'"
  shows "rfold f s (map nlattr_of (opt_attr x g)) = Inr s'"
  using assms by (cases x) (simp_all add: opt_attr_def)

lemma parse_peer_echo:
  assumes ok: "inet_ok L" "mnl_parse_ok M" and wf: "wf_peer_config p"
    and fits: "list_all attr_fits (peer_attrs L p)"
    and canon: "pred_option (canonical_endpoint L) (pc_endpoint p)" "list_all (canonical_ip L) (pc_allowedIPs p)"
  shows "parse_peer L M junk \<lparr>nla_type = t, nla_payload = enc_attrs (peer_attrs L p)\<rparr> = Inr (echo_peer p)"
proof -
  let ?f = "ParsePeerAttr L M junk"
  have parse: "parse_attrs M (enc_attrs (peer_attrs L p)) = map nlattr_of (peer_attrs L p)"
    using ok(2) fits by (simp add: mnl_parse_ok_def)
  have keys: "is_key (pc_publicKey p)" "\<And>k. pc_presharedKey p = Some k \<Longrightarrow> is_key k"
    using wf by (auto simp: wf_peer_config_def)
  define s1 where "s1 = default_peer\<lparr>publicKey := pc_publicKey p\<rparr>"
  define s2 where "s2 = s1\<lparr>presharedKey := pc_presharedKey p\<rparr>"
  define s3 where "s3 = s2\<lparr>endpoint := pc_endpoint p\<rparr>"
  define s4 where "s4 = s3\<lparr>persistentKeepaliveInterval :=
    (case pc_persistentKeepaliveInterval p of Some v \<Rightarrow> v | None \<Rightarrow> 0)\<rparr>"
  have 1: "?f default_peer (nlattr_of (Leaf WGPEER_A_PUBLIC_KEY (pc_publicKey p))) = Inr s1"
    using keys(1) by (simp add: ParsePeerAttr_def attr_reads s1_def)
  have 2: "rfold ?f s1 (map nlattr_of (flag_attr WGPEER_A_FLAGS (flag_word p))) = Inr s1"
    by (simp add: flag_attr_def ParsePeerAttr_def wgpeer_attr_defs)
  have 3: "rfold ?f s1 (map nlattr_of (opt_attr (pc_presharedKey p) (Leaf WGPEER_A_PRESHARED_KEY))) = Inr s2"
    by (rule rfold_opt_attr [where h = "\<lambda>k. s1\<lparr>presharedKey := Some k\<rparr>"])
      (auto simp: ParsePeerAttr_def attr_reads keys s2_def s1_def default_peer_def wgpeer_attr_defs)
  have 4: "rfold ?f s2 (map nlattr_of (opt_attr (pc_endpoint p)
      (\<lambda>e. Leaf WGPEER_A_ENDPOINT (endpoint_payload (projr (ParseEndpoint L e)))))) = Inr s3"
    by (rule rfold_opt_attr [where h = "\<lambda>e. s2\<lparr>endpoint := Some e\<rparr>"])
      (use canon(1) in \<open>auto simp: ParsePeerAttr_def endpoint_echo [OF ok(1)] s3_def s2_def s1_def
        default_peer_def wgpeer_attr_defs\<close>)
  have 5: "rfold ?f s3 (map nlattr_of (opt_attr (pc_persistentKeepaliveInterval p)
      (\<lambda>v. Leaf WGPEER_A_PERSISTENT_KEEPALIVE_INTERVAL (le_bytes 2 v)))) = Inr s4"
    by (rule rfold_opt_attr [where h = "\<lambda>v. s3\<lparr>persistentKeepaliveInterval := v\<rparr>"])
      (auto simp: ParsePeerAttr_def attr_reads s4_def s3_def s2_def s1_def default_peer_def wgpeer_attr_defs)
  have 6: "rfold ?f s4 (map nlattr_of (list_attr WGPEER_A_ALLOWEDIPS (allowed_ip_attrs L) (pc_allowedIPs p))) =
      Inr (echo_peer p)"
  proof (cases "pc_allowedIPs p = []")
    case True
    then show ?thesis by (simp add: list_attr_def echo_peer_def s4_def s3_def s2_def s1_def default_peer_def)
  next
    case False
    let ?nests = "index_nests (allowed_ip_attrs L) (pc_allowedIPs p)"
    have fit: "list_all attr_fits ?nests"
      using fits False by (simp add: peer_attrs_def list_attr_def)
    then have "parse_attrs M (enc_attrs ?nests) = map nlattr_of ?nests" using ok(2) by (simp add: mnl_parse_ok_def)
    moreover have "rfold (ParseAllowedIPEntry L M junk) [] (map nlattr_of ?nests) = Inr (pc_allowedIPs p)"
      using parse_allowed_ips_echo [OF ok canon(2), of 0 junk "[]"] fit by (simp add: index_nests_def)
    ultimately show ?thesis using False
      by (simp add: list_attr_def ParsePeerAttr_def wgpeer_attr_defs)
        (simp add: echo_peer_def s4_def s3_def s2_def s1_def default_peer_def)
  qed
  show ?thesis
    by (simp add: parse_peer_def parse, simp only: peer_attrs_def map_append rfold_append)
      (use 1 in \<open>simp add: 2 3 4 5 6 del: nlattr_of.simps\<close>)
qed

text \<open>A peer with an endpoint and a range.\<close>

definition example_peer :: peer_config where
  "example_peer = default_peer_config\<lparr>pc_endpoint := Some (ref_ntop4 [10, 0, 0, 1] @ '':'' @ to_string 51820),
     pc_allowedIPs := [\<lparr>ip = ref_ntop4 [10, 0, 0, 2], family = 2, cidr = 32\<rparr>]\<rparr>"

lemma example_peer_ok:
  "wf_peer_config example_peer" "list_all attr_fits (peer_attrs ref_inet example_peer)"
  "pred_option (canonical_endpoint ref_inet) (pc_endpoint example_peer)"
  "list_all (canonical_ip ref_inet) (pc_allowedIPs example_peer)"
  "length (enc_attrs (peer_attrs ref_inet example_peer)) < 200"
proof -
  have four: "pton4 ref_inet (ref_ntop4 [10, 0, 0, 2]) = Some [10, 0, 0, 2]"
    "c_str (ref_ntop4 [10, 0, 0, 2]) = ref_ntop4 [10, 0, 0, 2]"
    using ntop_host(1) [OF inet_ok_ref, of "[10, 0, 0, 2]"] by (simp_all add: ref_inet_def ref_pton4_ntop4)
  have ep: "ParseEndpoint ref_inet (ref_ntop4 [10, 0, 0, 1] @ '':'' @ to_string 51820) =
      Inr (storage (sockaddr_in 51820 [10, 0, 0, 1]))"
    using ParseEndpoint_printed_in [OF inet_ok_ref, of "[10, 0, 0, 1]" 51820] by (simp add: ref_inet_def)
  show "wf_peer_config example_peer"
    by (simp add: example_peer_def default_peer_config_def wf_peer_config_def)
  have pl: "length (endpoint_payload (storage (sockaddr_in 51820 [10, 0, 0, 1]))) = 16"
    using family_bytes_differ by (simp add: endpoint_payload_def storage_def sockaddr_in_def)
  note defs = peer_attrs_def example_peer_def default_peer_config_def flag_attr_def flag_word_def opt_attr_def
    list_attr_def index_nests_def enumerate_eq_zip allowed_ip_attrs_def addr_bytes_def four wgpeer_attr_defs
    wgallowedip_attr_defs zero_key_def kKeyLen_def enc_attrs_def align4_def AF_INET_def Let_def
  show "list_all attr_fits (peer_attrs ref_inet example_peer)"
    by (simp add: defs) (simp add: ep [simplified] pl)
  show "length (enc_attrs (peer_attrs ref_inet example_peer)) < 200"
    by (simp add: defs) (simp add: ep [simplified] pl)
  show "pred_option (canonical_endpoint ref_inet) (pc_endpoint example_peer)"
    unfolding example_peer_def canonical_endpoint_def
    by (simp add: ref_inet_def) (rule disjI1, rule exI [of _ "[10, 0, 0, 1]"], simp, rule exI [of _ 51820], simp)
  show "list_all (canonical_ip ref_inet) (pc_allowedIPs example_peer)"
    by (simp add: example_peer_def canonical_ip_def AF_INET_def ref_inet_def) (rule disjI1, rule exI [of _ "[10, 0, 0, 2]"], simp)
qed

section \<open>Configurations whose attributes fit\<close>

text \<open>
  What the read-back lemmas ask of the attributes holds of every configuration whose estimated
  message size is below 65536: then no length field wraps, and there are too few peers and ranges
  for an index to reach the flag bits of an attribute type.
\<close>

lemma length_enc_attr: "length (enc_attr a) = attr_len ref_mnl a"
proof (induction a)
  case (Leaf t b)
  show ?case using align4_bounds [of "length b"] by (simp add: mnl_ok_simps [OF mnl_ok_ref])
next
  case (Nest t ts)
  then have "length (concat (map enc_attr ts)) = alen ref_mnl ts" by (induction ts) simp_all
  then show ?case by (simp add: Let_def mnl_ok_simps [OF mnl_ok_ref])
qed

lemma length_enc_attrs: "length (enc_attrs ts) = alen ref_mnl ts"
  by (induction ts) (simp_all add: enc_attrs_simps length_enc_attr)

lemma index_nests_fit:
  assumes "alen ref_mnl (index_nests f xs) < 65536" and "\<forall>x \<in> set xs. list_all attr_fits (f x)"
  shows "list_all attr_fits (index_nests f xs)"
  unfolding list_all_iff
proof
  fix a assume a: "a \<in> set (index_nests f xs)"
  then obtain i x where ix: "a = Nest (of_nat i) (f x)" "x \<in> set xs" "i < length xs"
    by (auto simp: index_nests_def enumerate_eq_zip set_zip)
  have "4 * length xs \<le> alen ref_mnl (index_nests f xs)"
    unfolding alen_index_nests by (induction xs) (simp_all add: mnl_ok_simps [OF mnl_ok_ref])
  then have "i < 16384" using assms(1) ix(3) by linarith
  then have "(of_nat i :: u16) < 0x4000" by (simp add: word_less_nat_alt unat_of_nat)
  moreover have "4 + alen ref_mnl (f x) < 65536"
    using alen_member [OF a, of ref_mnl] assms(1) by (simp add: ix mnl_ok_simps [OF mnl_ok_ref])
  ultimately show "attr_fits a" using assms(2) ix by (simp add: length_enc_attrs)
qed

lemma list_attr_fits:
  assumes "t < 0x4000" and "alen ref_mnl (list_attr t f xs) < 65536" and "\<forall>x \<in> set xs. list_all attr_fits (f x)"
  shows "list_all attr_fits (list_attr t f xs)"
proof (cases "xs = []")
  case False
  with assms index_nests_fit [of f xs] show ?thesis by (simp add: list_attr_def length_enc_attrs mnl_ok_simps [OF mnl_ok_ref])
qed (simp add: list_attr_def)

lemma opt_attr_fits: "(\<And>v. x = Some v \<Longrightarrow> attr_fits (f v)) \<Longrightarrow> list_all attr_fits (opt_attr x f)"
  by (cases x) (simp_all add: opt_attr_def)

lemma peer_attrs_fit:
  assumes "inet_ok L" and "wf_peer_config p" and "alen ref_mnl (peer_attrs L p) < 65536"
  shows "list_all attr_fits (peer_attrs L p)"
proof -
  have ip: "list_all attr_fits (allowed_ip_attrs L a)" for a
    by (simp add: allowed_ip_attrs_def wgallowedip_attr_defs length_addr_bytes [OF assms(1)])
  have ips: "list_all attr_fits (list_attr WGPEER_A_ALLOWEDIPS (allowed_ip_attrs L) (pc_allowedIPs p))"
    by (rule list_attr_fits) (use assms(3) ip in \<open>simp_all add: peer_attrs_def wgpeer_attr_defs\<close>)
  have ep: "4 + length (endpoint_payload ss) < 65536" for ss
    using length_endpoint_payload [of ss] by simp
  show ?thesis unfolding peer_attrs_def list_all_append
    using assms(2) ips
    by (intro conjI opt_attr_fits)
      (auto simp: wf_peer_config_def is_key_def kKeyLen_def flag_attr_def wgpeer_attr_defs ep)
qed

lemma small_config_fits:
  assumes "inet_ok L" and "wf_config cfg" and "valid_ifname name" and "EstimateSetDeviceMessageSize cfg < 65536"
  shows "list_all attr_fits (set_device_attrs L name cfg)"
    and "p \<in> set (cfg_peers cfg) \<Longrightarrow> list_all attr_fits (peer_attrs L p)"
proof -
  have len: "alen ref_mnl (set_device_attrs L name cfg) < 65536"
    using alen_set_device [OF mnl_ok_ref assms(1,2,3)] assms(4) by linarith
  then have lens: "alen ref_mnl (list_attr WGDEVICE_A_PEERS (peer_attrs L) (cfg_peers cfg)) < 65536"
    by (simp add: set_device_attrs_def)
  have peer: "list_all attr_fits (peer_attrs L p)" if p: "p \<in> set (cfg_peers cfg)" for p
  proof (rule peer_attrs_fit [OF assms(1)])
    show "wf_peer_config p" using assms(2) p by (simp add: wf_config_def list_all_iff)
    obtain i where "Nest i (peer_attrs L p) \<in> set (index_nests (peer_attrs L) (cfg_peers cfg))"
      using index_nests_member [OF p] by blast
    from alen_member [OF this, of ref_mnl] show "alen ref_mnl (peer_attrs L p) < 65536"
      using lens p by (auto simp: list_attr_def split: if_splits)
  qed
  have name: "length name \<le> 15" using assms(3) by (simp add: valid_ifname_def)
  have "list_all attr_fits (list_attr WGDEVICE_A_PEERS (peer_attrs L) (cfg_peers cfg))"
    by (rule list_attr_fits) (use lens peer in \<open>simp_all add: wgdevice_attr_defs\<close>)
  then show "list_all attr_fits (set_device_attrs L name cfg)"
    unfolding set_device_attrs_def list_all_append
    using assms(2) name
    by (intro conjI opt_attr_fits)
      (auto simp: wf_config_def is_key_def kKeyLen_def flag_attr_def wgdevice_attr_defs str_bytes_def)
  show "p \<in> set (cfg_peers cfg) \<Longrightarrow> list_all attr_fits (peer_attrs L p)" by (rule peer)
qed

section \<open>Properties\<close>

text \<open>
  What the SET builder sends for a peer, laid out as bytes, the reply parser reads back as
  that peer: its key, preshared key, endpoint, keepalive interval and every allowed range in
  order, whatever the uninitialised memory holds.
\<close>

theorem set_peer_read_back:
  assumes "inet_ok L" and "mnl_parse_ok M" and "wf_peer_config p"
    and "list_all attr_fits (peer_attrs L p)"
    and "pred_option (canonical_endpoint L) (pc_endpoint p)" and "list_all (canonical_ip L) (pc_allowedIPs p)"
  shows "parse_peer L M junk \<lparr>nla_type = t, nla_payload = enc_attrs (peer_attrs L p)\<rparr> = Inr (echo_peer p)"
  using assms by (rule parse_peer_echo)

theorem set_peer_read_back_witness:
  "parse_peer ref_inet ref_mnl (\<lambda>_. (7, 7)) \<lparr>nla_type = 0, nla_payload = enc_attrs (peer_attrs ref_inet example_peer)\<rparr> =
   Inr (echo_peer example_peer)"
  by (rule set_peer_read_back [OF inet_ok_ref mnl_parse_ok_ref example_peer_ok(1-4)])

end
