(* ===== verification/UapiEcho.thy ===== *)
theory UapiEcho imports UapiReply NlEcho JsConvert begin

text \<open>
  The two backends describe a configuration in the same terms: what \<open>BuildSetDeviceMessage\<close>
  writes as netlink attributes and what \<open>BuildSetRequest\<close> writes as lines are read back, by the
  parser of the same backend, as the same device.
\<close>

section \<open>The device a configuration describes\<close>

definition echo_device :: "string \<Rightarrow> config \<Rightarrow> device" where
  "echo_device name cfg = default_device\<lparr>dev_name := name, privateKey := cfg_privateKey cfg,
     listenPort := (case cfg_listenPort cfg of Some v \<Rightarrow> v | None \<Rightarrow> 0),
     firewallMark := (case cfg_firewallMark cfg of Some v \<Rightarrow> v | None \<Rightarrow> 0),
     peers := map echo_peer (cfg_peers cfg)\<rparr>"

section \<open>Reading the lines of a set request\<close>

definition set_peer_kvs :: "peer_config \<Rightarrow> (string \<times> string) list" where
  "set_peer_kvs p =
     (if pc_remove p then [(''remove'', ''true'')] else [])
     @ (if pc_updateOnly p then [(''update_only'', ''true'')] else [])
     @ opt_kv ''preshared_key'' KeyToHex (pc_presharedKey p) @ opt_kv ''endpoint'' id (pc_endpoint p)
     @ opt_kv ''persistent_keepalive_interval'' num (pc_persistentKeepaliveInterval p)
     @ (if pc_replaceAllowedIPs p then [(''replace_allowed_ips'', ''true'')] else [])
     @ map (\<lambda>a. (''allowed_ip'', FormatCIDR a)) (pc_allowedIPs p)"

lemma set_peer_lines_kvs:
  "set_peer_lines p =
     kv_line ''public_key'' (KeyToHex (pc_publicKey p)) # map (\<lambda>(k, v). kv_line k v) (set_peer_kvs p)"
  by (simp add: set_peer_lines_def set_peer_kvs_def flag_line_def opt_line_def opt_kv_def split: option.splits)

lemma set_peer_kvs_keys:
  "(k, v) \<in> set (set_peer_kvs p) \<Longrightarrow> k \<noteq> ''errno'' \<and> k \<noteq> ''public_key'' \<and> CHR ''='' \<notin> set k"
  by (auto simp: set_peer_kvs_def opt_kv_def split: option.splits if_splits)

lemma peer_field_flags [simp]:
  "peer_field L ''remove'' v p = Inr p" "peer_field L ''update_only'' v p = Inr p"
  "peer_field L ''replace_allowed_ips'' v p = Inr p"
  by (simp_all add: peer_field_def)

lemma rfold_set_peer_kvs:
  assumes "wf_peer_config p" and "list_all (parsed_ip L) (pc_allowedIPs p)"
  shows "rfold (\<lambda>p (k, v). peer_field L k v p) (default_peer\<lparr>publicKey := pc_publicKey p\<rparr>) (set_peer_kvs p) =
    Inr (echo_peer p)"
proof -
  have ips: "list_all (\<lambda>a. cidr_ok L a \<and> CHR ''/'' \<notin> set (ip a)) (pc_allowedIPs p)"
    using assms(2) by (auto simp: parsed_ip_def list_all_iff)
  have psk: "\<And>k. pc_presharedKey p = Some k \<Longrightarrow> KeyFromHex (KeyToHex k) = Inr k"
    using assms(1) by (auto simp: wf_peer_config_def KeyFromHex_KeyToHex)
  show ?thesis unfolding set_peer_kvs_def rfold_append
    by (cases "pc_presharedKey p"; cases "pc_endpoint p"; cases "pc_persistentKeepaliveInterval p")
      (simp_all add: opt_kv_def peer_field_simps rfold_allowed_ips [OF ips] psk ParseUint16_num
        default_peer_def echo_peer_def)
qed

lemma rfold_set_peer_lines:
  assumes "parsed_peer L p"
  shows "rfold (get_line L) \<lparr>gs_device = d\<lparr>peers := ps\<rparr>, gs_currentPeer = c\<rparr> (set_peer_lines p) =
    Inr (in_peer d ps (echo_peer p))"
proof -
  have wf: "wf_peer_config p" "list_all (parsed_ip L) (pc_allowedIPs p)"
    using assms by (simp_all add: parsed_peer_def)
  then have "KeyFromHex (KeyToHex (pc_publicKey p)) = Inr (pc_publicKey p)"
    by (simp add: wf_peer_config_def KeyFromHex_KeyToHex)
  with rfold_get_peer [OF set_peer_kvs_keys rfold_set_peer_kvs [OF wf]] show ?thesis
    by (simp add: set_peer_lines_kvs get_line_public_key)
qed

lemma rfold_set_peers:
  assumes "list_all (parsed_peer L) qs"
  shows "\<exists>c. rfold (get_line L) \<lparr>gs_device = d\<lparr>peers := ps\<rparr>, gs_currentPeer = c0\<rparr>
    (concat (map set_peer_lines qs)) = Inr \<lparr>gs_device = d\<lparr>peers := ps @ map echo_peer qs\<rparr>, gs_currentPeer = c\<rparr>"
  using assms
proof (induction qs arbitrary: ps c0)
  case (Cons q qs)
  then show ?case using Cons.IH [of "ps @ [echo_peer q]" "Some (length ps)"]
    by (simp add: rfold_append rfold_set_peer_lines) (simp add: in_peer_def)
qed auto

lemma device_field_other [simp]: "device_field ''set'' v d = Inr d" "device_field ''replace_peers'' v d = Inr d"
  by (simp_all add: device_field_def)

lemma rfold_set_lines:
  assumes "wf_config cfg" and "list_all (parsed_peer L) (cfg_peers cfg)"
  shows "\<exists>c. rfold (get_line L)
      \<lparr>gs_device = default_device\<lparr>dev_name := n, userspace := True\<rparr>, gs_currentPeer = None\<rparr> (set_lines cfg) =
    Inr \<lparr>gs_device = (echo_device n cfg)\<lparr>userspace := True\<rparr>, gs_currentPeer = c\<rparr>"
proof -
  let ?d = "(echo_device n cfg)\<lparr>userspace := True, peers := []\<rparr>"
  let ?head = "[kv_line ''set'' ''1''] @ opt_line ''private_key'' KeyToHex (cfg_privateKey cfg)
     @ opt_line ''listen_port'' num (cfg_listenPort cfg) @ opt_line ''fwmark'' num (cfg_firewallMark cfg)
     @ flag_line ''replace_peers'' (cfg_replacePeers cfg)"
  have key: "\<And>k. cfg_privateKey cfg = Some k \<Longrightarrow> KeyFromHex (KeyToHex k) = Inr k"
    using assms(1) by (auto simp: wf_config_def KeyFromHex_KeyToHex)
  have "rfold (get_line L) \<lparr>gs_device = default_device\<lparr>dev_name := n, userspace := True\<rparr>, gs_currentPeer = None\<rparr> ?head =
      Inr \<lparr>gs_device = ?d, gs_currentPeer = None\<rparr>"
    by (cases "cfg_privateKey cfg"; cases "cfg_listenPort cfg"; cases "cfg_firewallMark cfg")
      (simp_all add: opt_line_def flag_line_def get_line_device device_field_simps key ParseUint16_num
        ParseUint32_num echo_device_def default_device_def)
  moreover obtain c where "rfold (get_line L) \<lparr>gs_device = ?d, gs_currentPeer = None\<rparr>
      (concat (map set_peer_lines (cfg_peers cfg))) =
      Inr \<lparr>gs_device = ?d\<lparr>peers := map echo_peer (cfg_peers cfg)\<rparr>, gs_currentPeer = c\<rparr>"
    using rfold_set_peers [OF assms(2), where d = ?d and ps = "[]" and ?c0.0 = None] by auto
  moreover have "?d\<lparr>peers := map echo_peer (cfg_peers cfg)\<rparr> = (echo_device n cfg)\<lparr>userspace := True\<rparr>"
    by (simp add: echo_device_def)
  moreover have "set_lines cfg = ?head @ concat (map set_peer_lines (cfg_peers cfg))"
    by (simp add: set_lines_def)
  ultimately show ?thesis by (simp only: rfold_append) simp
qed

lemma parse_set_request:
  assumes "inet_ok L" and "wf_config cfg" and "list_all (parsed_peer L) (cfg_peers cfg)"
    and "clean_config L cfg" and "BuildSetRequest L cfg = Inr r"
  shows "ParseGetResponse L ssl n r = derive_public ssl ((echo_device n cfg)\<lparr>userspace := True\<rparr>)"
proof -
  have "getlines r = set_lines cfg @ [[]]" by (rule getlines_BuildSetRequest [OF assms(1,4,5)])
  moreover obtain c where "rfold (get_line L)
      \<lparr>gs_device = default_device\<lparr>dev_name := n, userspace := True\<rparr>, gs_currentPeer = None\<rparr> (set_lines cfg) =
    Inr \<lparr>gs_device = (echo_device n cfg)\<lparr>userspace := True\<rparr>, gs_currentPeer = c\<rparr>"
    using rfold_set_lines [OF assms(2,3)] by blast
  ultimately show ?thesis by (simp add: ParseGetResponse_def rfold_append get_line_def)
qed

section \<open>Reading the attributes of a set message\<close>

lemma parse_peers_echo:
  assumes "inet_ok L" and "mnl_parse_ok M" and "list_all wf_peer_config ps"
    and "list_all (\<lambda>p. pred_option (canonical_endpoint L) (pc_endpoint p)
      \<and> list_all (canonical_ip L) (pc_allowedIPs p)) ps"
    and "list_all attr_fits (map (\<lambda>(i, p). Nest (of_nat i) (peer_attrs L p)) (enumerate n ps))"
  shows "rfold (ParsePeerEntry L M junk) acc
      (map nlattr_of (map (\<lambda>(i, p). Nest (of_nat i) (peer_attrs L p)) (enumerate n ps))) =
    Inr (foldl merge_peer acc (map echo_peer ps))"
  using assms(3-5)
proof (induction ps arbitrary: n acc)
  case (Cons p ps)
  then show ?case by (simp add: ParsePeerEntry_def parse_peer_echo [OF assms(1,2)])
qed simp

lemma foldl_merge_distinct:
  "distinct_adj (map publicKey (acc @ ps)) \<Longrightarrow> foldl merge_peer acc ps = acc @ ps"
proof (induction ps arbitrary: acc)
  case (Cons p ps)
  have "acc \<noteq> [] \<Longrightarrow> publicKey (last acc) \<noteq> publicKey p"
    using Cons.prems by (cases acc rule: rev_cases) (auto simp: distinct_adj_append_iff)
  then have "merge_peer acc p = acc @ [p]" by (auto simp: merge_peer_def)
  with Cons show ?case by simp
qed simp

lemma parse_set_message:
  assumes "inet_ok L" and "mnl_parse_ok M" and "NUL \<notin> set name" and "wf_config cfg"
    and fits: "list_all attr_fits (set_device_attrs L name cfg)"
    and "list_all (\<lambda>p. pred_option (canonical_endpoint L) (pc_endpoint p)
      \<and> list_all (canonical_ip L) (pc_allowedIPs p)) (cfg_peers cfg)"
    and "distinct_adj (map pc_publicKey (cfg_peers cfg))" and "length hdr = 4"
  shows "ParseDeviceMessage L M junk (hdr @ enc_attrs (set_device_attrs L name cfg)) default_device =
    Inr (echo_device name cfg)"
proof -
  let ?f = "ParseDeviceAttr L M junk"
  have parse: "parse_attrs M (enc_attrs (set_device_attrs L name cfg)) = map nlattr_of (set_device_attrs L name cfg)"
    using assms(2) fits by (simp add: mnl_parse_ok_def)
  have key: "\<And>k. cfg_privateKey cfg = Some k \<Longrightarrow> is_key k" and wf: "list_all wf_peer_config (cfg_peers cfg)"
    using assms(4) by (auto simp: wf_config_def)
  define s1 where "s1 = default_device\<lparr>dev_name := name\<rparr>"
  define s2 where "s2 = s1\<lparr>privateKey := cfg_privateKey cfg\<rparr>"
  define s3 where "s3 = s2\<lparr>listenPort := (case cfg_listenPort cfg of Some v \<Rightarrow> v | None \<Rightarrow> 0)\<rparr>"
  define s4 where "s4 = s3\<lparr>firewallMark := (case cfg_firewallMark cfg of Some v \<Rightarrow> v | None \<Rightarrow> 0)\<rparr>"
  note defs = s4_def s3_def s2_def s1_def default_device_def
  have 1: "?f default_device (nlattr_of (Leaf WGDEVICE_A_IFNAME (str_bytes name @ [0]))) = Inr s1"
    using assms(3) by (simp add: ParseDeviceAttr_def attr_str_bytes s1_def)
  have 2: "rfold ?f s1 (map nlattr_of (flag_attr WGDEVICE_A_FLAGS f)) = Inr s1" for f
    by (simp add: flag_attr_def ParseDeviceAttr_def wgdevice_attr_defs)
  have 3: "rfold ?f s1 (map nlattr_of (opt_attr (cfg_privateKey cfg) (Leaf WGDEVICE_A_PRIVATE_KEY))) = Inr s2"
    by (rule rfold_opt_attr [where h = "\<lambda>k. s1\<lparr>privateKey := Some k\<rparr>"])
      (auto simp: ParseDeviceAttr_def attr_reads key defs wgdevice_attr_defs)
  have 4: "rfold ?f s2 (map nlattr_of (opt_attr (cfg_listenPort cfg) (\<lambda>v. Leaf WGDEVICE_A_LISTEN_PORT (le_bytes 2 v)))) = Inr s3"
    by (rule rfold_opt_attr [where h = "\<lambda>v. s2\<lparr>listenPort := v\<rparr>"])
      (auto simp: ParseDeviceAttr_def attr_reads defs wgdevice_attr_defs)
  have 5: "rfold ?f s3 (map nlattr_of (opt_attr (cfg_firewallMark cfg) (\<lambda>v. Leaf WGDEVICE_A_FWMARK (le_bytes 4 v)))) = Inr s4"
    by (rule rfold_opt_attr [where h = "\<lambda>v. s3\<lparr>firewallMark := v\<rparr>"])
      (auto simp: ParseDeviceAttr_def attr_reads defs wgdevice_attr_defs)
  have 6: "rfold ?f s4 (map nlattr_of (list_attr WGDEVICE_A_PEERS (peer_attrs L) (cfg_peers cfg))) = Inr (echo_device name cfg)"
  proof (cases "cfg_peers cfg = []")
    case True
    then show ?thesis by (simp add: list_attr_def echo_device_def defs)
  next
    case False
    let ?nests = "map (\<lambda>(i, p). Nest (of_nat i) (peer_attrs L p)) (enumerate 0 (cfg_peers cfg))"
    have fit: "list_all attr_fits ?nests"
      using fits False by (simp add: set_device_attrs_def list_attr_def index_nests_def)
    then have "parse_attrs M (enc_attrs ?nests) = map nlattr_of ?nests"
      using assms(2) by (simp only: mnl_parse_ok_def)
    moreover have "rfold (ParsePeerEntry L M junk) [] (map nlattr_of ?nests) = Inr (map echo_peer (cfg_peers cfg))"
    proof -
      have "distinct_adj (map publicKey ([] @ map echo_peer (cfg_peers cfg)))"
        using assms(7) by (simp add: echo_peer_def comp_def)
      from foldl_merge_distinct [OF this] parse_peers_echo [OF assms(1,2) wf assms(6) fit, of junk "[]"]
      show ?thesis by simp
    qed
    ultimately show ?thesis using False
      by (simp add: list_attr_def index_nests_def ParseDeviceAttr_def wgdevice_attr_defs)
        (simp add: echo_device_def defs)
  qed
  show ?thesis using assms(8)
    by (simp add: ParseDeviceMessage_def parse, simp only: set_device_attrs_def map_append rfold_append)
      (use 1 in \<open>simp add: 2 3 4 5 6 del: nlattr_of.simps\<close>)
qed

section \<open>Canonical configurations\<close>

text \<open>
  A configuration both backends carry: every address is written the way \<open>inet_ntop\<close> prints it,
  ranges are ones the CIDR parser returns, and neighbouring peers have different keys.
\<close>

definition canonical_config :: "inet_lib \<Rightarrow> config \<Rightarrow> bool" where
  "canonical_config L cfg \<longleftrightarrow> wf_config cfg \<and> list_all (parsed_peer L) (cfg_peers cfg)
     \<and> list_all (\<lambda>p. pred_option (canonical_endpoint L) (pc_endpoint p)
         \<and> list_all (canonical_ip L) (pc_allowedIPs p)) (cfg_peers cfg)
     \<and> distinct_adj (map pc_publicKey (cfg_peers cfg))"

lemma ntop_safe:
  assumes "inet_ok L"
  shows "length b = 4 \<Longrightarrow> clean_text (ntop4 L b)" "length b = 16 \<Longrightarrow> clean_text (ntop6 L b)"
  using addr_text_safe [OF inet_ok_4(2) [OF assms inet_ok_ntop4 [OF assms]]]
    addr_text_safe [OF inet_ok_6(2) [OF assms inet_ok_ntop6 [OF assms]]]
  by (auto simp: clean_text_def)

lemma clean_to_string: "clean_text (to_string n)"
  by (auto simp: clean_text_def isdigit_def code_def dest!: to_string_digits)

lemma canonical_endpoint_clean:
  assumes "inet_ok L" and "canonical_endpoint L e"
  shows "clean_text e" "\<not> isl (ParseEndpoint L e)"
proof -
  consider (v4) b and port :: u16 where "length b = 4" "e = ntop4 L b @ '':'' @ to_string (unat port)"
    | (v6) b and port :: u16 where "length b = 16" "e = ''['' @ ntop6 L b @ '']:'' @ to_string (unat port)"
    using assms(2) by (auto simp: canonical_endpoint_def)
  then have "clean_text e \<and> \<not> isl (ParseEndpoint L e)"
  proof cases
    case v4
    then show ?thesis using ParseEndpoint_printed_in [OF assms(1) v4(1), of port] ntop_safe(1) [OF assms(1) v4(1)]
        clean_to_string [of "unat port"] by (simp add: clean_text_def)
  next
    case v6
    then show ?thesis using ParseEndpoint_printed_in6 [OF assms(1) v6(1), of port] ntop_safe(2) [OF assms(1) v6(1)]
        clean_to_string [of "unat port"] by (simp add: clean_text_def)
  qed
  then show "clean_text e" "\<not> isl (ParseEndpoint L e)" by simp_all
qed

lemma canonical_ip_clean: "inet_ok L \<Longrightarrow> canonical_ip L a \<Longrightarrow> clean_text (ip a)"
  using ntop_safe by (auto simp: canonical_ip_def)

lemma canonical_config_ok:
  assumes "inet_ok L" and "canonical_config L cfg"
  shows "clean_config L cfg" "endpoints_ok L cfg" "endpoints_valid L cfg"
proof -
  have *: "pred_option clean_text (pc_endpoint p) \<and> list_all (\<lambda>a. cidr_ok L a \<and> NUL \<notin> set (ip a)) (pc_allowedIPs p)
      \<and> pred_option (\<lambda>e. \<not> isl (ParseEndpoint L e)) (pc_endpoint p)"
    if p: "p \<in> set (cfg_peers cfg)" for p
  proof (intro conjI)
    have p': "parsed_peer L p" "pred_option (canonical_endpoint L) (pc_endpoint p)"
      "list_all (canonical_ip L) (pc_allowedIPs p)"
      using assms(2) p by (auto simp: canonical_config_def list_all_iff)
    show "pred_option clean_text (pc_endpoint p)" "pred_option (\<lambda>e. \<not> isl (ParseEndpoint L e)) (pc_endpoint p)"
      using p'(2) canonical_endpoint_clean [OF assms(1)] by (cases "pc_endpoint p"; simp)+
    show "list_all (\<lambda>a. cidr_ok L a \<and> NUL \<notin> set (ip a)) (pc_allowedIPs p)"
      using p'(1,3) canonical_ip_clean [OF assms(1)]
      by (auto simp: parsed_peer_def parsed_ip_def list_all_iff clean_text_def)
  qed
  from * show "clean_config L cfg" "endpoints_ok L cfg"
    by (auto simp: clean_config_def endpoints_ok_def list_all_iff)
  have "check_endpoint L p = Inr ()" if "p \<in> set (cfg_peers cfg)" for p
    using * [OF that] by (auto simp: check_endpoint_def ValidateEndpoint_def isl_def split: option.splits)
      (metis rbind.simps(2) sum.exhaust_sel)
  then show "endpoints_valid L cfg" by (simp add: endpoints_valid_def list_all_iff)
qed

section \<open>Properties\<close>

text \<open>
  C4: the two backends agree on what a configuration means. Take a canonical configuration (keys of
  32 bytes; ranges as the CIDR parser returns them; endpoints and ranges in the form \<open>inet_ntop\<close>
  prints; no two neighbouring peers with the same key) all of whose netlink attributes fit their
  16-bit lengths and 14-bit types, which a configuration of estimated size below 65536 always does
  (\<open>small_config_fits\<close>) and one with a range list as long as in C38 does not. Then, under a valid
  interface name, the netlink builder and the UAPI builder both succeed; the attributes of the one,
  laid out as bytes and read by the netlink reply parser, and the lines of the other, read by the
  UAPI reply parser, give the same device: its name, private key, port, mark and every peer in
  order, up to the mark of the backend and the public key, which the UAPI parser derives.
\<close>

theorem backends_agree:
  assumes "inet_ok L" and "mnl_parse_ok M" and "valid_ifname name" and "canonical_config L cfg"
    and "list_all attr_fits (set_device_attrs L name cfg)"
  shows "\<exists>m ts r. BuildSetDeviceMessage L fam sq name cfg = Inr m \<and> msg_attrs (nlmsg_calls m) = Some ts
    \<and> BuildSetRequest L cfg = Inr r
    \<and> (\<forall>g v. ParseDeviceMessage L M junk ([g, v, 0, 0] @ enc_attrs ts) default_device = Inr (echo_device name cfg))
    \<and> ParseGetResponse L ssl name r = derive_public ssl ((echo_device name cfg)\<lparr>userspace := True\<rparr>)"
proof -
  note ok = canonical_config_ok [OF assms(1,4)]
  have cfg: "wf_config cfg" "list_all (parsed_peer L) (cfg_peers cfg)"
    "list_all (\<lambda>p. pred_option (canonical_endpoint L) (pc_endpoint p)
      \<and> list_all (canonical_ip L) (pc_allowedIPs p)) (cfg_peers cfg)"
    "distinct_adj (map pc_publicKey (cfg_peers cfg))"
    using assms(4) by (simp_all add: canonical_config_def)
  obtain m where m: "BuildSetDeviceMessage L fam sq name cfg = Inr m"
    using BuildSetDeviceMessage_total [OF assms(3) ok(2)] by blast
  obtain r where r: "BuildSetRequest L cfg = Inr r" using ok(3) by (auto simp: BuildSetRequest_Inr_iff)
  have "NUL \<notin> set name" using valid_ifname_chars(1) [OF assms(3)] by auto
  then have nl: "ParseDeviceMessage L M junk ([g, v, 0, 0] @ enc_attrs (set_device_attrs L name cfg)) default_device =
      Inr (echo_device name cfg)" for g v
    by (rule parse_set_message [OF assms(1,2) _ cfg(1) assms(5) cfg(3,4)]) simp
  have "ParseGetResponse L ssl name r = derive_public ssl ((echo_device name cfg)\<lparr>userspace := True\<rparr>)"
    by (rule parse_set_request [OF assms(1) cfg(1,2) ok(1) r])
  with m r nl BuildSetDeviceMessage_Inr(2) [OF m] show ?thesis by blast
qed

definition example_config :: config where
  "example_config = default_config\<lparr>cfg_listenPort := Some 51820, cfg_replacePeers := True, cfg_peers := [example_peer]\<rparr>"

lemma example_peer_parsed: "parsed_peer ref_inet example_peer"
proof -
  have "parsed_ip ref_inet \<lparr>ip = ref_ntop4 [10, 0, 0, 2], family = 2, cidr = 32\<rparr>"
    by (simp add: parsed_ip_def ref_range_ok ref_v4_text)
  then show ?thesis using example_peer_ok(1)
    by (simp add: parsed_peer_def) (simp add: example_peer_def default_peer_config_def)
qed

lemma example_config_canonical: "canonical_config ref_inet example_config"
  using example_peer_ok example_peer_parsed
  by (simp add: canonical_config_def example_config_def default_config_def wf_config_def)

theorem backends_agree_witness:
  "\<exists>r. BuildSetRequest ref_inet example_config = Inr r
    \<and> ParseGetResponse ref_inet (\<lparr>new_raw_private_key = \<lambda>_. None :: unit option, get_raw_public_key = \<lambda>_. (0, [], 0)\<rparr>) ''wg0'' r =
        Inr ((echo_device ''wg0'' example_config)\<lparr>userspace := True\<rparr>)"
proof -
  have valid: "valid_ifname ''wg0''" by (simp add: valid_ifname_def code_def)
  have "EstimateSetDeviceMessageSize example_config < 65536"
    by (simp add: EstimateSetDeviceMessageSize_def example_config_def example_peer_def default_config_def default_peer_config_def)
  then have fits: "list_all attr_fits (set_device_attrs ref_inet ''wg0'' example_config)"
    using example_config_canonical valid by (intro small_config_fits(1) inet_ok_ref) (simp_all add: canonical_config_def)
  show ?thesis using backends_agree [OF inet_ok_ref mnl_parse_ok_ref valid example_config_canonical fits]
    by (fastforce simp: derive_public_def echo_device_def example_config_def default_config_def default_device_def)
qed

end
