(* ===== verification/Base64Ref.thy ===== *)
theory Base64Ref imports Base64 begin

text \<open>
  Base64 as RFC 4648 defines it, on the bits of the input: the bits are cut into groups of six,
  the last one padded with zeros, each group is a character of the alphabet, and \<open>'='\<close> pads the
  text to a multiple of four. The encoder and the decoder of \<open>crypto/Key.cpp\<close>, which shift
  words, are proved equal to it.
\<close>

unbundle bit_operations_syntax

section \<open>The reference\<close>

text \<open>Bits are written from the most significant one down.\<close>

definition low_bits :: "nat \<Rightarrow> 'a::len word \<Rightarrow> bool list" where
  "low_bits n w = map (bit w) (rev [0..<n])"

definition bits_value :: "bool list \<Rightarrow> nat" where
  "bits_value bs = foldl (\<lambda>n b. 2 * n + of_bool b) 0 bs"

definition bytes_bits :: "bytes \<Rightarrow> bool list" where
  "bytes_bits bs = concat (map (low_bits 8) bs)"

fun sextets :: "bool list \<Rightarrow> bool list list" where
  "sextets (a # b # c # d # e # f # rest) = [a, b, c, d, e, f] # sextets rest"
| "sextets [] = []"
| "sextets bs = [bs @ replicate (6 - length bs) False]"

definition rfc4648 :: "bytes \<Rightarrow> string" where
  "rfc4648 bs = map (\<lambda>g. kBase64Chars ! bits_value g) (sextets (bytes_bits bs))
     @ replicate ((3 - length bs mod 3) mod 3) (CHR ''='')"

text \<open>The six bits a character of the alphabet stands for.\<close>

definition char_bits :: "char \<Rightarrow> bool list" where
  "char_bits c = low_bits 6 (word_of_int (Base64DecodeChar c) :: u32)"

section \<open>The encoder\<close>

lemma bits_value_snoc: "bits_value (bs @ [b]) = 2 * bits_value bs + of_bool b"
  by (simp add: bits_value_def)

lemma bits_value_low_bits: "bits_value (low_bits n w) = unat (take_bit n (w :: 'a::len word))"
proof -
  have "bits_value (rev bs) = horner_sum of_bool 2 bs" for bs
    by (induction bs) (simp_all add: bits_value_snoc, simp add: bits_value_def)
  then have "bits_value (low_bits n w) = horner_sum of_bool 2 (map (bit w) [0..<n])"
    by (simp add: low_bits_def rev_map [symmetric])
  also have "\<dots> = horner_sum of_bool 2 (map (bit (unat w)) [0..<n])"
    by (intro arg_cong [where f = "horner_sum of_bool 2"] map_cong) (simp_all add: bit_unsigned_iff)
  also have "\<dots> = take_bit n (unat w)" by (rule horner_sum_bit_eq_take_bit)
  finally show ?thesis by (simp add: unsigned_take_bit_eq)
qed

lemma low_bits_numeral:
  "low_bits 6 w = [bit w 5, bit w 4, bit w 3, bit w 2, bit w 1, bit w 0]"
  "low_bits 8 w = [bit w 7, bit w 6, bit w 5, bit w 4, bit w 3, bit w 2, bit w 1, bit w 0]"
  by (simp_all add: low_bits_def upt_rec numeral_eq_Suc)

lemma b64char_bits: "b64char n k = kBase64Chars ! bits_value (low_bits 6 (drop_bit k n))"
proof -
  have "drop_bit k n AND 0x3F = take_bit 6 (drop_bit k n)"
    by (simp add: sextet_mask take_bit_eq_mask)
  then show ?thesis by (simp add: b64char_def bits_value_low_bits)
qed

lemma bit_u8_high' [simp]: "\<not> bit (w :: u8) (numeral k)" if "8 \<le> (numeral k :: nat)"
  using that by (rule bit_u8_high)

lemma sextets_short:
  "sextets [a7, a6, a5, a4, a3, a2, a1, a0] = [[a7, a6, a5, a4, a3, a2], [a1, a0, False, False, False, False]]"
  "sextets [a7, a6, a5, a4, a3, a2, a1, a0, b7, b6, b5, b4, b3, b2, b1, b0] =
    [[a7, a6, a5, a4, a3, a2], [a1, a0, b7, b6, b5, b4], [b3, b2, b1, b0, False, False]]"
  by (simp_all add: numeral_eq_Suc)

text \<open>The sextets of a 24-bit group.\<close>

lemma group_sextets:
  fixes a b c :: u8
  defines "n \<equiv> push_bit 16 (ucast a :: u32) OR push_bit 8 (ucast b) OR ucast c"
  shows "low_bits 6 (drop_bit 18 n) = [bit a 7, bit a 6, bit a 5, bit a 4, bit a 3, bit a 2]"
    and "low_bits 6 (drop_bit 12 n) = [bit a 1, bit a 0, bit b 7, bit b 6, bit b 5, bit b 4]"
    and "low_bits 6 (drop_bit 6 n) = [bit b 3, bit b 2, bit b 1, bit b 0, bit c 7, bit c 6]"
    and "low_bits 6 (drop_bit 0 n) = [bit c 5, bit c 4, bit c 3, bit c 2, bit c 1, bit c 0]"
  unfolding low_bits_numeral n_def by (simp_all only: bit_simps) (simp_all add: bit_u8_high bit_simps numeral_2_eq_2 numeral_3_eq_3)

lemma pad_short: "replicate ((3 - length [a] mod 3) mod 3) x = [x, x]" "replicate ((3 - length [a, b] mod 3) mod 3) x = [x]"
proof -
  have "(3 - length [a] mod 3) mod 3 = Suc (Suc 0)" "(3 - length [a, b] mod 3) mod 3 = Suc 0" by simp_all
  then show "replicate ((3 - length [a] mod 3) mod 3) x = [x, x]" "replicate ((3 - length [a, b] mod 3) mod 3) x = [x]"
    by (simp_all only: replicate.simps)
qed

lemma KeyToBase64_rfc4648: "KeyToBase64 bs = rfc4648 bs"
proof (induction bs rule: KeyToBase64.induct)
  case (1 a b c rest)
  have "(3 - length (a # b # c # rest) mod 3) mod 3 = (3 - length rest mod 3) mod 3"
    by (simp add: mod_Suc)
  then show ?case using 1 [OF refl] group_sextets [of a b c]
    by (simp only: Let_def b64char_bits rfc4648_def bytes_bits_def low_bits_numeral(2) KeyToBase64.simps
        list.map concat.simps append.simps sextets.simps append_assoc)
next
  case (2 a b)
  show ?case using group_sextets [of a b 0]
    by (simp only: Let_def b64char_bits rfc4648_def bytes_bits_def low_bits_numeral(2) KeyToBase64.simps
        list.map concat.simps append.simps sextets_short pad_short unsigned_0 or.right_neutral append_Nil2 bit_0_eq bot_apply bot_bool_def)
next
  case (3 a)
  show ?case using group_sextets [of a 0 0]
    by (simp only: Let_def b64char_bits rfc4648_def bytes_bits_def low_bits_numeral(2) KeyToBase64.simps
        list.map concat.simps append.simps sextets_short pad_short unsigned_0 or.right_neutral push_bit_of_0 append_Nil2 bit_0_eq bot_apply bot_bool_def)
qed (simp add: rfc4648_def bytes_bits_def)

section \<open>The decoder\<close>

lemma length_low_bits [simp]: "length (low_bits n w) = n"
  by (simp add: low_bits_def)

lemma low_bits_nth: "i < n \<Longrightarrow> low_bits n w ! i = bit w (n - Suc i)"
  by (simp add: low_bits_def rev_nth)

lemma low_bits_append: "low_bits (n + m) w = low_bits n (drop_bit m w) @ low_bits m w"
proof (rule nth_equalityI)
  fix i assume "i < length (low_bits (n + m) w)"
  then show "low_bits (n + m) w ! i = (low_bits n (drop_bit m w) @ low_bits m w) ! i"
    by (auto simp: low_bits_nth nth_append bit_drop_bit_eq algebra_simps intro!: arg_cong [of _ _ "bit w"])
qed simp

lemma Base64DecodeChar_less: "Base64DecodeChar c < 64"
  by (auto simp: Base64DecodeChar_def code_def)

lemma char_word_mask: "0 \<le> Base64DecodeChar c \<Longrightarrow>
   (word_of_int (Base64DecodeChar c) :: u32) AND mask 6 = word_of_int (Base64DecodeChar c)"
  using Base64DecodeChar_less [of c] by (intro less_mask_eq) (simp add: word_less_def uint_word_of_int)

lemma low_bits_feed:
  assumes "b64_valid c" and "n + 6 \<le> 32"
  shows "low_bits (n + 6) (push_bit 6 buf OR word_of_int (Base64DecodeChar c) :: u32) = low_bits n buf @ char_bits c"
proof -
  let ?v = "word_of_int (Base64DecodeChar c) :: u32"
  have "?v AND mask 6 = ?v" using assms(1) by (simp add: b64_valid_def char_word_mask)
  then have v: "bit ?v j \<Longrightarrow> j < 6" for j by (metis bit_and_iff bit_mask_iff)
  have "low_bits n (drop_bit 6 (push_bit 6 buf OR ?v)) = low_bits n buf"
  proof (rule nth_equalityI)
    fix i assume i: "i < length (low_bits n (drop_bit 6 (push_bit 6 buf OR ?v)))"
    have "\<not> bit ?v (6 + (n - Suc i))" using v [of "6 + (n - Suc i)"] by auto
    then show "low_bits n (drop_bit 6 (push_bit 6 buf OR ?v)) ! i = low_bits n buf ! i"
      using assms(2) i by (simp add: low_bits_nth bit_drop_bit_eq bit_or_iff bit_push_bit_iff del: bit_word_of_int_iff)
        (use assms(2) i in auto)
  qed simp
  moreover have "low_bits 6 (push_bit 6 buf OR ?v) = char_bits c"
    by (simp add: low_bits_numeral char_bits_def bit_simps)
  ultimately show ?thesis by (simp add: low_bits_append)
qed

lemma low_bits_out: "m < 8 \<Longrightarrow> low_bits 8 (drop_bit m w) = low_bits 8 (b64_out m w)"
  by (intro nth_equalityI) (auto simp: low_bits_nth b64_out_def bit_simps sextet_mask)

lemma bytes_bits_snoc: "bytes_bits (out @ [b]) = bytes_bits out @ low_bits 8 b"
  by (simp add: bytes_bits_def)

lemma b64_step_bits:
  assumes "b64_at out s" and "b64_bits s < 8" and "b64_step e s c = Inr t"
  shows "\<exists>out'. b64_at out' t \<and> b64_bits t < 8 \<and>
    bytes_bits out' @ low_bits (b64_bits t) (b64_buf t) = bytes_bits out @ low_bits (b64_bits s) (b64_buf s) @ char_bits c"
proof -
  have v: "b64_valid c" using assms(3) by (rule b64_step_valid_char)
  let ?buf = "push_bit 6 (b64_buf s) OR word_of_int (Base64DecodeChar c)"
  have feed: "low_bits (b64_bits s + 6) ?buf = low_bits (b64_bits s) (b64_buf s) @ char_bits c"
    using low_bits_feed [OF v] assms(2) by simp
  have pos: "b64_outPos s = length out" using assms(1) by (simp add: b64_at_def)
  have step: "b64_step e s c = (if b64_bits s + 6 \<ge> 8 then
           (if b64_outPos s \<ge> kKeyLen then Inl (b64_error e)
            else Inr (s\<lparr>b64_key := (b64_key s)[b64_outPos s := b64_out (b64_bits s + 6 - 8) ?buf],
                        b64_outPos := b64_outPos s + 1, b64_buf := ?buf, b64_bits := b64_bits s + 6 - 8\<rparr>))
         else Inr (s\<lparr>b64_buf := ?buf, b64_bits := b64_bits s + 6\<rparr>))"
    using v by (simp add: b64_step_valid b64_valid_def Let_def)
  show ?thesis
  proof (cases "b64_bits s + 6 \<ge> 8")
    case False
    then have "b64_at out t" "b64_bits t = b64_bits s + 6" "b64_buf t = ?buf"
      using step assms(1,3) by (auto simp: b64_at_def)
    with False feed show ?thesis by (intro exI [of _ out]) simp
  next
    case True
    define m where "m = b64_bits s + 6 - 8"
    have lt: "length out < kKeyLen" using step assms(3) True pos by (auto split: if_splits)
    with step assms(3) True pos have t: "t = s\<lparr>b64_key := (b64_key s)[b64_outPos s := b64_out m ?buf],
        b64_outPos := b64_outPos s + 1, b64_buf := ?buf, b64_bits := m\<rparr>"
      by (simp add: m_def)
    have "b64_at (out @ [b64_out m ?buf]) t"
      by (rule b64_at_cong [OF b64_at_update [OF assms(1) lt]]) (simp_all add: t)
    moreover have m: "m < 8" "b64_bits s + 6 = 8 + m" using True assms(2) by (simp_all add: m_def)
    moreover have "low_bits (8 + m) ?buf = low_bits 8 (b64_out m ?buf) @ low_bits m ?buf"
      by (simp only: low_bits_append low_bits_out [OF m(1)])
    ultimately show ?thesis using feed
      by (intro exI [of _ "out @ [b64_out m ?buf]"]) (simp add: t bytes_bits_snoc)
  qed
qed

lemma b64_loop_bits:
  assumes "rfold (b64_step e) s cs = Inr t" and "b64_at out s" and "b64_bits s < 8"
  shows "\<exists>out'. b64_at out' t \<and>
    bytes_bits out' @ low_bits (b64_bits t) (b64_buf t) = bytes_bits out @ low_bits (b64_bits s) (b64_buf s) @ concat (map char_bits cs)"
  using assms
proof (induction cs arbitrary: s out)
  case (Cons c cs)
  from Cons.prems(1) obtain u where u: "b64_step e s c = Inr u" "rfold (b64_step e) u cs = Inr t"
    by (auto simp: rbind_Inr_iff)
  from b64_step_bits [OF Cons.prems(2,3) u(1)] obtain out1 where o1: "b64_at out1 u" "b64_bits u < 8"
    "bytes_bits out1 @ low_bits (b64_bits u) (b64_buf u) = bytes_bits out @ low_bits (b64_bits s) (b64_buf s) @ char_bits c" by blast
  from Cons.IH [OF u(2) o1(1,2)] obtain out2 where "b64_at out2 t"
    "bytes_bits out2 @ low_bits (b64_bits t) (b64_buf t) =
      (bytes_bits out1 @ low_bits (b64_bits u) (b64_buf u)) @ concat (map char_bits cs)" by auto
  with o1(3) show ?case by auto
qed auto

lemma length_bytes_bits [simp]: "length (bytes_bits bs) = 8 * length bs"
  by (induction bs) (simp_all add: bytes_bits_def)

lemma KeyFromBase64_bits:
  assumes "KeyFromBase64 s = Inr k"
  shows "bytes_bits k = take 256 (concat (map char_bits (strip_pad s)))"
proof -
  from assms obtain t where t: "rfold (b64_step s) b64_init (strip_pad s) = Inr t" "b64_outPos t = kKeyLen" "k = b64_key t"
    by (auto simp: KeyFromBase64_def Let_def rbind_Inr_iff split: if_splits)
  from b64_loop_bits [OF t(1) b64_at_init] obtain out where out: "b64_at out t"
    "bytes_bits out @ low_bits (b64_bits t) (b64_buf t) = concat (map char_bits (strip_pad s))"
    by (auto simp: b64_init_def bytes_bits_def low_bits_def)
  then have "k = out" "length out = 32" using t(2,3) by (simp_all add: b64_at_def kKeyLen_def)
  then have "take 256 (bytes_bits out @ low_bits (b64_bits t) (b64_buf t)) = bytes_bits k" by simp
  with out(2) show ?thesis by simp
qed

section \<open>Properties\<close>

text \<open>
  C20: the base64 encoder, which shifts 24-bit words, is the encoding of RFC 4648: the bits of
  the input in groups of six, each a character of the alphabet, padded with \<open>'='\<close>.
\<close>

theorem base64_is_rfc4648:
  "KeyToBase64 bs = rfc4648 bs"
  by (rule KeyToBase64_rfc4648)

text \<open>
  C21: the base64 decoder accepts exactly the texts that are 43 characters of the alphabet after
  their trailing \<open>'='\<close> are removed, however many those are; the key it returns is the first 256
  of the 258 bits those characters stand for, and any other text is reported as an invalid
  argument that names it.
\<close>

theorem base64_decodes_exactly:
  "case KeyFromBase64 s of
     Inr k \<Rightarrow> is_key k \<and> length (strip_pad s) = 43 \<and> set (strip_pad s) \<subseteq> set kBase64Chars
       \<and> bytes_bits k = take 256 (concat (map char_bits (strip_pad s)))
   | Inl e \<Rightarrow> e = b64_error s \<and> \<not> (length (strip_pad s) = 43 \<and> set (strip_pad s) \<subseteq> set kBase64Chars)"
  using base64_accepts_exactly [of s] KeyFromBase64_bits [of s] by (cases "KeyFromBase64 s") simp_all

end
