(* ===== verification/TsClient.thy ===== *)
theory TsClient imports Client begin

text \<open>
  The class \<open>WireGuardClient\<close> of \<open>src/lib/index.ts\<close>, which puts a queue of promises in front
  of the native client: promises and their reactions as ECMAScript defines them, the queue as
  the class builds it with \<open>then\<close>, and the proof that it is a first-in first-out queue which
  has at most one native call in flight.
\<close>

section \<open>Promises\<close>

text \<open>
  The closure \<open>() => this.native.m(args)\<close> of a call. Promises are named by who made them: the
  \<open>n\<close>-th call of \<open>enqueue\<close> makes \<open>Result n\<close> and \<open>Chain (n + 1)\<close>; \<open>Chain 0\<close> is
  \<open>Promise.resolve()\<close>; \<open>Native n\<close> is what the native client's \<open>n\<close>-th call returned.
\<close>

text \<open>
  What the closure holds of an argument: a string is a value, an object is a reference into the heap
  the caller shares, and what it stands for is only read when the native method runs.
\<close>

datatype arg = Value js | Object nat

fun deref :: "(nat \<Rightarrow> js) \<Rightarrow> arg \<Rightarrow> js" where
  "deref h (Value v) = v"
| "deref h (Object r) = h r"

datatype call = Call method_name "arg list"

datatype pref = Result nat | Chain nat | Native nat

text \<open>
  A reaction and the promise it settles: \<open>then(task, task)\<close>, \<open>then(() => undefined, () => undefined)\<close>,
  and the pair of functions with which a promise follows the one its handler returned.
\<close>

datatype reaction = RunTask call pref | Undef pref | Adopt pref

datatype prom = Pending "reaction list" | Settled "js settlement"

text \<open>The microtasks: a reaction with the outcome it reacts to, and the job that follows a returned promise.\<close>

datatype job = React reaction "js settlement" | Subscribe pref pref

record ts =
  ts_proms :: "pref \<Rightarrow> prom"
  ts_jobs :: "job list"
  ts_queue :: pref
  ts_count :: nat
  ts_native :: client
  ts_heap :: "nat \<Rightarrow> js"

definition then_p :: "pref \<Rightarrow> reaction \<Rightarrow> ts \<Rightarrow> ts" where
  "then_p p r t =
     (case ts_proms t p of
        Pending rs \<Rightarrow> t\<lparr>ts_proms := (ts_proms t)(p := Pending (rs @ [r]))\<rparr>
      | Settled v \<Rightarrow> t\<lparr>ts_jobs := ts_jobs t @ [React r v]\<rparr>)"

definition settle :: "pref \<Rightarrow> js settlement \<Rightarrow> ts \<Rightarrow> ts" where
  "settle p v t =
     (case ts_proms t p of
        Pending rs \<Rightarrow> t\<lparr>ts_proms := (ts_proms t)(p := Settled v), ts_jobs := ts_jobs t @ map (\<lambda>r. React r v) rs\<rparr>
      | Settled _ \<Rightarrow> t)"

section \<open>The class\<close>

text \<open>The constructor throws what the native constructor throws.\<close>

definition ts_new :: "os_env \<Rightarrow> world \<Rightarrow> string + ts" where
  "ts_new E w =
     (case client_new E w of
        (Some err, _) \<Rightarrow> Inl err
      | (None, c) \<Rightarrow> Inr \<lparr>ts_proms = (\<lambda>_. Pending [])(Chain 0 := Settled (Resolved JUndefined)),
                        ts_jobs = [], ts_queue = Chain 0, ts_count = 0, ts_native = c, ts_heap = (\<lambda>_. JUndefined)\<rparr>)"

definition enqueue :: "call \<Rightarrow> ts \<Rightarrow> ts" where
  "enqueue c t =
     (let result = Result (ts_count t);
          queue = Chain (Suc (ts_count t));
          t1 = then_p (ts_queue t) (RunTask c result) t;
          t2 = then_p result (Undef queue) t1
      in t2\<lparr>ts_queue := queue, ts_count := Suc (ts_count t)\<rparr>)"

text \<open>
  The methods of the class: each passes its own parameters to the native method of its name, and a
  parameter the caller left out as \<open>undefined\<close>.
\<close>

definition param :: "arg list \<Rightarrow> nat \<Rightarrow> arg" where
  "param info i = (if i < length info then info ! i else Value JUndefined)"

fun wrapper_call :: "method_name \<Rightarrow> arg list \<Rightarrow> call" where
  "wrapper_call M_devices info = Call M_devices []"
| "wrapper_call M_configureDevice info = Call M_configureDevice [param info 0, param info 1]"
| "wrapper_call M_setAddress info = Call M_setAddress [param info 0, param info 1]"
| "wrapper_call M_deleteAddress info = Call M_deleteAddress [param info 0, param info 1]"
| "wrapper_call m info = Call m [param info 0]"

lemma GetStringArg_param:
  "GetStringArg [deref h (param info 0)] 0 = GetStringArg (map (deref h) info) 0"
  "GetStringArg [deref h (param info 0), v] 0 = GetStringArg (map (deref h) info) 0"
  "GetStringArg [v, deref h (param info 1)] (Suc 0) = GetStringArg (map (deref h) info) (Suc 0)"
  "GetStringArg [v, deref h (param info (Suc 0))] (Suc 0) = GetStringArg (map (deref h) info) (Suc 0)"
  by (auto simp: GetStringArg_def param_def)

text \<open>The native method decides as if it had been given the caller's arguments.\<close>

lemma wrapper_transparent:
  "case wrapper_call m info of Call m' info' \<Rightarrow>
     call_method L m' b (map (deref h) info') = call_method L m b (map (deref h) info)"
proof (cases m)
  case M_configureDevice
  show ?thesis
  proof (cases "length info \<le> 1")
    case True
    then have "deref h (param info 1) = JUndefined" by (simp add: param_def)
    with True M_configureDevice show ?thesis
      by (simp add: method_ConfigureDevice_def GetStringArg_param cong: option.case_cong)
  next
    case False
    then have "deref h (param info 1) = map (deref h) info ! 1" by (simp add: param_def)
    with False M_configureDevice show ?thesis
      by (simp add: method_ConfigureDevice_def GetStringArg_param split: option.split)
  qed
qed (simp_all add: method_CreateDevice_def method_DeleteDevice_def method_Devices_def method_Device_def
    method_SetUp_def method_SetDown_def method_SetAddress_def method_DeleteAddress_def GetStringArg_param)

definition ts_close :: "ts \<Rightarrow> ts" where
  "ts_close t = t\<lparr>ts_native := client_close (ts_native t)\<rparr>"

text \<open>The caller makes or changes one of its objects.\<close>

definition ts_write :: "nat \<Rightarrow> js \<Rightarrow> ts \<Rightarrow> ts" where
  "ts_write r v t = t\<lparr>ts_heap := (ts_heap t)(r := v)\<rparr>"

text \<open>The promise a native method returns: rejected already, or pending until its worker is done.\<close>

definition returned :: "'p libs \<Rightarrow> method_name \<Rightarrow> js list \<Rightarrow> client \<Rightarrow> prom" where
  "returned P m info c =
     (case call_method (l_inet P) m (cl_holds c) info of
        RejectPromise msg \<Rightarrow> Settled (Rejected (plain_error msg))
      | Queue t \<Rightarrow> Pending [])"

fun run_job :: "'p libs \<Rightarrow> job \<Rightarrow> ts \<Rightarrow> ts" where
  "run_job P (React (RunTask (Call m info) d) v) t =
     (let c = ts_native t; p = Native (cl_next c); args = map (deref (ts_heap t)) info
      in t\<lparr>ts_native := client_call P m args c, ts_proms := (ts_proms t)(p := returned P m args c),
           ts_jobs := ts_jobs t @ [Subscribe p d]\<rparr>)"
| "run_job P (React (Undef d) v) t = settle d (Resolved JUndefined) t"
| "run_job P (React (Adopt d) v) t = settle d v t"
| "run_job P (Subscribe p d) t = then_p p (Adopt d) t"

text \<open>A worker is done: the native client settles the promise it returned for it.\<close>

definition worker_done :: "nat \<Rightarrow> client \<Rightarrow> ts \<Rightarrow> ts" where
  "worker_done ident c t = settle (Native ident) (snd (last (cl_settled c))) (t\<lparr>ts_native := c\<rparr>)"

text \<open>What happens without the caller: the next microtask, or the end of some worker.\<close>

inductive ts_internal :: "'p libs \<Rightarrow> ts \<Rightarrow> ts \<Rightarrow> bool" for P where
  int_job: "ts_jobs t = j # js \<Longrightarrow> ts_internal P t (run_job P j (t\<lparr>ts_jobs := js\<rparr>))"
| int_worker: "i < length (cl_workers (ts_native t)) \<Longrightarrow> client_run P i (ts_native t) = Some c \<Longrightarrow>
     ts_internal P t (worker_done (fst (cl_workers (ts_native t) ! i)) c t)"

text \<open>\<open>ts_run P t0 cs t\<close>: from \<open>t0\<close> the wrapper can come to \<open>t\<close>, and \<open>cs\<close> are the calls made meanwhile, in order.\<close>

inductive ts_run :: "'p libs \<Rightarrow> ts \<Rightarrow> call list \<Rightarrow> ts \<Rightarrow> bool" for P t0 where
  run_start: "ts_run P t0 [] t0"
| run_internal: "ts_run P t0 cs t \<Longrightarrow> ts_internal P t t' \<Longrightarrow> ts_run P t0 cs t'"
| run_enqueue: "ts_run P t0 cs t \<Longrightarrow> ts_run P t0 (cs @ [c]) (enqueue c t)"
| run_close: "ts_run P t0 cs t \<Longrightarrow> ts_run P t0 cs (ts_close t)"
| run_write: "ts_run P t0 cs t \<Longrightarrow> ts_run P t0 cs (ts_write r v t)"

inductive_cases ts_internalE: "ts_internal P t t'"

section \<open>The specification: a first-in first-out queue\<close>

text \<open>
  All calls in the order they were made, how many of them have begun, the native client, and the
  caller's objects.
  A call begins when no worker is in flight, and the only worker is the latest call's.
\<close>

record fifo =
  f_calls :: "call list"
  f_begun :: nat
  f_native :: client
  f_heap :: "nat \<Rightarrow> js"

fun native_call :: "'p libs \<Rightarrow> (nat \<Rightarrow> js) \<Rightarrow> call \<Rightarrow> client \<Rightarrow> client" where
  "native_call P h (Call m info) c = client_call P m (map (deref h) info) c"

inductive fifo_step :: "'p libs \<Rightarrow> fifo \<Rightarrow> fifo \<Rightarrow> bool" for P where
  fifo_call: "fifo_step P f (f\<lparr>f_calls := f_calls f @ [c]\<rparr>)"
| fifo_begin: "f_begun f < length (f_calls f) \<Longrightarrow> cl_workers (f_native f) = [] \<Longrightarrow>
     fifo_step P f (f\<lparr>f_begun := Suc (f_begun f), f_native := native_call P (f_heap f) (f_calls f ! f_begun f) (f_native f)\<rparr>)"
| fifo_end: "cl_workers (f_native f) = [(f_begun f - 1, task)] \<Longrightarrow> client_run P 0 (f_native f) = Some c \<Longrightarrow>
     fifo_step P f (f\<lparr>f_native := c\<rparr>)"
| fifo_close: "fifo_step P f (f\<lparr>f_native := client_close (f_native f)\<rparr>)"
| fifo_write: "fifo_step P f (f\<lparr>f_heap := (f_heap f)(r := v)\<rparr>)"

inductive fifo_reachable :: "'p libs \<Rightarrow> fifo \<Rightarrow> fifo \<Rightarrow> bool" for P f0 where
  fifo_start: "fifo_reachable P f0 f0"
| fifo_next: "fifo_reachable P f0 f \<Longrightarrow> fifo_step P f f' \<Longrightarrow> fifo_reachable P f0 f'"

section \<open>Where the queue stands\<close>

text \<open>
  All work is at one call at a time, \<open>k\<close> of the calls \<open>cs\<close>. \<open>Idle\<close>: no call is left. \<open>Queued\<close>:
  its task is the next microtask. \<open>Called\<close>: the native method has returned a promise that is
  not followed yet. \<open>Watching\<close>: its worker is in flight. \<open>Adopting\<close>: the outcome is about to settle
  the result. \<open>Ending\<close>: the result is settled, the queue's next promise is not.
\<close>

datatype stage = Idle | Queued "js settlement" | Called | Watching | Adopting "js settlement" | Ending "js settlement"

fun stage_jobs :: "call list \<Rightarrow> nat \<Rightarrow> stage \<Rightarrow> job list" where
  "stage_jobs cs k (Queued v) = [React (RunTask (cs ! k) (Result k)) v]"
| "stage_jobs cs k Called = [Subscribe (Native k) (Result k)]"
| "stage_jobs cs k (Adopting v) = [React (Adopt (Result k)) v]"
| "stage_jobs cs k (Ending v) = [React (Undef (Chain (Suc k))) v]"
| "stage_jobs cs k _ = []"

text \<open>The calls that have begun; the wrapper's promises that are settled, in the order of the chain.\<close>

fun stage_begun :: "nat \<Rightarrow> stage \<Rightarrow> nat" where
  "stage_begun k Idle = k"
| "stage_begun k (Queued v) = k"
| "stage_begun k _ = Suc k"

fun stage_results :: "nat \<Rightarrow> stage \<Rightarrow> nat" where
  "stage_results k (Ending v) = Suc k"
| "stage_results k _ = k"

fun stage_native :: "nat \<Rightarrow> ts \<Rightarrow> stage \<Rightarrow> bool" where
  "stage_native k t Called \<longleftrightarrow>
     (\<exists>task. cl_workers (ts_native t) = [(k, task)] \<and> ts_proms t (Native k) = Pending []) \<or>
     (cl_workers (ts_native t) = [] \<and> (\<exists>v. ts_proms t (Native k) = Settled v \<and> (k, v) \<in> set (cl_settled (ts_native t))))"
| "stage_native k t Watching \<longleftrightarrow>
     (\<exists>task. cl_workers (ts_native t) = [(k, task)]) \<and> ts_proms t (Native k) = Pending [Adopt (Result k)]"
| "stage_native k t (Adopting v) \<longleftrightarrow> cl_workers (ts_native t) = [] \<and> (k, v) \<in> set (cl_settled (ts_native t))"
| "stage_native k t _ \<longleftrightarrow> cl_workers (ts_native t) = []"

definition chain_reactions :: "call list \<Rightarrow> nat \<Rightarrow> reaction list" where
  "chain_reactions cs i = (if i < length cs then [RunTask (cs ! i) (Result i)] else [])"

definition result_reactions :: "call list \<Rightarrow> nat \<Rightarrow> reaction list" where
  "result_reactions cs i = (if i < length cs then [Undef (Chain (Suc i))] else [])"

text \<open>\<open>Chain\<close> promises up to \<open>k\<close> and the first \<open>m\<close> results are settled, each result with its own call's outcome.\<close>

definition proms_at :: "call list \<Rightarrow> nat \<Rightarrow> nat \<Rightarrow> ts \<Rightarrow> bool" where
  "proms_at cs k m t \<longleftrightarrow>
     (\<forall>i. if i \<le> k then \<exists>v. ts_proms t (Chain i) = Settled v
          else ts_proms t (Chain i) = Pending (chain_reactions cs i)) \<and>
     (\<forall>i. if i < m then \<exists>v. ts_proms t (Result i) = Settled v \<and> (i, v) \<in> set (cl_settled (ts_native t))
          else ts_proms t (Result i) = Pending (result_reactions cs i))"

lemma proms_atD:
  assumes "proms_at cs k m t"
  shows "i \<le> k \<Longrightarrow> \<exists>v. ts_proms t (Chain i) = Settled v"
    and "k < i \<Longrightarrow> ts_proms t (Chain i) = Pending (chain_reactions cs i)"
    and "i < m \<Longrightarrow> \<exists>v. ts_proms t (Result i) = Settled v \<and> (i, v) \<in> set (cl_settled (ts_native t))"
    and "m \<le> i \<Longrightarrow> ts_proms t (Result i) = Pending (result_reactions cs i)"
  using assms by (auto simp: proms_at_def split: if_splits)

definition ts_at :: "call list \<Rightarrow> nat \<Rightarrow> stage \<Rightarrow> ts \<Rightarrow> bool" where
  "ts_at cs k st t \<longleftrightarrow>
     ts_count t = length cs \<and> ts_queue t = Chain (length cs)
     \<and> (if st = Idle then k = length cs else k < length cs)
     \<and> ts_jobs t = stage_jobs cs k st \<and> cl_next (ts_native t) = stage_begun k st
     \<and> proms_at cs k (stage_results k st) t \<and> stage_native k t st"

section \<open>Every step keeps the queue in shape\<close>

lemma client_run_single:
  "cl_workers c = [(k, task)] \<Longrightarrow> client_run P 0 c = Some c' \<Longrightarrow>
   cl_workers c' = [] \<and> cl_next c' = cl_next c \<and> (\<exists>v. cl_settled c' = cl_settled c @ [(k, v)])"
  by (auto simp: client_run_def split: prod.splits option.splits)

lemma client_close_frame [simp]:
  "cl_workers (client_close c) = cl_workers c" "cl_settled (client_close c) = cl_settled c"
  "cl_next (client_close c) = cl_next c"
  by (simp_all add: client_close_def)

lemma ts_at_new:
  "ts_new E w = Inr t \<Longrightarrow> ts_at [] 0 Idle t"
  by (auto simp: ts_new_def client_new_def ts_at_def proms_at_def chain_reactions_def result_reactions_def
      split: prod.splits option.splits sum.splits)

lemma stage_jobs_append: "k < length cs \<Longrightarrow> stage_jobs (cs @ [c]) k st = stage_jobs cs k st"
  by (cases st) (auto simp: nth_append)

lemma ts_at_close: "ts_at cs k st t \<Longrightarrow> ts_at cs k st (ts_close t)"
  by (cases st) (auto simp: ts_at_def ts_close_def proms_at_def)

lemma ts_at_enqueue_busy:
  assumes "ts_at cs k st t" and "st \<noteq> Idle"
  shows "ts_at (cs @ [c]) k st (enqueue c t)"
proof -
  let ?n = "length cs"
  have t: "k < ?n" "ts_proms t (Chain ?n) = Pending []" "ts_proms t (Result ?n) = Pending []"
    "ts_queue t = Chain ?n" "ts_count t = ?n"
  proof -
    have "stage_results k st \<le> Suc k" by (cases st) auto
    then show "k < ?n" "ts_proms t (Chain ?n) = Pending []" "ts_proms t (Result ?n) = Pending []"
      "ts_queue t = Chain ?n" "ts_count t = ?n"
      using assms by (auto simp: ts_at_def proms_atD chain_reactions_def result_reactions_def)
  qed
  have e: "enqueue c t = t\<lparr>ts_proms := (ts_proms t)(Chain ?n := Pending [RunTask c (Result ?n)],
      Result ?n := Pending [Undef (Chain (Suc ?n))]), ts_queue := Chain (Suc ?n), ts_count := Suc ?n\<rparr>"
    using t by (simp add: enqueue_def then_p_def Let_def)
  have "stage_native k (enqueue c t) st" using assms by (cases st) (auto simp: ts_at_def e)
  moreover have "proms_at (cs @ [c]) k (stage_results k st) (enqueue c t)"
  proof -
    have "stage_results k st \<le> ?n" using t(1) by (cases st) auto
    then show ?thesis using assms(1) t(1)
      by (auto simp: ts_at_def proms_at_def e chain_reactions_def result_reactions_def nth_append)
  qed
  ultimately show ?thesis using assms by (auto simp: ts_at_def e stage_jobs_append)
qed

lemma ts_at_enqueue_idle:
  assumes "ts_at cs k Idle t"
  shows "\<exists>v. ts_at (cs @ [c]) k (Queued v) (enqueue c t)"
proof -
  let ?n = "length cs"
  obtain v where t: "k = ?n" "ts_proms t (Chain ?n) = Settled v" "ts_proms t (Result ?n) = Pending []"
    "ts_queue t = Chain ?n" "ts_count t = ?n"
    using assms proms_atD(1) [of cs k k t k] by (auto simp: ts_at_def proms_atD(4) result_reactions_def)
  have e: "enqueue c t = t\<lparr>ts_proms := (ts_proms t)(Result ?n := Pending [Undef (Chain (Suc ?n))]),
      ts_jobs := ts_jobs t @ [React (RunTask c (Result ?n)) v], ts_queue := Chain (Suc ?n), ts_count := Suc ?n\<rparr>"
    using t by (simp add: enqueue_def then_p_def Let_def)
  show ?thesis using assms t(1)
    by (intro exI [of _ v]) (auto simp: ts_at_def proms_at_def e chain_reactions_def result_reactions_def)
qed

text \<open>The microtasks, one stage after the other.\<close>

lemma returned_cases:
  assumes "cl_workers n = []"
  obtains msg where "returned P m info n = Settled (Rejected (plain_error msg))"
      "client_call P m info n = n\<lparr>cl_settled := cl_settled n @ [(cl_next n, Rejected (plain_error msg))], cl_next := Suc (cl_next n)\<rparr>"
  | task where "returned P m info n = Pending []"
      "client_call P m info n = n\<lparr>cl_workers := [(cl_next n, task)], cl_next := Suc (cl_next n)\<rparr>"
  using assms by (cases "call_method (l_inet P) m (cl_holds n) info") (auto simp: returned_def client_call_def)

lemma ts_at_queued:
  assumes "ts_at cs k (Queued v) t"
  shows "ts_at cs k Called (run_job P (React (RunTask (cs ! k) (Result k)) v) (t\<lparr>ts_jobs := []\<rparr>))"
proof -
  obtain m info where c: "cs ! k = Call m info" by (cases "cs ! k")
  have w: "cl_workers (ts_native t) = []" "cl_next (ts_native t) = k" using assms by (simp_all add: ts_at_def)
  show ?thesis using assms w(2)
    by (cases rule: returned_cases [OF w(1), of P m "map (deref (ts_heap t)) info"])
      (auto simp: ts_at_def proms_at_def c Let_def)
qed

lemma ts_at_called:
  assumes "ts_at cs k Called t"
  shows "ts_at cs k Watching (run_job P (Subscribe (Native k) (Result k)) (t\<lparr>ts_jobs := []\<rparr>)) \<or>
    (\<exists>v. ts_at cs k (Adopting v) (run_job P (Subscribe (Native k) (Result k)) (t\<lparr>ts_jobs := []\<rparr>)))"
  using assms by (auto simp: ts_at_def then_p_def proms_at_def)

lemma ts_at_adopting:
  assumes "ts_at cs k (Adopting v) t"
  shows "ts_at cs k (Ending v) (run_job P (React (Adopt (Result k)) v) (t\<lparr>ts_jobs := []\<rparr>))"
proof -
  have "ts_proms t (Result k) = Pending [Undef (Chain (Suc k))]"
    using assms by (auto simp: ts_at_def proms_atD result_reactions_def)
  then show ?thesis using assms by (auto simp: ts_at_def settle_def proms_at_def less_Suc_eq)
qed

lemma ts_at_ending:
  assumes "ts_at cs k (Ending v) t"
  shows "ts_at cs (Suc k) (if Suc k = length cs then Idle else Queued (Resolved JUndefined))
    (run_job P (React (Undef (Chain (Suc k))) v) (t\<lparr>ts_jobs := []\<rparr>))"
proof -
  have "ts_proms t (Chain (Suc k)) = Pending (chain_reactions cs (Suc k))"
    using assms by (auto simp: ts_at_def proms_atD)
  then show ?thesis using assms
    by (auto simp: ts_at_def settle_def proms_at_def chain_reactions_def le_Suc_eq)
qed

lemma ts_at_worker:
  assumes "ts_at cs k st t" and "i < length (cl_workers (ts_native t))" and "client_run P i (ts_native t) = Some c"
  shows "\<exists>task. cl_workers (ts_native t) = [(k, task)] \<and> i = 0 \<and>
    (st = Called \<and> ts_at cs k Called (worker_done k c t) \<or>
     st = Watching \<and> (\<exists>v. ts_at cs k (Adopting v) (worker_done k c t)))"
proof -
  have ne: "cl_workers (ts_native t) \<noteq> []" using assms(2) by auto
  with assms(1) have st: "st = Called \<or> st = Watching" by (cases st) (auto simp: ts_at_def)
  then obtain task where w: "cl_workers (ts_native t) = [(k, task)]"
    using assms(1) ne by (auto simp: ts_at_def)
  with assms(2) have i: "i = 0" by simp
  obtain v where c: "cl_workers c = []" "cl_next c = cl_next (ts_native t)" "cl_settled c = cl_settled (ts_native t) @ [(k, v)]"
    using client_run_single [OF w] assms(3) i by blast
  from st show ?thesis
    using assms(1) ne w i c by (auto simp: ts_at_def worker_done_def settle_def proms_at_def split: if_splits)
qed

section \<open>The queue refines its specification\<close>

definition sim :: "fifo \<Rightarrow> ts \<Rightarrow> bool" where
  "sim f t \<longleftrightarrow> (\<exists>k st. ts_at (f_calls f) k st t \<and> f_begun f = stage_begun k st \<and> ts_native t = f_native f \<and> ts_heap t = f_heap f)"

definition fifo_init :: "client \<Rightarrow> fifo" where
  "fifo_init c = \<lparr>f_calls = [], f_begun = 0, f_native = c, f_heap = (\<lambda>_. JUndefined)\<rparr>"

lemma run_job_native:
  "ts_native (run_job P j t) = (case j of React (RunTask c d) v \<Rightarrow> native_call P (ts_heap t) c (ts_native t) | _ \<Rightarrow> ts_native t)"
proof -
  have "ts_native (then_p p r t) = ts_native t" "ts_native (settle p v t) = ts_native t" for p r v t
    by (simp_all add: then_p_def settle_def split: prom.split)
  then show ?thesis by (cases "(P, j, t)" rule: run_job.cases) (simp_all add: Let_def)
qed

lemma ts_heap_frame [simp]:
  "ts_heap (run_job P j t) = ts_heap t" "ts_heap (worker_done i c t) = ts_heap t"
  "ts_heap (enqueue x t) = ts_heap t" "ts_heap (ts_close t) = ts_heap t"
proof -
  have frame: "ts_heap (then_p p r t) = ts_heap t" "ts_heap (settle p v t) = ts_heap t" for p r v t
    by (simp_all add: then_p_def settle_def split: prom.split)
  then show "ts_heap (run_job P j t) = ts_heap t" by (cases "(P, j, t)" rule: run_job.cases) (simp_all add: Let_def)
  show "ts_heap (worker_done i c t) = ts_heap t" "ts_heap (enqueue x t) = ts_heap t" "ts_heap (ts_close t) = ts_heap t"
    by (simp_all add: worker_done_def enqueue_def ts_close_def frame Let_def)
qed

lemma worker_done_native: "ts_native (worker_done i c t) = c"
  by (simp add: worker_done_def settle_def split: prom.split)

lemma sim_job:
  assumes "sim f t" and "ts_jobs t = j # js"
  shows "\<exists>f'. (f' = f \<or> fifo_step P f f') \<and> f_calls f' = f_calls f \<and> sim f' (run_job P j (t\<lparr>ts_jobs := js\<rparr>))"
proof -
  obtain k st where at: "ts_at (f_calls f) k st t" and f: "f_begun f = stage_begun k st" "ts_native t = f_native f" "ts_heap t = f_heap f"
    using assms(1) by (auto simp: sim_def)
  have jobs: "stage_jobs (f_calls f) k st = j # js" using at assms(2) by (simp add: ts_at_def)
  then have js: "js = []" by (cases st) auto
  show ?thesis
  proof (cases st)
    case (Queued v)
    let ?f = "f\<lparr>f_begun := Suc (f_begun f), f_native := native_call P (f_heap f) (f_calls f ! f_begun f) (f_native f)\<rparr>"
    have "fifo_step P f ?f" using at f Queued by (intro fifo_begin) (auto simp: ts_at_def)
    moreover have "sim ?f (run_job P j (t\<lparr>ts_jobs := js\<rparr>))"
      using ts_at_queued [of "f_calls f" k v t P] at f jobs js Queued
      by (auto simp: sim_def run_job_native simp del: run_job.simps intro!: exI [of _ k] exI [of _ Called])
    ultimately show ?thesis by (intro exI [of _ ?f]) simp
  next
    case Called
    then show ?thesis using ts_at_called [of "f_calls f" k t P] at f jobs js
      by (intro exI [of _ f]) (auto simp: sim_def run_job_native simp del: run_job.simps intro!: exI [of _ k])
  next
    case (Adopting v)
    then show ?thesis using ts_at_adopting [of "f_calls f" k v t P] at f jobs js
      by (intro exI [of _ f]) (auto simp: sim_def run_job_native simp del: run_job.simps intro!: exI [of _ k])
  next
    case (Ending v)
    then show ?thesis using ts_at_ending [of "f_calls f" k v t P] at f jobs js
      by (intro exI [of _ f]) (auto simp: sim_def run_job_native simp del: run_job.simps intro!: exI [of _ "Suc k"]
          split: if_splits)
  qed (use jobs in auto)
qed

lemma sim_worker:
  assumes "sim f t" and "i < length (cl_workers (ts_native t))" and "client_run P i (ts_native t) = Some c"
  shows "\<exists>f'. fifo_step P f f' \<and> f_calls f' = f_calls f \<and> sim f' (worker_done (fst (cl_workers (ts_native t) ! i)) c t)"
proof -
  obtain k st where at: "ts_at (f_calls f) k st t" and f: "f_begun f = stage_begun k st" "ts_native t = f_native f" "ts_heap t = f_heap f"
    using assms(1) by (auto simp: sim_def)
  let ?f = "f\<lparr>f_native := c\<rparr>"
  obtain task where w: "cl_workers (ts_native t) = [(k, task)]" "i = 0" and
    st: "st = Called \<and> ts_at (f_calls f) k Called (worker_done k c t) \<or>
     st = Watching \<and> (\<exists>v. ts_at (f_calls f) k (Adopting v) (worker_done k c t))"
    using ts_at_worker [OF at assms(2,3)] by blast
  have "fifo_step P f ?f" using w assms(3) f st by (intro fifo_end) auto
  moreover have "sim ?f (worker_done k c t)"
    using st f by (auto simp: sim_def worker_done_native intro!: exI [of _ k])
  ultimately show ?thesis using w by (intro exI [of _ ?f]) simp
qed

lemma sim_enqueue: "sim f t \<Longrightarrow> sim (f\<lparr>f_calls := f_calls f @ [c]\<rparr>) (enqueue c t)"
proof -
  assume "sim f t"
  then obtain k st where at: "ts_at (f_calls f) k st t" and f: "f_begun f = stage_begun k st" "ts_native t = f_native f" "ts_heap t = f_heap f"
    by (auto simp: sim_def)
  have n: "ts_native (enqueue c t) = ts_native t"
    by (simp add: enqueue_def then_p_def Let_def split: prom.split)
  show ?thesis
  proof (cases "st = Idle")
    case True
    then show ?thesis using ts_at_enqueue_idle [of "f_calls f" k t c] at f
      by (auto simp: sim_def n intro!: exI [of _ k])
  next
    case False
    then show ?thesis using ts_at_enqueue_busy [OF at False, of c] f
      by (auto simp: sim_def n intro!: exI [of _ k] exI [of _ st])
  qed
qed

lemma sim_close: "sim f t \<Longrightarrow> sim (f\<lparr>f_native := client_close (f_native f)\<rparr>) (ts_close t)"
  using ts_at_close by (fastforce simp: sim_def ts_close_def)

lemma ts_at_write: "ts_at cs k st t \<Longrightarrow> ts_at cs k st (ts_write r v t)"
  by (cases st) (auto simp: ts_at_def ts_write_def proms_at_def)

lemma sim_write: "sim f t \<Longrightarrow> sim (f\<lparr>f_heap := (f_heap f)(r := v)\<rparr>) (ts_write r v t)"
  using ts_at_write by (fastforce simp: sim_def ts_write_def)

lemma ts_new_heap: "ts_new E w = Inr t0 \<Longrightarrow> ts_heap t0 = (\<lambda>_. JUndefined)"
  by (auto simp: ts_new_def split: prod.splits option.splits)

lemma sim_new: "ts_new E w = Inr t0 \<Longrightarrow> sim (fifo_init (ts_native t0)) t0"
  using ts_at_new [of E w t0] ts_new_heap [of E w t0]
  by (auto simp: sim_def fifo_init_def intro!: exI [of _ 0] exI [of _ Idle])

lemma sim_internal:
  assumes "sim f t" and "ts_internal P t t'"
  shows "\<exists>f'. (f' = f \<or> fifo_step P f f') \<and> f_calls f' = f_calls f \<and> sim f' t'"
  using assms(2)
proof cases
  case (int_job j js)
  then show ?thesis using sim_job [OF assms(1) int_job(2), of P] by simp
next
  case (int_worker i c)
  then show ?thesis using sim_worker [OF assms(1) int_worker(2,3)] by auto
qed

lemma ts_run_sim:
  assumes "ts_run P t0 cs t" and "ts_new E w = Inr t0"
  shows "\<exists>f. fifo_reachable P (fifo_init (ts_native t0)) f \<and> f_calls f = cs \<and> sim f t"
  using assms
proof (induction rule: ts_run.induct)
  case run_start
  then show ?case using sim_new by (auto simp: fifo_init_def intro: fifo_start)
next
  case (run_internal cs t t')
  then obtain f where f: "fifo_reachable P (fifo_init (ts_native t0)) f" "f_calls f = cs" "sim f t" by blast
  from sim_internal [OF f(3) run_internal.hyps(2)] obtain f' where "f' = f \<or> fifo_step P f f'" "f_calls f' = f_calls f" "sim f' t'" by blast
  then show ?case using f by (auto intro: fifo_next)
next
  case (run_enqueue cs t c)
  then obtain f where f: "fifo_reachable P (fifo_init (ts_native t0)) f" "f_calls f = cs" "sim f t" by blast
  from fifo_next [OF f(1) fifo_call [of P f c]] sim_enqueue [OF f(3), of c] f(2) show ?case
    by (intro exI [of _ "f\<lparr>f_calls := f_calls f @ [c]\<rparr>"]) simp
next
  case (run_close cs t)
  then obtain f where f: "fifo_reachable P (fifo_init (ts_native t0)) f" "f_calls f = cs" "sim f t" by blast
  from fifo_next [OF f(1) fifo_close] sim_close [OF f(3)] f(2) show ?case
    by (intro exI [of _ "f\<lparr>f_native := client_close (f_native f)\<rparr>"]) simp
next
  case (run_write cs t r v)
  then obtain f where f: "fifo_reachable P (fifo_init (ts_native t0)) f" "f_calls f = cs" "sim f t" by blast
  from fifo_next [OF f(1) fifo_write] sim_write [OF f(3)] f(2) show ?case
    by (intro exI [of _ "f\<lparr>f_heap := (f_heap f)(r := v)\<rparr>"]) simp
qed

section \<open>What the specification guarantees\<close>

lemma native_call_step: "client_step P c (native_call P h x c)"
  by (cases x) (auto intro: step_call)

lemma fifo_step_native: "fifo_step P f f' \<Longrightarrow> f_native f' = f_native f \<or> client_step P (f_native f) (f_native f')"
  by (induction rule: fifo_step.induct) (auto intro: step_close native_call_step step_run [of 0])

lemma fifo_reachable_native: "fifo_reachable P f0 f \<Longrightarrow> client_reachable P (f_native f0) (f_native f)"
proof (induction rule: fifo_reachable.induct)
  case (fifo_next f f')
  then show ?case using fifo_step_native [OF fifo_next.hyps(2)] by (auto intro: reach_step)
qed (rule reach_start)

lemma sim_facts:
  assumes "sim f t"
  shows "ts_native t = f_native f" "length (cl_workers (ts_native t)) \<le> 1"
    "ts_proms t (Result i) = Settled v \<Longrightarrow> (i, v) \<in> set (cl_settled (ts_native t))"
proof -
  obtain k st where at: "ts_at (f_calls f) k st t" and "ts_native t = f_native f"
    using assms by (auto simp: sim_def)
  then show "ts_native t = f_native f" by simp
  show "length (cl_workers (ts_native t)) \<le> 1" using at by (cases st) (auto simp: ts_at_def)
  have p: "proms_at (f_calls f) k (stage_results k st) t" using at by (simp add: ts_at_def)
  show "ts_proms t (Result i) = Settled v \<Longrightarrow> (i, v) \<in> set (cl_settled (ts_native t))"
    using proms_atD(3,4) [OF p, of i] by (cases "i < stage_results k st") auto
qed

section \<open>All calls are settled in the end\<close>

text \<open>An upper bound on the internal steps that are left: the microtasks, the workers, the pending promises.\<close>

fun job_weight :: "job \<Rightarrow> nat" where
  "job_weight (React (RunTask c d) v) = 5"
| "job_weight (React (Undef d) v) = 1"
| "job_weight (React (Adopt d) v) = 1"
| "job_weight (Subscribe p d) = 2"

fun is_pending :: "prom \<Rightarrow> bool" where
  "is_pending (Pending rs) = True"
| "is_pending (Settled v) = False"

definition work :: "ts \<Rightarrow> nat" where
  "work t = sum_list (map job_weight (ts_jobs t)) + 2 * length (cl_workers (ts_native t))
     + length (filter (\<lambda>i. is_pending (ts_proms t (Result i))) [0..<ts_count t])
     + 5 * length (filter (\<lambda>i. is_pending (ts_proms t (Chain i))) [0..<Suc (ts_count t)])"

lemma length_filter_ge: "m \<le> n \<Longrightarrow> length (filter (\<lambda>i. m \<le> i) [0..<n]) = n - m"
proof (induction n)
  case (Suc n)
  then show ?case by (cases "m = Suc n") auto
qed simp

fun stage_work :: "ts \<Rightarrow> stage \<Rightarrow> nat" where
  "stage_work t Idle = 0"
| "stage_work t (Queued v) = 5"
| "stage_work t Called = 2 + 2 * length (cl_workers (ts_native t))"
| "stage_work t Watching = 2"
| "stage_work t (Adopting v) = 1"
| "stage_work t (Ending v) = 1"

lemma work_at:
  assumes "ts_at cs k st t"
  shows "work t = stage_work t st + (length cs - stage_results k st) + 5 * (length cs - k)"
proof -
  have le: "k \<le> length cs" "stage_results k st \<le> length cs"
    using assms by (cases st; auto simp: ts_at_def)+
  have p: "proms_at cs k (stage_results k st) t" using assms by (simp add: ts_at_def)
  have "is_pending (ts_proms t (Result i)) \<longleftrightarrow> stage_results k st \<le> i" for i
    using proms_atD(3,4) [OF p, of i] by (cases "i < stage_results k st") auto
  moreover have "is_pending (ts_proms t (Chain i)) \<longleftrightarrow> Suc k \<le> i" for i
    using proms_atD(1,2) [OF p, of i] by (cases "i \<le> k") auto
  ultimately have "work t = sum_list (map job_weight (ts_jobs t)) + 2 * length (cl_workers (ts_native t))
     + (length cs - stage_results k st) + 5 * (length cs - k)"
    using assms le length_filter_ge [of "stage_results k st" "length cs"] length_filter_ge [of "Suc k" "Suc (length cs)"]
    by (simp add: work_def ts_at_def del: upt_Suc)
  moreover have "sum_list (map job_weight (ts_jobs t)) + 2 * length (cl_workers (ts_native t)) = stage_work t st"
    using assms by (cases st) (auto simp: ts_at_def)
  ultimately show ?thesis by simp
qed

lemma internal_step_work:
  assumes "sim f t" and "ts_internal P t t'"
  shows "work t' < work t"
proof -
  obtain k st where at: "ts_at (f_calls f) k st t" using assms(1) by (auto simp: sim_def)
  have k: "st \<noteq> Idle \<Longrightarrow> k < length (f_calls f)" using at by (simp add: ts_at_def)
  note w = work_at [OF at]
  show ?thesis using assms(2)
  proof cases
    case (int_job j js)
    then have jobs: "stage_jobs (f_calls f) k st = j # js" using at by (simp add: ts_at_def)
    then have js: "js = []" by (cases st) auto
    show ?thesis
    proof (cases st)
      case (Queued v)
      with jobs int_job(1) js ts_at_queued [of "f_calls f" k v t P] at have at': "ts_at (f_calls f) k Called t'" by auto
      then have "length (cl_workers (ts_native t')) \<le> 1" by (auto simp: ts_at_def)
      with work_at [OF at'] w Queued show ?thesis by simp
    next
      case Called
      with jobs int_job(1) js ts_at_called [of "f_calls f" k t P] at
      have "ts_at (f_calls f) k Watching t' \<or> (\<exists>v. ts_at (f_calls f) k (Adopting v) t')" by auto
      moreover have "length (cl_workers (ts_native t')) = length (cl_workers (ts_native t))"
        using jobs int_job(1) js Called by (auto simp: then_p_def split: prom.split)
      moreover have "ts_at (f_calls f) k Watching t' \<Longrightarrow> length (cl_workers (ts_native t')) = 1" by (auto simp: ts_at_def)
      ultimately show ?thesis using w Called work_at [of "f_calls f" k Watching t'] work_at [of "f_calls f" k _ t']
        by fastforce
    next
      case (Adopting v)
      with jobs int_job(1) js ts_at_adopting [of "f_calls f" k v t P] at have at': "ts_at (f_calls f) k (Ending v) t'" by auto
      with work_at [OF at'] w Adopting k show ?thesis by simp
    next
      case (Ending v)
      with jobs int_job(1) js ts_at_ending [of "f_calls f" k v t P] at have at': "ts_at (f_calls f) (Suc k)
          (if Suc k = length (f_calls f) then Idle else Queued (Resolved JUndefined)) t'" by auto
      with work_at [OF at'] w Ending k show ?thesis by (auto split: if_splits)
    qed (use jobs in auto)
  next
    case (int_worker i c)
    obtain task where cw: "cl_workers (ts_native t) = [(k, task)]" and i: "i = 0" and
      st: "st = Called \<and> ts_at (f_calls f) k Called (worker_done k c t) \<or>
       st = Watching \<and> (\<exists>v. ts_at (f_calls f) k (Adopting v) (worker_done k c t))"
      using ts_at_worker [OF at int_worker(2,3)] by blast
    have t': "t' = worker_done k c t" using int_worker(1) cw i by simp
    have "cl_workers c = []" using client_run_single [OF cw, of P c] int_worker(3) i by simp
    then have "cl_workers (ts_native t') = []" by (simp add: t' worker_done_native)
    with st w cw show ?thesis by (auto simp: t' dest!: work_at)
  qed
qed

lemma blocked_cases:
  assumes "sim f t" and "\<And>t'. \<not> ts_internal P t t'"
  shows "(\<forall>i < ts_count t. \<exists>v. ts_proms t (Result i) = Settled v) \<or>
    (\<exists>x. cl_workers (ts_native t) = [x] \<and> client_run P 0 (ts_native t) = None)"
proof -
  obtain k st where at: "ts_at (f_calls f) k st t" using assms(1) by (auto simp: sim_def)
  have jobs: "ts_jobs t = []" using assms(2) int_job [of t] by (cases "ts_jobs t") auto
  show ?thesis
  proof (cases st)
    case Idle
    then show ?thesis using at proms_atD(3) [of "f_calls f" k k t] by (auto simp: ts_at_def)
  next
    case Watching
    then obtain task where w: "cl_workers (ts_native t) = [(k, task)]" using at by (auto simp: ts_at_def)
    with assms(2) int_worker [of 0 t P] have "client_run P 0 (ts_native t) = None" by fastforce
    with w show ?thesis by blast
  qed (use at jobs in \<open>auto simp: ts_at_def\<close>)
qed

lemma sim_count: "sim f t \<Longrightarrow> ts_count t = length (f_calls f)"
  by (auto simp: sim_def ts_at_def)

text \<open>The queue at work on the calls \<open>cs\<close> simulates the specification's steps, and comes to an end.\<close>

interpretation serving: terminating "ts_internal P" "\<lambda>t. \<exists>f. sim f t \<and> f_calls f = cs" work
proof unfold_locales
  show "\<exists>f. sim f u \<and> f_calls f = cs" if pre: "\<exists>f. sim f t \<and> f_calls f = cs" and step: "ts_internal P t u" for t u
  proof -
    from pre obtain f where f: "sim f t" "f_calls f = cs" by blast
    from sim_internal [OF f(1) step] f(2) show ?thesis by auto
  qed
  show "work u < work t" if pre: "\<exists>f. sim f t \<and> f_calls f = cs" and step: "ts_internal P t u" for t u
  proof -
    from pre obtain f where f: "sim f t" by blast
    show ?thesis by (rule internal_step_work [OF f step])
  qed
qed

interpretation refined: simulation "ts_internal P" "fifo_step P" sim
proof unfold_locales
  fix f t u
  assume "sim f t" and "ts_internal P t u"
  from sim_internal [OF this] obtain g where "g = f \<or> fifo_step P f g" "sim g u" by blast
  then show "\<exists>g. steps (fifo_step P) f g \<and> sim g u" using steps_single [of "fifo_step P" f g] by auto
qed

section \<open>Properties\<close>

text \<open>
  C3: the queue in front of the native client refines a first-in first-out queue. However calls,
  microtasks, ends of workers and closes interleave, the native client is in a state it also
  reaches when the calls are made on it in their order, each only after the worker of the one
  before is done; so at most one worker is in flight, and exchanges on the netlink socket never
  overlap. A call's promise is settled with the outcome of that very call.
\<close>

theorem wrapper_is_fifo:
  assumes "ts_new E w = Inr t0" and "ts_run P t0 cs t"
  shows "\<exists>f. fifo_reachable P (fifo_init (ts_native t0)) f \<and> f_calls f = cs \<and> f_native f = ts_native t
    \<and> client_reachable P (ts_native t0) (ts_native t)
    \<and> length (cl_workers (ts_native t)) \<le> 1
    \<and> (\<forall>i v. ts_proms t (Result i) = Settled v \<longrightarrow> (i, v) \<in> set (cl_settled (ts_native t)))"
proof -
  obtain f where f: "fifo_reachable P (fifo_init (ts_native t0)) f" "f_calls f = cs" "sim f t"
    using ts_run_sim [OF assms(2,1)] by blast
  have "client_reachable P (ts_native t0) (ts_native t)"
    using fifo_reachable_native [OF f(1)] sim_facts(1) [OF f(3)] by (simp add: fifo_init_def)
  with f sim_facts [OF f(3)] show ?thesis by (intro exI [of _ f]) auto
qed

text \<open>A new client on which two calls were made at once.\<close>

definition two_calls :: "call list" where
  "two_calls = [Call M_devices [], Call M_device [Value (JString ''wg0'')]]"

lemma example_new: "\<exists>t0. ts_new ack_env idle_world = Inr t0 \<and> ts_proms t0 (Chain 0) = Settled (Resolved JUndefined)
    \<and> ts_jobs t0 = [] \<and> ts_queue t0 = Chain 0 \<and> ts_count t0 = 0 \<and> cl_holds (ts_native t0) \<and> cl_next (ts_native t0) = 0"
  by (simp add: ts_new_def client_new_def NlSocket_new_def sk_open_def ack_env_def)

lemma example_run: "ts_run P t0 two_calls (enqueue (Call M_device [Value (JString ''wg0'')]) (enqueue (Call M_devices []) t0))"
  using run_enqueue [OF run_enqueue [OF run_start, of P t0 "Call M_devices []"], of "Call M_device [Value (JString ''wg0'')]"]
  by (simp add: two_calls_def)

theorem wrapper_is_fifo_witness:
  "\<exists>t0 t f. ts_new ack_env idle_world = Inr t0 \<and> ts_run (example_libs ack_env) t0 two_calls t
    \<and> fifo_reachable (example_libs ack_env) (fifo_init (ts_native t0)) f \<and> f_calls f = two_calls \<and> f_native f = ts_native t"
proof -
  obtain t0 where t0: "ts_new ack_env idle_world = Inr t0" using example_new by blast
  from wrapper_is_fifo [OF t0 example_run] t0 example_run show ?thesis by blast
qed

text \<open>
  C13: no call is forgotten, whether those before it succeed or fail: when no further call is made,
  the microtasks and the ends of workers cannot go on for ever, and wherever they stop, the
  promise of every call is settled, unless the one worker in flight never returns.
\<close>

theorem wrapper_settles_all:
  assumes "ts_new E w = Inr t0" and "ts_run P t0 cs t"
  shows "(\<forall>f. f 0 = t \<longrightarrow> (\<exists>n. \<not> ts_internal P (f n) (f (Suc n))))
    \<and> (\<exists>u. steps (ts_internal P) t u \<and> (\<forall>v. \<not> ts_internal P u v))
    \<and> (\<forall>u. steps (ts_internal P) t u \<longrightarrow> (\<forall>v. \<not> ts_internal P u v) \<longrightarrow>
         (\<forall>i < length cs. \<exists>v. ts_proms u (Result i) = Settled v) \<or>
         (\<exists>x. cl_workers (ts_native u) = [x] \<and> client_run P 0 (ts_native u) = None))"
proof -
  obtain f where f: "sim f t" "f_calls f = cs" using ts_run_sim [OF assms(2,1)] by blast
  have "(\<forall>i < length cs. \<exists>v. ts_proms u (Result i) = Settled v) \<or>
      (\<exists>x. cl_workers (ts_native u) = [x] \<and> client_run P 0 (ts_native u) = None)"
    if u: "steps (ts_internal P) t u" and stuck: "\<And>v. \<not> ts_internal P u v" for u
  proof -
    obtain g where "sim g u \<and> f_calls g = cs" using serving.steps_keep [OF u, of cs] f by blast
    then show ?thesis using blocked_cases [of g u P, OF _ stuck] sim_count [of g u] by auto
  qed
  then show ?thesis using serving.no_infinite_run [where cs = cs and P = P] serving.runs_to_end [where cs = cs and s = t and P = P] f by blast
qed

theorem wrapper_settles_all_witness:
  "\<exists>t0 t u. ts_new ack_env idle_world = Inr t0 \<and> ts_run (example_libs ack_env) t0 two_calls t
    \<and> (\<exists>t'. ts_internal (example_libs ack_env) t t')
    \<and> steps (ts_internal (example_libs ack_env)) t u \<and> (\<forall>v. \<not> ts_internal (example_libs ack_env) u v)"
proof -
  let ?P = "example_libs ack_env"
  obtain t0 where t0: "ts_new ack_env idle_world = Inr t0" using example_new by blast
  let ?t = "enqueue (Call M_device [Value (JString ''wg0'')]) (enqueue (Call M_devices []) t0)"
  obtain v where "ts_at [Call M_devices []] 0 (Queued v) (enqueue (Call M_devices []) t0)"
    using ts_at_enqueue_idle [OF ts_at_new [OF t0]] by auto
  from ts_at_enqueue_busy [OF this, of "Call M_device [Value (JString ''wg0'')]"]
  have at: "ts_at two_calls 0 (Queued v) ?t" by (simp add: two_calls_def)
  then have "ts_jobs ?t = [React (RunTask (two_calls ! 0) (Result 0)) v]" by (simp add: ts_at_def)
  from int_job [OF this, of ?P] wrapper_settles_all [OF t0 example_run, of ?P] t0 example_run
  show ?thesis by blast
qed

text \<open>
  The configuration object is read when the queue comes to the call, not when the method is called:
  even on an idle client, a change the caller makes to the object after the call, in the same turn,
  changes what the native client is given.
\<close>

theorem changed_argument_is_applied:
  assumes "ts_new E w = Inr t0" and "ts_run P t0 cs t" and "ts_jobs t = []" and "cl_workers (ts_native t) = []"
    and "ts_internal P (ts_write r v (enqueue (Call M_configureDevice [Value (JString name), Object r]) t)) t'"
  shows "ts_native t' = client_call P M_configureDevice [JString name, v] (ts_native t)"
proof -
  let ?c = "Call M_configureDevice [Value (JString name), Object r]"
  let ?t = "ts_write r v (enqueue ?c t)"
  obtain f where "f_calls f = cs" "sim f t" using ts_run_sim [OF assms(2,1)] by blast
  then obtain k st where at: "ts_at cs k st t" by (auto simp: sim_def)
  have "st = Idle" using at assms(3,4) by (cases st) (auto simp: ts_at_def)
  then obtain u where "ts_at (cs @ [?c]) k (Queued u) (enqueue ?c t)" using ts_at_enqueue_idle at by blast
  then have "ts_at (cs @ [?c]) k (Queued u) ?t" by (rule ts_at_write)
  moreover have "k = length cs" using at \<open>st = Idle\<close> by (simp add: ts_at_def)
  ultimately have jobs: "ts_jobs ?t = [React (RunTask ?c (Result k)) u]" by (simp add: ts_at_def)
  have native: "ts_native ?t = ts_native t"
    by (simp add: ts_write_def enqueue_def then_p_def Let_def split: prom.split)
  show ?thesis using assms(5)
  proof (cases rule: ts_internal.cases)
    case (int_job j js)
    then show ?thesis using jobs native by (simp add: ts_write_def Let_def)
  next
    case (int_worker i c)
    then show ?thesis using native assms(4) by simp
  qed
qed

theorem changed_argument_is_applied_witness:
  "\<exists>t0 t'. ts_new ack_env idle_world = Inr t0
    \<and> ts_internal (example_libs ack_env) (ts_write 0 JNull
        (enqueue (Call M_configureDevice [Value (JString ''wg0''), Object 0]) (ts_write 0 (JObject []) t0))) t'
    \<and> ts_native t' = client_call (example_libs ack_env) M_configureDevice [JString ''wg0'', JNull] (ts_native t0)"
proof -
  obtain t0 where t0: "ts_new ack_env idle_world = Inr t0" "ts_proms t0 (Chain 0) = Settled (Resolved JUndefined)"
    "ts_jobs t0 = []" "ts_queue t0 = Chain 0" using example_new by blast
  let ?c = "Call M_configureDevice [Value (JString ''wg0''), Object 0]"
  let ?t = "ts_write 0 JNull (enqueue ?c (ts_write 0 (JObject []) t0))"
  have run: "ts_run (example_libs ack_env) t0 [] (ts_write 0 (JObject []) t0)" by (intro run_write run_start)
  have "cl_workers (ts_native t0) = []" using ts_at_new [OF t0(1)] by (simp add: ts_at_def)
  moreover have "ts_jobs ?t \<noteq> []"
    using t0(2-4) by (simp add: ts_write_def enqueue_def then_p_def Let_def split: prom.split)
  then obtain t' where t': "ts_internal (example_libs ack_env) ?t t'"
    using int_job [of ?t] by (cases "ts_jobs ?t") auto
  ultimately have "ts_native t' = client_call (example_libs ack_env) M_configureDevice [JString ''wg0'', JNull]
      (ts_native (ts_write 0 (JObject []) t0))"
    using changed_argument_is_applied [OF t0(1) run _ _ t'] t0(3) by (simp add: ts_write_def)
  with t0(1) t' show ?thesis by (auto simp: ts_write_def)
qed

end
