(* ===== verification/TsKeys.thy ===== *)
theory TsKeys imports Client begin

text \<open>
  The key functions \<open>src/lib/index.ts\<close> exports, which pass their arguments to the functions the
  native module registered under the same names.
\<close>

section \<open>Calls into the module\<close>

text \<open>What calling an export runs; the class is no plain function. \<open>ssl\<close> and \<open>rng\<close> are OpenSSL.\<close>

fun call_export :: "(nat \<Rightarrow> int \<times> bytes) \<Rightarrow> 'p openssl \<Rightarrow> export \<Rightarrow> js list \<Rightarrow> js_return option" where
  "call_export rng ssl GeneratePrivateKeyFn info = Some (GeneratePrivateKeyJs rng)"
| "call_export rng ssl GeneratePresharedKeyFn info = Some (GeneratePresharedKeyJs rng)"
| "call_export rng ssl PublicKeyFn info = Some (PublicKeyJs ssl info)"
| "call_export rng ssl (WireGuardClientClass ms) info = None"

definition native_function :: "(nat \<Rightarrow> int \<times> bytes) \<Rightarrow> 'p openssl \<Rightarrow> string \<Rightarrow> js list \<Rightarrow> js_return option" where
  "native_function rng ssl name info =
     (case map_of (Init []) name of None \<Rightarrow> None | Some e \<Rightarrow> call_export rng ssl e info)"

definition generatePrivateKey :: "(nat \<Rightarrow> int \<times> bytes) \<Rightarrow> 'p openssl \<Rightarrow> js_return option" where
  "generatePrivateKey rng ssl = native_function rng ssl ''generatePrivateKey'' []"

definition generatePresharedKey :: "(nat \<Rightarrow> int \<times> bytes) \<Rightarrow> 'p openssl \<Rightarrow> js_return option" where
  "generatePresharedKey rng ssl = native_function rng ssl ''generatePresharedKey'' []"

definition publicKey_ts :: "(nat \<Rightarrow> int \<times> bytes) \<Rightarrow> 'p openssl \<Rightarrow> js \<Rightarrow> js_return option" where
  "publicKey_ts rng ssl key = native_function rng ssl ''publicKey'' [key]"

lemma ts_key_functions:
  "generatePrivateKey rng ssl = Some (GeneratePrivateKeyJs rng)"
  "generatePresharedKey rng ssl = Some (GeneratePresharedKeyJs rng)"
  "publicKey_ts rng ssl key = Some (PublicKeyJs ssl [key])"
  by (simp_all add: generatePrivateKey_def generatePresharedKey_def publicKey_ts_def native_function_def
      Init_def WireGuardClient_Init_def)

section \<open>Properties\<close>

text \<open>
  C35: the keys the API hands out fit its other functions. A generated private key is the base64
  text of a clamped Curve25519 scalar; a configuration with it is accepted with exactly those
  bytes; \<open>publicKey\<close> of it is the base64 text of what OpenSSL derives from that very scalar, or
  throws what OpenSSL's calls end in; and a peer with that public key and a generated preshared
  key is accepted with exactly the bytes that were derived and generated.
\<close>

theorem generated_keys_fit:
  assumes "generatePrivateKey rng ssl = Some (Returns t)" and "generatePresharedKey rng' ssl = Some (Returns u)"
  shows "\<exists>k psk. is_key k \<and> (k ! 0) AND 7 = 0 \<and> \<not> bit (k ! 31) 7 \<and> bit (k ! 31) 6
    \<and> t = JString (KeyToBase64 k) \<and> u = JString (KeyToBase64 psk)
    \<and> ConfigFromJs L (JObject [(''privateKey'', t)]) = Inr (default_config\<lparr>cfg_privateKey := Some k\<rparr>)
    \<and> (case PublicKeyFromPrivate ssl k of
         Inl e \<Rightarrow> publicKey_ts rng'' ssl t = Some (ThrowsError (what e))
       | Inr pub \<Rightarrow> publicKey_ts rng'' ssl t = Some (Returns (JString (KeyToBase64 pub)))
           \<and> (\<exists>p. PeerConfigFromJs L (JObject [(''publicKey'', JString (KeyToBase64 pub)), (''presharedKey'', u)]) = Inr p
                \<and> pc_publicKey p = pub \<and> pc_presharedKey p = Some psk))"
proof -
  obtain k where k: "GeneratePrivateKey rng = Inr k" "t = JString (KeyToBase64 k)"
    using assms(1) by (auto simp: ts_key_functions GeneratePrivateKeyJs_def split: sum.splits)
  obtain psk where psk: "GeneratePresharedKey rng' = Inr psk" "u = JString (KeyToBase64 psk)"
    using assms(2) by (auto simp: ts_key_functions GeneratePresharedKeyJs_def split: sum.splits)
  have clamp: "is_key k" "(k ! 0) AND 7 = 0" "\<not> bit (k ! 31) 7" "bit (k ! 31) 6"
    using GeneratePrivateKey_clamped [OF k(1)] by auto
  have "is_key psk" using psk(1) by (auto simp: GeneratePresharedKey_def split: prod.splits if_splits)
  note keys = KeyFromBase64_KeyToBase64 [OF clamp(1)] KeyFromBase64_KeyToBase64 [OF this]
  have cfg: "ConfigFromJs L (JObject [(''privateKey'', t)]) = Inr (default_config\<lparr>cfg_privateKey := Some k\<rparr>)"
    by (simp add: ConfigFromJs_def js_get_defs opt_res_def k(2) keys default_config_def)
  have "case PublicKeyFromPrivate ssl k of
         Inl e \<Rightarrow> publicKey_ts rng'' ssl t = Some (ThrowsError (what e))
       | Inr pub \<Rightarrow> publicKey_ts rng'' ssl t = Some (Returns (JString (KeyToBase64 pub)))
           \<and> (\<exists>p. PeerConfigFromJs L (JObject [(''publicKey'', JString (KeyToBase64 pub)), (''presharedKey'', u)]) = Inr p
                \<and> pc_publicKey p = pub \<and> pc_presharedKey p = Some psk)"
  proof (cases "PublicKeyFromPrivate ssl k")
    case (Inl e)
    then show ?thesis by (simp add: ts_key_functions PublicKeyJs_def GetStringArg_def k(2) keys)
  next
    case (Inr pub)
    note pub = KeyFromBase64_KeyToBase64 [OF PublicKeyFromPrivate_is_key [OF Inr]]
    show ?thesis using Inr
      by (simp add: ts_key_functions PublicKeyJs_def GetStringArg_def k(2) psk(2) keys pub
          PeerConfigFromJs_def RequireString_def js_get_defs opt_res_def)
  qed
  with clamp k(2) psk(2) cfg show ?thesis by blast
qed

text \<open>A generator that writes zeros, and an OpenSSL that derives a key of ones.\<close>

theorem generated_keys_fit_witness:
  "\<exists>t u. generatePrivateKey (\<lambda>n. (1, replicate n 0)) \<lparr>new_raw_private_key = \<lambda>_. Some (), get_raw_public_key = \<lambda>_. (1, replicate 32 1, 32)\<rparr>
      = Some (Returns t)
    \<and> generatePresharedKey (\<lambda>n. (1, replicate n 0)) \<lparr>new_raw_private_key = \<lambda>_. Some (), get_raw_public_key = \<lambda>_. (1, replicate 32 1, 32)\<rparr>
      = Some (Returns u)
    \<and> (\<exists>k. ConfigFromJs ref_inet (JObject [(''privateKey'', t)]) = Inr (default_config\<lparr>cfg_privateKey := Some k\<rparr>) \<and> bit (k ! 31) 6)"
proof -
  let ?rng = "\<lambda>n. (1 :: int, replicate n (0 :: u8))"
  let ?ssl = "\<lparr>new_raw_private_key = \<lambda>_. Some (), get_raw_public_key = \<lambda>_. (1, replicate 32 1, 32)\<rparr> :: unit openssl"
  obtain t where t: "generatePrivateKey ?rng ?ssl = Some (Returns t)"
    by (simp add: ts_key_functions GeneratePrivateKeyJs_def GeneratePrivateKey_def)
  obtain u where u: "generatePresharedKey ?rng ?ssl = Some (Returns u)"
    by (simp add: ts_key_functions GeneratePresharedKeyJs_def GeneratePresharedKey_def)
  from generated_keys_fit [OF t u, of ref_inet ?rng] t u show ?thesis by blast
qed

end
