(* ===== verification/Listing.thy ===== *)
theory Listing imports Client begin

text \<open>
  \<open>devices()\<close> of \<open>src/src/WireGuardClient.cpp\<close>: the interfaces of both backends, each fetched
  once. The order in which \<open>std::unordered_set\<close> yields its elements is a parameter; that it
  yields each of them once is the hypothesis \<open>set_order_ok\<close>.
\<close>

definition set_order_ok :: "(string list \<Rightarrow> string list) \<Rightarrow> bool" where
  "set_order_ok ord \<longleftrightarrow> (\<forall>xs. distinct (ord xs) \<and> set (ord xs) = set xs)"

section \<open>The names\<close>

lemma foldl_filter: "foldl (\<lambda>names n. if P n then names else if Q n then names @ [n] else names) acc xs =
    acc @ filter (\<lambda>n. \<not> P n \<and> Q n) xs"
  by (induction xs arbitrary: acc) auto

lemma ListWireGuardInterfaceNames_Inr:
  "ListWireGuardInterfaceNames E w = Inr ns \<longleftrightarrow>
   (\<exists>entries. open_dir E w sys_class_net = Inr entries \<and>
     ns = filter (\<lambda>n. \<not> (n = ''.'' \<or> n = ''..'') \<and> stat_ok E w (''/sys/class/net/'' @ n @ ''/wireguard'')) entries)"
  unfolding ListWireGuardInterfaceNames_def foldl_filter by (auto split: sum.splits)

lemma set_ListInterfaceNames:
  "set (ListInterfaceNames E w) = {n. valid_ifname n \<and> (\<exists>entries. open_dir E w kSocketDir = Inr entries \<and> n @ ''.sock'' \<in> set entries)}"
proof (cases "open_dir E w kSocketDir")
  case (Inr entries)
  have "n \<in> set (ListInterfaceNames E w)" if "valid_ifname n" "n @ ''.sock'' \<in> set entries" for n
  proof -
    have "take (length (n @ ''.sock'') - 5) (n @ ''.sock'') = n" by simp
    then show ?thesis using that by (force simp: ListInterfaceNames_eq Inr image_iff)
  qed
  then show ?thesis by (auto simp: ListInterfaceNames_eq Inr)
qed (simp add: ListInterfaceNames_eq)

section \<open>The fetches\<close>

lemma fetch_all_Inr:
  "fetch_all P ns st = (Some (Inr ds), st') \<Longrightarrow>
   list_all2 (\<lambda>n d. \<exists>st1 st2. FetchDevice P n st1 = (Some (Inr d), st2)) ns ds"
proof (induction ns arbitrary: st ds)
  case (Cons n ns)
  from Cons.prems obtain d st1 ds' where "FetchDevice P n st = (Some (Inr d), st1)"
    "fetch_all P ns st1 = (Some (Inr ds'), st')" "ds = d # ds'" by (auto simp: io_bind_Inr)
  with Cons.IH [of st1 ds'] show ?case unfolding \<open>ds = d # ds'\<close> list_all2_Cons by blast
qed simp

lemma FetchDevice_valid: "FetchDevice P n st = (Some (Inr d), st') \<Longrightarrow> valid_ifname n"
  by (cases n rule: ValidateIfName_cases) (auto simp: FetchDevice_def io_bind_def io_read_def HasSocket_invalid)

section \<open>Properties\<close>

text \<open>
  C14: when \<open>devices()\<close> succeeds, it yields each interface exactly once and no other: the entries
  of \<open>/sys/class/net\<close> with a \<open>wireguard\<close> directory, and the names of the control sockets that
  are valid interface names, even where an interface is found both ways. Each device in the
  array was fetched under its name, and every name was a valid one.
\<close>

theorem devices_each_once:
  assumes "set_order_ok (l_order P)" and "run_task P TDevices (s, w) = (Some (Inr v), st')"
  shows "\<exists>names ds links. open_dir (l_os P) w sys_class_net = Inr links
    \<and> distinct names
    \<and> set names = {n \<in> set links. n \<noteq> ''.'' \<and> n \<noteq> ''..'' \<and> stat_ok (l_os P) w (''/sys/class/net/'' @ n @ ''/wireguard'')}
        \<union> {n. valid_ifname n \<and> (\<exists>socks. open_dir (l_os P) w kSocketDir = Inr socks \<and> n @ ''.sock'' \<in> set socks)}
    \<and> list_all2 (\<lambda>n d. valid_ifname n \<and> (\<exists>st1 st2. FetchDevice P n st1 = (Some (Inr d), st2))) names ds
    \<and> v = JArray (map DeviceToJs ds)"
proof -
  from assms(2) obtain ds st1 where "FetchDevices P (s, w) = (Some (Inr ds), st1)" and v: "v = JArray (map DeviceToJs ds)"
    by (auto simp: io_map_def io_bind_Inr)
  then obtain kn where kn: "ListWireGuardInterfaceNames (l_os P) w = Inr kn"
    and all: "fetch_all P (l_order P (kn @ ListInterfaceNames (l_os P) w)) (s, w) = (Some (Inr ds), st1)"
    by (auto simp: FetchDevices_def io_bind_Inr io_read_def)
  let ?names = "l_order P (kn @ ListInterfaceNames (l_os P) w)"
  have names: "distinct ?names" "set ?names = set kn \<union> set (ListInterfaceNames (l_os P) w)"
    using assms(1) by (simp_all add: set_order_ok_def)
  obtain links where links: "open_dir (l_os P) w sys_class_net = Inr links"
    "kn = filter (\<lambda>n. \<not> (n = ''.'' \<or> n = ''..'') \<and> stat_ok (l_os P) w (''/sys/class/net/'' @ n @ ''/wireguard'')) links"
    using kn by (auto simp: ListWireGuardInterfaceNames_Inr)
  have fetched: "list_all2 (\<lambda>n d. valid_ifname n \<and> (\<exists>st1 st2. FetchDevice P n st1 = (Some (Inr d), st2))) ?names ds"
    using fetch_all_Inr [OF all] by (rule list_all2_mono) (blast dest: FetchDevice_valid)
  have "set ?names = {n \<in> set links. n \<noteq> ''.'' \<and> n \<noteq> ''..'' \<and> stat_ok (l_os P) w (''/sys/class/net/'' @ n @ ''/wireguard'')}
        \<union> {n. valid_ifname n \<and> (\<exists>socks. open_dir (l_os P) w kSocketDir = Inr socks \<and> n @ ''.sock'' \<in> set socks)}"
    unfolding names(2) set_ListInterfaceNames by (auto simp: links(2))
  with links(1) names(1) fetched v show ?thesis by blast
qed

text \<open>One control socket, whose server closes without a word.\<close>

definition listing_env :: os_env where
  "listing_env = silent_env\<lparr>open_dir := \<lambda>_ d. Inr (if d = kSocketDir then [''wg0.sock'', ''.sock''] else [])\<rparr>"

definition silent_device :: device where
  "silent_device = default_device\<lparr>dev_name := ''wg0'', userspace := True\<rparr>"

lemma listing_fetch: "\<exists>st'. FetchDevice (example_libs listing_env) ''wg0'' (example_socket, idle_world) = (Some (Inr silent_device), st')"
proof -
  let ?r = BuildGetRequest
  have path: "SocketPath ''wg0'' = Inr (kSocketDir @ ''/wg0.sock'')"
    by (simp add: SocketPath_Inr_iff valid_ifname_def code_def)
  have sock: "HasSocket listing_env ''wg0'' w = Inr True" for w
    by (simp add: HasSocket_def path listing_env_def silent_env_def)
  have short: "\<not> sun_path_size \<le> length (kSocketDir @ ''/wg0.sock'')" by (simp add: sun_path_size_def kSocketDir_def)
  have "?r \<noteq> []" by (simp add: BuildGetRequest_def)
  then have wr: "write_all listing_env 3 ?r 0 w = Some (Inr (), log_write 3 ?r w)" for w
    by (subst write_all.simps, subst write_all.simps) (simp add: listing_env_def silent_env_def ack_env_def)
  have rd: "read_all listing_env 3 [] w = (Inr [], w)" for w
    by (subst read_all_step) (simp add: listing_env_def silent_env_def)
  have "ux_socket listing_env w = Inr 3" "ux_rcvtimeo listing_env w fd = None" "ux_sndtimeo listing_env w fd = None"
    "ux_connect listing_env w fd p = None" "ux_shutdown listing_env w fd = None" for w fd p
    by (simp_all add: listing_env_def silent_env_def ack_env_def)
  then obtain w1 where tr: "Transact listing_env ?r ''wg0'' idle_world = (Some (Inr []), w1)"
    using short by (simp add: Transact_def path wr rd Let_def)
  then show ?thesis using sock
    by (simp add: FetchDevice_def io_bind_def io_read_def io_world_def io_res_def example_libs_def
        ParseGetResponse_def derive_public_def silent_device_def default_device_def)
qed

theorem devices_each_once_witness:
  "\<exists>st'. run_task (example_libs listing_env) TDevices (example_socket, idle_world) =
      (Some (Inr (JArray [DeviceToJs silent_device])), st')
    \<and> (\<exists>names ds. set names = {''wg0''} \<and> distinct names \<and> length names = length ds
        \<and> JArray [DeviceToJs silent_device] = JArray (map DeviceToJs ds))"
proof -
  let ?P = "example_libs listing_env"
  obtain st' where f: "FetchDevice ?P ''wg0'' (example_socket, idle_world) = (Some (Inr silent_device), st')"
    using listing_fetch by blast
  have v: "valid_ifname ''wg0''" "\<not> valid_ifname []" by (simp_all add: valid_ifname_def code_def)
  have "ListInterfaceNames listing_env idle_world = [''wg0'']" "ListWireGuardInterfaceNames listing_env idle_world = Inr []"
    by (simp_all add: ListInterfaceNames_def list_step_def listing_env_def substr_def ListWireGuardInterfaceNames_def
        sys_class_net_def kSocketDir_def v(1) [folded ValidateIfName_iff])
  then have run: "run_task ?P TDevices (example_socket, idle_world) = (Some (Inr (JArray [DeviceToJs silent_device])), st')"
    using f by (simp add: io_map_def io_bind_def io_read_def FetchDevices_def io_res_def example_libs_def)
  have "set_order_ok (l_order ?P)" by (simp add: set_order_ok_def example_libs_def)
  from devices_each_once [OF this run] obtain names ds links where l: "open_dir (l_os ?P) idle_world sys_class_net = Inr links"
    and d: "distinct names"
    and n: "set names = {n \<in> set links. n \<noteq> ''.'' \<and> n \<noteq> ''..'' \<and> stat_ok (l_os ?P) idle_world (''/sys/class/net/'' @ n @ ''/wireguard'')}
        \<union> {n. valid_ifname n \<and> (\<exists>socks. open_dir (l_os ?P) idle_world kSocketDir = Inr socks \<and> n @ ''.sock'' \<in> set socks)}"
    and a: "list_all2 (\<lambda>n d. valid_ifname n \<and> (\<exists>st1 st2. FetchDevice ?P n st1 = (Some (Inr d), st2))) names ds"
    and js: "JArray [DeviceToJs silent_device] = JArray (map DeviceToJs ds)"
    by (elim exE conjE) (rule that)
  have "links = []" using l
    by (simp add: example_libs_def listing_env_def sys_class_net_def kSocketDir_def)
  with n have "set names = {''wg0''}" using v
    by (auto simp: example_libs_def listing_env_def)
  with d js list_all2_lengthD [OF a] run show ?thesis by (intro exI [of _ st'] conjI exI [of _ names] exI [of _ ds])
qed

end
