(* ===== verification/Spec2Isabelle.thy ===== *)
theory Spec2Isabelle imports FamilyRace UapiEcho Base64Ref TsClient TsKeys Listing begin

text \<open>
  A verification of node-wireguard, the native addon (C++ under \<open>src/src/\<close>) through which
  Node.js programs configure WireGuard interfaces, kernel ones over netlink and userspace ones
  over their control socket, and of the TypeScript class in front of it (\<open>src/lib/index.ts\<close>).

  The program. JavaScript calls a method of the TypeScript class, which queues the calls so that one
  at a time reaches the native \<open>WireGuardClient\<close>; the native method checks its arguments,
  converts the configuration object to native data on the main thread, and queues a worker
  whose outcome settles the promise. The worker validates the interface name, decides by the
  presence of a control socket between the two backends, builds a request, exchanges it over a
  socket, and parses the reply into a device that is converted back to JavaScript.

  The theories, in the order of their imports, and what each models:

  \<^item> \<open>Prelude\<close>: machine integers, the exceptions (\<open>error\<close>; results are \<open>error + 'a\<close>), the
    sequencing operator \<open>rbind\<close> and the throwing loops \<open>rfold\<close> and \<open>rmap\<close>.
  \<^item> \<open>Systems\<close>: what step relations share: conditions that steps keep, runs that must end, and
    simulation, as locales, interpreted on the client (\<open>Client\<close>) and on the queue (\<open>TsClient\<close>).
  \<^item> \<open>CxxString\<close>: the standard-library string operations used: \<open>find\<close>, \<open>rfind\<close>, \<open>substr\<close>,
    \<open>c_str\<close>, \<open>getline\<close>, \<open>to_string\<close>, \<open>stoi\<close> and its kin with the index of the first character
    not read.
  \<^item> \<open>WGTypes\<close>: the data of \<open>WireGuardTypes.h\<close>, one record per struct.
  \<^item> \<open>IfName\<close>: \<open>helpers/IfName.cpp\<close>, and the locale \<open>guarded_op\<close> of operations that validate their
    interface name first; it is interpreted on the link operations (\<open>RtLink\<close>), \<open>HasSocket\<close> and
    \<open>Transact\<close> (\<open>UapiSocket\<close>), \<open>FetchDevice\<close> and \<open>ApplyConfig\<close> (\<open>Backends\<close>).
  \<^item> \<open>Key\<close> and \<open>Base64\<close>: \<open>crypto/Key.cpp\<close>, generation and hex in the one, base64 in the other; the
    locale \<open>key_codec\<close>, interpreted on hex and on base64. \<open>Base64Ref\<close>: base64 as RFC 4648 defines it
    on bits, which the code's word shifts compute.
  \<^item> \<open>Wire\<close>, \<open>Inet\<close>, \<open>Addr\<close>: integers in memory, the C library's address functions as a parameter,
    and the port, endpoint and CIDR parsers and printers of \<open>netlink/NlAttr.cpp\<close>.
  \<^item> \<open>WgUapi\<close>: the constants of \<open>netlink/wireguard_uapi.h\<close>.
  \<^item> \<open>Mnl\<close>: libmnl as a parameter. A message under construction is the list of libmnl calls made
    on it; \<open>msg_attrs\<close> is the attribute tree those calls build, \<open>msg_len\<close> the bytes they take,
    \<open>enc_attrs\<close> the wire format of a tree.
  \<^item> \<open>NlBuild\<close> and \<open>NlParse\<close>: the request builders and the reply callbacks of
    \<open>netlink/NlAttr.cpp\<close>; \<open>NlEcho\<close>: what the one writes the other reads.
  \<^item> \<open>Os\<close>: the operating system, as a \<open>world\<close> that calls change (open sockets and descriptors,
    messages sent, datagrams waiting, bytes written and read) and an environment \<open>os_env\<close> that
    answers them, any function of the world so far.
  \<^item> \<open>NlSocket\<close>: \<open>netlink/NlSocket.cpp\<close>; \<open>RtLink\<close>: \<open>netlink/RtLink.cpp\<close>. \<open>Exchange\<close>: the exchange of
    \<open>NlSocket\<close> one system call at a time, for workers on several threads that share the socket.
  \<^item> \<open>UapiCodec\<close> and \<open>UapiReply\<close>: the requests and the responses of \<open>uapi/UapiCodec.cpp\<close>;
    \<open>UapiSocket\<close>: \<open>uapi/UapiSocket.cpp\<close>; \<open>UapiEcho\<close>: what either backend writes for a configuration,
    its own reader takes for the same device.
  \<^item> \<open>AsyncPromise\<close>: \<open>helpers/AsyncPromise.h\<close>; \<open>JsConvert\<close>: the value conversions of
    \<open>WireGuardClient.cpp\<close> and the key functions of \<open>node-wireguard.cpp\<close>.
  \<^item> \<open>Backends\<close>: the part of \<open>WireGuardClient.cpp\<close> that runs on worker threads, the two backends
    behind \<open>FetchDevice\<close> and \<open>ApplyConfig\<close>; \<open>Listing\<close>: what \<open>devices()\<close> yields; \<open>Overlap\<close>: workers whose
    exchanges overlap, and the counter they share.
  \<^item> \<open>Client\<close>: the rest of \<open>WireGuardClient.cpp\<close>, the methods and their registration, and the life of
    a client as a step relation over calls, worker runs and closes, with the reference-counted
    socket. \<open>Worker\<close>: a worker on a kernel interface one access to the shared socket object or system
    call at a time, and that this is the one step \<open>Client\<close> makes of it. \<open>FamilyRace\<close>: what overlapping
    workers can do to the cached family id.
  \<^item> \<open>TsClient\<close>: the class of \<open>src/lib/index.ts\<close> with its queue of promises, over ECMAScript's
    promises and microtasks and the caller's objects, and the first-in first-out queue it refines.
    \<open>TsKeys\<close>: the key functions of \<open>index.ts\<close>.

  What the lemmas show. Keys, ports, ranges and endpoints: round trips, and exactly what is
  accepted. Messages: the SET builder's calls are well bracketed and build the attribute tree
  that is the configuration's meaning (\<open>set_device_attrs\<close>), inside the estimated buffer; the
  dump parser puts split peers together again and does not depend on uninitialised fields when
  the kernel sends the family first. Exchanges: messages of other exchanges are skipped, kernel
  errors are thrown with their errno, sockets and descriptors are closed on every path. The text
  protocol: requests are exactly the configuration's lines, responses round trip, non-zero
  errno lines are errors. The client: invalid names have no effect, a closed client rejects
  every call, the socket lives as long as it is referred to, and every promise is settled once.
  Concurrency: a worker alone on the socket computes the functions \<open>FetchDevice\<close> and \<open>ApplyConfig\<close>,
  and calls and closes in the middle of it change nothing of that; two that overlap lose a
  reply, but mix none up while their sequence numbers differ, which the shared counter does not
  ensure, and an interface's index can stay behind as the cached family id; the wrapper's queue has at
  most one worker in flight, runs the calls in order, gives each caller the outcome of its own
  call, and settles all of them. Generated keys are accepted by every function that takes keys.
  Some theorems show where the code falls short of its comments: line feeds in endpoints, and
  NULs in endpoints and in ranges, let protocol lines in; a range list of more than 2340 entries
  overflows a 16-bit attribute length (below an estimated size of 65536 bytes nothing does,
  \<open>small_config_fits\<close> in \<open>NlEcho\<close>); and the number parsers accept signs.

  Parameters and hypotheses. \<open>inet_ok\<close>, \<open>mnl_ok\<close>, \<open>mnl_parse_ok\<close> and \<open>writes_progress\<close> state the
  documented behaviour of \<open>inet_pton\<close> and \<open>inet_ntop\<close>, of libmnl's layout and attribute iterator,
  and of \<open>write\<close> on a stream socket. \<open>ref_inet\<close>, \<open>ref_mnl\<close> and \<open>ack_env\<close> are instances that satisfy
  them; the examples use them. \<open>kernel_echoes\<close> (\<open>Overlap\<close>) is netlink's rule that an answer carries the
  sequence number of its request. The random generator and the X25519 functions of OpenSSL are
  parameters without hypotheses.

  Termination and fuel. No fuel is used. The write loop of \<open>Transact\<close> is a partial function, shown
  to return under \<open>writes_progress\<close>; its read loop terminates because of the response limit. A
  receive on a socket to which nothing more will come yields \<open>None\<close>: the code has no timeout
  there. The queue of \<open>TsClient\<close> comes with a bound (\<open>work\<close>) that every step brings down.

  Not modelled: finding and loading the compiled addon (\<open>src/lib/binding.ts\<close>) and property accessors
  of JavaScript objects. In \<open>Client\<close> a worker is one step. \<open>TsClient\<close> shows that
  through the wrapper no two workers overlap, and \<open>Worker\<close> that a worker on a kernel interface is then
  one step; the link operations and the transactions with a userspace daemon use sockets of their own
  and have no smaller steps here. Calls made past the wrapper can interleave inside a worker, which
  \<open>Exchange\<close>, \<open>Overlap\<close> and \<open>FamilyRace\<close> treat. A racing access to a member of \<open>NlSocket\<close>, undefined in
  C++, is taken as a load or store of the whole member.
\<close>

section \<open>From a JavaScript object to the backend\<close>

lemma configure_queues:
  assumes "cl_holds c" and "wf_config cfg" and "list_all (parsed_peer (l_inet P)) (cfg_peers cfg)"
  shows "client_call P M_configureDevice [JString name, config_js cfg] c =
    c\<lparr>cl_workers := cl_workers c @ [(cl_next c, TConfigure name cfg)], cl_next := Suc (cl_next c)\<rparr>"
proof -
  have "IsObject (config_js cfg)" by (simp add: config_js_def)
  then show ?thesis using assms ConfigFromJs_config_js [OF assms(2,3)]
    by (simp add: client_call_def method_ConfigureDevice_def GetStringArg_def)
qed

lemma run_configure_Inr:
  "run_task P (TConfigure name cfg) (s, w) = (Some (Inr v), (s', w')) \<Longrightarrow>
   ApplyConfig P name cfg (s, w) = (Some (Inr ()), (s', w'))"
  by (auto simp: io_map_def io_bind_Inr)

text \<open>
  C2: \<open>configureDevice(name, cfg)\<close> on a userspace interface, end to end: the object a clean
  configuration is written as queues a worker with that very configuration, and if the worker
  succeeds, the daemon's line reader has been sent exactly the configuration's lines and the
  closing empty line, and answered with no \<open>errno\<close> other than zero.
\<close>

theorem configure_device_uapi:
  assumes "cl_holds c" and "wf_config cfg" and "list_all (parsed_peer (l_inet P)) (cfg_peers cfg)"
    and "inet_ok (l_inet P)" and "clean_config (l_inet P) cfg" and "writes_progress (l_os P)"
    and "HasSocket (l_os P) name w = Inr True"
    and "run_task P (TConfigure name cfg) (s, w) = (Some (Inr v), (s', w'))"
  shows "cl_workers (client_call P M_configureDevice [JString name, config_js cfg] c) =
      cl_workers c @ [(cl_next c, TConfigure name cfg)]
    \<and> (\<exists>fd. getlines (written w' fd) = set_lines cfg @ [[]] \<and> endpoints_valid (l_inet P) cfg
         \<and> (\<forall>l \<in> set (getlines (got w' fd)). \<forall>v. errno_of l = Some v \<longrightarrow> (\<exists>n. stoi v = Inr (0, n))))"
proof -
  from configure_uapi_writes_configuration [OF run_configure_Inr [OF assms(8)] assms(7,6)] obtain fd where
    fd: "written w' fd = unlines (set_lines cfg) @ [LF]" "endpoints_valid (l_inet P) cfg"
      "\<forall>l \<in> set (getlines (got w' fd)). \<forall>v. errno_of l = Some v \<longrightarrow> (\<exists>n. stoi v = Inr (0, n))" by blast
  then have "BuildSetRequest (l_inet P) cfg = Inr (written w' fd)" by (simp add: BuildSetRequest_Inr_iff)
  from getlines_BuildSetRequest [OF assms(4,5) this] fd(2,3) configure_queues [OF assms(1-3), of name] show ?thesis
    by (intro conjI exI [of _ fd]) simp_all
qed

theorem configure_device_uapi_witness:
  "\<exists>s' w' fd. run_task (example_libs silent_env) (TConfigure ''wg0'' default_config) (example_socket, idle_world) =
      (Some (Inr JUndefined), (s', w')) \<and> getlines (written w' fd) = set_lines default_config @ [[]]"
proof -
  let ?P = "example_libs silent_env"
  let ?c = "(snd (client_new ack_env idle_world))\<lparr>cl_holds := True\<rparr>"
  obtain w' where "ApplyConfig ?P ''wg0'' default_config (example_socket, idle_world) = (Some (Inr ()), (example_socket, w'))"
    using silent_run by blast
  then have run: "run_task ?P (TConfigure ''wg0'' default_config) (example_socket, idle_world) =
      (Some (Inr JUndefined), (example_socket, w'))"
    by (simp add: io_map_def io_bind_def io_res_def js_unit_def)
  have "inet_ok (l_inet ?P)" by (simp add: example_libs_def inet_ok_ref)
  from configure_device_uapi [of ?c default_config ?P, OF _ _ _ this _ writes_progress_silent silent_HasSocket run] run
  show ?thesis by (auto simp: wf_config_def default_config_def clean_config_def)
qed

text \<open>
  C1: \<open>configureDevice(name, cfg)\<close> on a kernel interface, end to end: the object a configuration
  is written as queues a worker with that very configuration; if the worker succeeds, the last
  message on the client's socket is a SET request to the resolved family which carries the
  configuration's attribute tree and fits the buffer it was built in. And for every peer of the
  configuration whose attributes fit netlink's 16-bit lengths and 14-bit types (so that it has no
  range list as long as in C38; see \<open>small_config_fits\<close>) and whose endpoint and ranges are in the form
  \<open>inet_ntop\<close> prints, the reply parser, given the bytes of its entry in that tree, would read back
  the key, endpoint, keepalive and ranges the JavaScript object held.
\<close>

theorem configure_device_kernel:
  assumes "cl_holds c" and "wf_config cfg" and "list_all (parsed_peer (l_inet P)) (cfg_peers cfg)"
    and "inet_ok (l_inet P)" and "mnl_parse_ok (l_mnl P)" and "mnl_ok (l_mnl P)"
    and "HasSocket (l_os P) name w = Inr False"
    and "run_task P (TConfigure name cfg) (s, w) = (Some (Inr v), (s', w'))"
  shows "cl_workers (client_call P M_configureDevice [JString name, config_js cfg] c) =
      cl_workers c @ [(cl_next c, TConfigure name cfg)]
    \<and> (\<exists>xs m. sent w' = xs @ [(sk_handle s, m)] \<and> valid_ifname name
         \<and> nlmsg_type m = wgFamilyId s' \<and> wgFamilyId s' \<noteq> 0
         \<and> nlmsg_extra m = Genl WG_CMD_SET_DEVICE WG_GENL_VERSION
         \<and> msg_attrs (nlmsg_calls m) = Some (set_device_attrs (l_inet P) name cfg)
         \<and> msg_len (l_mnl P) m \<le> set_buffer_size (l_mnl P) cfg)
    \<and> (\<forall>p \<in> set (cfg_peers cfg). list_all attr_fits (peer_attrs (l_inet P) p) \<longrightarrow>
         pred_option (canonical_endpoint (l_inet P)) (pc_endpoint p) \<longrightarrow>
         list_all (canonical_ip (l_inet P)) (pc_allowedIPs p) \<longrightarrow>
         parse_peer (l_inet P) (l_mnl P) (l_junk P) \<lparr>nla_type = t, nla_payload = enc_attrs (peer_attrs (l_inet P) p)\<rparr> =
           Inr (echo_peer p))"
proof -
  note sent = configure_kernel_sends_configuration [OF run_configure_Inr [OF assms(8)] assms(7,6,4,2)]
  have "wf_peer_config p" if "p \<in> set (cfg_peers cfg)" for p
    using assms(2) that by (simp add: wf_config_def list_all_iff)
  then have "parse_peer (l_inet P) (l_mnl P) (l_junk P) \<lparr>nla_type = t, nla_payload = enc_attrs (peer_attrs (l_inet P) p)\<rparr> =
      Inr (echo_peer p)" if "p \<in> set (cfg_peers cfg)" "list_all attr_fits (peer_attrs (l_inet P) p)"
      "pred_option (canonical_endpoint (l_inet P)) (pc_endpoint p)" "list_all (canonical_ip (l_inet P)) (pc_allowedIPs p)" for p
    using parse_peer_echo [OF assms(4,5)] that by blast
  with sent configure_queues [OF assms(1-3), of name] show ?thesis by simp
qed

theorem configure_device_kernel_witness:
  "\<exists>s' w' xs m. run_task (example_libs zero_env) (TConfigure ''wg0'' example_config) (example_socket, idle_world) =
      (Some (Inr JUndefined), (s', w')) \<and> sent w' = xs @ [(3, m)]
    \<and> msg_attrs (nlmsg_calls m) = Some (set_device_attrs ref_inet ''wg0'' example_config)
    \<and> parse_peer ref_inet ref_mnl (\<lambda>_. (0, 0)) \<lparr>nla_type = 0, nla_payload = enc_attrs (peer_attrs ref_inet example_peer)\<rparr> =
        Inr (echo_peer example_peer)"
proof -
  let ?P = "example_libs zero_env"
  let ?c = "(snd (client_new ack_env idle_world))\<lparr>cl_holds := True\<rparr>"
  have canon: "canonical_config ref_inet example_config" by (rule example_config_canonical)
  obtain s' w' where "ApplyConfig ?P ''wg0'' example_config (example_socket, idle_world) = (Some (Inr ()), (s', w'))"
    using zero_run_config [OF canonical_config_ok(2) [OF inet_ok_ref canon]] by blast
  then have run: "run_task ?P (TConfigure ''wg0'' example_config) (example_socket, idle_world) =
      (Some (Inr JUndefined), (s', w'))"
    by (simp add: io_map_def io_bind_def io_res_def js_unit_def)
  have libs: "inet_ok (l_inet ?P)" "mnl_parse_ok (l_mnl ?P)" "mnl_ok (l_mnl ?P)"
    and refs: "l_inet ?P = ref_inet" "l_mnl ?P = ref_mnl" "l_junk ?P = (\<lambda>_. (0, 0))"
    by (simp_all add: example_libs_def inet_ok_ref mnl_parse_ok_ref mnl_ok_ref)
  have cfg: "wf_config example_config" "list_all (parsed_peer (l_inet ?P)) (cfg_peers example_config)"
    using canon by (simp_all add: canonical_config_def refs)
  have peer: "example_peer \<in> set (cfg_peers example_config)" by (simp add: example_config_def)
  note all = configure_device_kernel [of ?c example_config ?P, OF _ cfg libs zero_HasSocket run]
  have "parse_peer ref_inet ref_mnl (\<lambda>_. (0, 0)) \<lparr>nla_type = 0, nla_payload = enc_attrs (peer_attrs ref_inet example_peer)\<rparr> =
      Inr (echo_peer example_peer)"
    using all [of 0] peer example_peer_ok(2-4) by (simp add: refs)
  moreover have "\<exists>xs m. sent w' = xs @ [(3, m)]
      \<and> msg_attrs (nlmsg_calls m) = Some (set_device_attrs ref_inet ''wg0'' example_config)"
    using all [of 0] by (auto simp: refs example_socket_def)
  ultimately show ?thesis using run by blast
qed

end
